(* ===== verification/Landa_Prelude.thy ===== *)
theory Landa_Prelude
  imports Main "HOL-Library.Multiset" "HOL-Library.Char_ord" "HOL-Library.List_Lexorder"
begin

text \<open>
  Shared vocabulary of the development: results with errors as values, JavaScript safe integers,
  the identifier patterns the backend tests with regular expressions, stable sorting by an integer
  key, and the generic list lemmas the components use.

  JavaScript strings are modelled as \<open>string\<close>: each \<open>char\<close> stands for one UTF-16 code unit below
  256. Identifiers, hashes and keys of this program are ASCII. JavaScript numbers that the code
  checks with \<open>Number.isSafeInteger\<close> are modelled as \<open>int\<close>; fractions and NaN fail that check
  first and are outside the model.
\<close>

section \<open>Collections of facts\<close>

named_theorems result_simps "rules for results with errors as values"
named_theorems pattern_defs "definitions of the identifier patterns"

section \<open>Results\<close>

text \<open>A thrown error is \<open>Inl\<close>, a returned value \<open>Inr\<close>. \<open>ensure\<close> is an early throw.\<close>

definition ensure :: "'e \<Rightarrow> bool \<Rightarrow> ('e + 'a) \<Rightarrow> 'e + 'a" where
  "ensure e ok k = (if ok then k else Inl e)"

primrec bindE :: "('e + 'a) \<Rightarrow> ('a \<Rightarrow> 'e + 'b) \<Rightarrow> 'e + 'b" where
  "bindE (Inl e) f = Inl e"
| "bindE (Inr x) f = f x"

fun mapE :: "('a \<Rightarrow> 'e + 'b) \<Rightarrow> 'a list \<Rightarrow> 'e + 'b list" where
  "mapE f [] = Inr []"
| "mapE f (x # xs) = bindE (f x) (\<lambda>y. bindE (mapE f xs) (\<lambda>ys. Inr (y # ys)))"

fun ok :: "'e + 'a \<Rightarrow> bool" where
  "ok (Inr x) = True"
| "ok (Inl e) = False"

lemma ensure_Inr [simp, result_simps]: "ensure e c k = Inr x \<longleftrightarrow> c \<and> k = Inr x"
  by (simp add: ensure_def)

lemma ensure_Inl [result_simps]: "ensure e c k = Inl e' \<longleftrightarrow> (\<not> c \<and> e' = e) \<or> (c \<and> k = Inl e')"
  by (auto simp: ensure_def)

lemma ensure_True [simp]: "ensure e True k = k"
  by (simp add: ensure_def)

lemma ensure_False [simp]: "ensure e False k = Inl e"
  by (simp add: ensure_def)

lemma bindE_Inr [simp, result_simps]: "bindE m f = Inr y \<longleftrightarrow> (\<exists>x. m = Inr x \<and> f x = Inr y)"
  by (cases m) auto

lemma bindE_Inl [result_simps]: "bindE m f = Inl e \<longleftrightarrow> m = Inl e \<or> (\<exists>x. m = Inr x \<and> f x = Inl e)"
  by (cases m) auto

lemma mapE_Inr_length: "mapE f xs = Inr ys \<Longrightarrow> length ys = length xs"
  by (induction xs arbitrary: ys) auto

lemma mapE_Inr_nth: "mapE f xs = Inr ys \<Longrightarrow> i < length xs \<Longrightarrow> f (xs ! i) = Inr (ys ! i)"
proof (induction xs arbitrary: ys i)
  case Nil
  then show ?case by simp
next
  case (Cons x xs)
  then show ?case by (cases i) auto
qed

lemma mapE_all_ok: "(\<And>x. x \<in> set xs \<Longrightarrow> f x = Inr (g x)) \<Longrightarrow> mapE f xs = Inr (map g xs)"
  by (induction xs) auto

lemma mapE_ok_iff: "ok (mapE f xs) \<longleftrightarrow> (\<forall>x \<in> set xs. ok (f x))"
proof (induction xs)
  case Nil
  then show ?case by simp
next
  case (Cons x xs)
  then show ?case by (cases "f x"; cases "mapE f xs") auto
qed

lemma ok_iff: "ok r \<longleftrightarrow> (\<exists>x. r = Inr x)"
  by (cases r) auto

section \<open>Safe integers\<close>

definition MAX_SAFE_INTEGER :: int where
  "MAX_SAFE_INTEGER = 9007199254740991"

definition isSafeInteger :: "int \<Rightarrow> bool" where
  "isSafeInteger n \<longleftrightarrow> - MAX_SAFE_INTEGER \<le> n \<and> n \<le> MAX_SAFE_INTEGER"

definition safeInteger :: "int \<Rightarrow> int \<Rightarrow> int \<Rightarrow> bool" where
  "safeInteger v lo hi \<longleftrightarrow> isSafeInteger v \<and> lo \<le> v \<and> v \<le> hi"

lemma safeInteger_bounds: "safeInteger v lo hi \<Longrightarrow> lo \<le> v \<and> v \<le> hi"
  by (simp add: safeInteger_def)

lemma safeInteger_small:
  "- MAX_SAFE_INTEGER \<le> lo \<Longrightarrow> hi \<le> MAX_SAFE_INTEGER \<Longrightarrow> safeInteger v lo hi \<longleftrightarrow> lo \<le> v \<and> v \<le> hi"
  by (auto simp: safeInteger_def isSafeInteger_def)

section \<open>Identifier patterns\<close>

definition char_between :: "nat \<Rightarrow> nat \<Rightarrow> char \<Rightarrow> bool" where
  "char_between lo hi c \<longleftrightarrow> lo \<le> (of_char c :: nat) \<and> (of_char c :: nat) \<le> hi"

definition is_digit :: "char \<Rightarrow> bool" where
  "is_digit c \<longleftrightarrow> char_between 48 57 c"

definition is_lower :: "char \<Rightarrow> bool" where
  "is_lower c \<longleftrightarrow> char_between 97 122 c"

definition is_upper :: "char \<Rightarrow> bool" where
  "is_upper c \<longleftrightarrow> char_between 65 90 c"

definition is_lower_hex :: "char \<Rightarrow> bool" where
  "is_lower_hex c \<longleftrightarrow> is_digit c \<or> char_between 97 102 c"

definition is_hex :: "char \<Rightarrow> bool" where
  "is_hex c \<longleftrightarrow> is_lower_hex c \<or> char_between 65 70 c"

lemmas char_class_defs = char_between_def is_digit_def is_lower_def is_upper_def
  is_lower_hex_def is_hex_def

text \<open>\<open>UUID_PATTERN\<close> of utils/uuid.ts: 8-4-4-4-12 hex digits of either case.\<close>

definition uuid_shape :: "bool list" where
  "uuid_shape = replicate 8 False @ [True] @ replicate 4 False @ [True] @ replicate 4 False @ [True]
     @ replicate 4 False @ [True] @ replicate 12 False"

definition isUuid :: "string \<Rightarrow> bool" where
  "isUuid s \<longleftrightarrow> list_all2 (\<lambda>sep c. if sep then c = CHR ''-'' else is_hex c) uuid_shape s"

text \<open>\<open>/^[0-9a-f]{64}$/\<close>: a lower-case SHA-256 digest.\<close>

definition is_hash :: "string \<Rightarrow> bool" where
  "is_hash s \<longleftrightarrow> length s = 64 \<and> list_all is_lower_hex s"

text \<open>\<open>/^[a-z0-9][a-z0-9_.:-]{0,159}$/\<close>: a task or chapter key.\<close>

definition is_key_char :: "char \<Rightarrow> bool" where
  "is_key_char c \<longleftrightarrow> is_lower c \<or> is_digit c \<or> c \<in> set ''_.:-''"

definition is_key :: "string \<Rightarrow> bool" where
  "is_key s \<longleftrightarrow> (case s of [] \<Rightarrow> False
     | c # cs \<Rightarrow> (is_lower c \<or> is_digit c) \<and> length cs \<le> 159 \<and> list_all is_key_char cs)"

text \<open>\<open>/^[A-Z][A-Z0-9_]{0,99}$/\<close>: a machine failure code.\<close>

definition is_failure_code :: "string \<Rightarrow> bool" where
  "is_failure_code s \<longleftrightarrow> (case s of [] \<Rightarrow> False
     | c # cs \<Rightarrow> is_upper c \<and> length cs \<le> 99
         \<and> list_all (\<lambda>x. is_upper x \<or> is_digit x \<or> x = CHR ''_'') cs)"

lemmas pattern_unfolds [pattern_defs] = char_class_defs uuid_shape_def isUuid_def is_hash_def
  is_key_char_def is_key_def is_failure_code_def

lemma isUuid_length: "isUuid s \<Longrightarrow> length s = 36"
  by (auto simp: isUuid_def uuid_shape_def dest!: list_all2_lengthD)

lemma is_key_nonempty: "is_key s \<Longrightarrow> s \<noteq> []"
  by (auto simp: is_key_def)

lemma is_key_append:
  assumes "is_key s" and "list_all is_key_char t" and "length s + length t \<le> 160"
  shows "is_key (s @ t)"
  using assms by (cases s) (auto simp: is_key_def)

lemma is_key_chars: "is_key s \<Longrightarrow> list_all is_key_char s"
  by (cases s) (auto simp: is_key_def is_key_char_def)

section \<open>Decimal numerals\<close>

text \<open>The decimal text of a number, as a template literal or JSON.stringify writes it.\<close>

definition digit_char :: "nat \<Rightarrow> char" where
  "digit_char d = char_of (48 + d)"

fun nat_text :: "nat \<Rightarrow> string" where
  "nat_text n = (if n < 10 then [digit_char n] else nat_text (n div 10) @ [digit_char (n mod 10)])"

declare nat_text.simps [simp del]

definition int_text :: "int \<Rightarrow> string" where
  "int_text i = (if i < 0 then CHR ''-'' # nat_text (nat (- i)) else nat_text (nat i))"

lemma of_char_digit_char: "d < 10 \<Longrightarrow> (of_char (digit_char d) :: nat) = 48 + d"
  by (simp add: digit_char_def)

lemma digit_char_inj: "a < 10 \<Longrightarrow> b < 10 \<Longrightarrow> digit_char a = digit_char b \<longleftrightarrow> a = b"
  by (metis add_left_cancel of_char_digit_char)

lemma is_digit_digit_char: "d < 10 \<Longrightarrow> is_digit (digit_char d)"
  by (simp add: is_digit_def char_between_def of_char_digit_char)

lemma nat_text_digits: "list_all is_digit (nat_text n)"
proof (induction n rule: nat_text.induct)
  case (1 n)
  then show ?case
    by (subst nat_text.simps) (auto simp: is_digit_digit_char)
qed

lemma nat_text_nonempty [simp]: "nat_text n \<noteq> []"
  by (subst nat_text.simps) simp

lemma nat_text_inj: "nat_text m = nat_text n \<longleftrightarrow> m = n"
proof
  assume "nat_text m = nat_text n"
  then show "m = n"
  proof (induction m arbitrary: n rule: nat_text.induct)
    case (1 m)
    have m: "nat_text m = (if m < 10 then [digit_char m]
        else nat_text (m div 10) @ [digit_char (m mod 10)])"
      by (rule nat_text.simps)
    have n: "nat_text n = (if n < 10 then [digit_char n]
        else nat_text (n div 10) @ [digit_char (n mod 10)])"
      by (rule nat_text.simps)
    show ?case
    proof (cases "m < 10")
      case True
      with "1.prems" m n show ?thesis
        by (auto simp: digit_char_inj append_eq_Cons_conv Cons_eq_append_conv split: if_splits)
    next
      case False
      with "1.prems" m n have "\<not> n < 10"
        by (auto simp: append_eq_Cons_conv split: if_splits)
      with False "1.prems" m n have "nat_text (m div 10) = nat_text (n div 10)"
        and "digit_char (m mod 10) = digit_char (n mod 10)"
        by auto
      moreover from this have "m mod 10 = n mod 10" by (simp add: digit_char_inj)
      ultimately have "m div 10 = n div 10" "m mod 10 = n mod 10"
        using "1.IH" False by auto
      then show ?thesis by (metis div_mult_mod_eq)
    qed
  qed
qed simp

lemma nat_text_length: "n < 10 ^ k \<Longrightarrow> 0 < k \<Longrightarrow> length (nat_text n) \<le> k"
proof (induction k arbitrary: n)
  case 0
  then show ?case by simp
next
  case (Suc k)
  show ?case
  proof (cases "n < 10")
    case True
    then show ?thesis by (subst nat_text.simps) simp
  next
    case False
    with Suc.prems have k: "0 < k" by (cases k) auto
    from Suc.prems have "n div 10 < 10 ^ k" by (simp add: less_mult_imp_div_less mult.commute)
    with Suc.IH k have "length (nat_text (n div 10)) \<le> k" by blast
    with False show ?thesis by (subst nat_text.simps) simp
  qed
qed

section \<open>Sorting by an integer key\<close>

text \<open>
  \<open>Array.prototype.sort\<close> with a comparison on one integer field is a stable sort by that field,
  which is \<open>sort_key\<close>.
\<close>

lemma sort_key_eq_of_inj:
  fixes f :: "'a \<Rightarrow> 'b::linorder"
  assumes "mset xs = mset ys" and "inj_on f (set xs)"
  shows "sort_key f xs = sort_key f ys"
proof (rule properties_for_sort_key)
  show "mset (sort_key f ys) = mset xs" using assms(1) by simp
next
  fix k
  assume "k \<in> set (sort_key f ys)"
  then have k: "k \<in> set xs" using assms(1) by (metis mset_eq_setD set_sort)
  have single: "filter (\<lambda>x. f k = f x) zs = replicate (count (mset xs) k) k"
    if "mset zs = mset xs" for zs
  proof -
    have "set zs = set xs" using that by (metis mset_eq_setD)
    then have "filter (\<lambda>x. f k = f x) zs = filter (\<lambda>x. x = k) zs"
      using assms(2) k by (intro filter_cong) (auto dest: inj_onD)
    also have "\<dots> = replicate (count (mset zs) k) k"
      by (induction zs) auto
    finally show ?thesis using that by simp
  qed
  show "filter (\<lambda>x. f k = f x) (sort_key f ys) = filter (\<lambda>x. f k = f x) xs"
    using single[of "sort_key f ys"] single[of xs] assms(1) by simp
next
  show "sorted (map f (sort_key f ys))" by simp
qed

section \<open>Lists\<close>

text \<open>Position of the first element of a list that satisfies a test (\<open>findIndex\<close>).\<close>

fun find_index :: "('a \<Rightarrow> bool) \<Rightarrow> 'a list \<Rightarrow> nat option" where
  "find_index P [] = None"
| "find_index P (x # xs) = (if P x then Some 0 else map_option Suc (find_index P xs))"

lemma find_index_Some:
  "find_index P xs = Some i \<Longrightarrow> i < length xs \<and> P (xs ! i) \<and> (\<forall>j < i. \<not> P (xs ! j))"
proof (induction xs arbitrary: i)
  case Nil
  then show ?case by simp
next
  case (Cons x xs)
  then show ?case
    by (auto simp: less_Suc_eq_0_disj split: if_splits)
qed

lemma find_index_None: "find_index P xs = None \<longleftrightarrow> (\<forall>x \<in> set xs. \<not> P x)"
  by (induction xs) auto

text \<open>The distinct elements in order of first occurrence: \<open>[...new Set(xs)]\<close>.\<close>

definition js_distinct :: "'a list \<Rightarrow> 'a list" where
  "js_distinct xs = rev (remdups (rev xs))"

lemma set_js_distinct [simp]: "set (js_distinct xs) = set xs"
  by (simp add: js_distinct_def)

lemma distinct_js_distinct [simp]: "distinct (js_distinct xs)"
  by (simp add: js_distinct_def)

lemma length_js_distinct: "length (js_distinct xs) = card (set xs)"
  by (metis distinct_card distinct_js_distinct set_js_distinct)

text \<open>Last entry wins when a \<open>Map\<close> is built from a list of pairs.\<close>

definition js_map_get :: "('k \<times> 'v) list \<Rightarrow> 'k \<Rightarrow> 'v option" where
  "js_map_get ps = map_of (rev ps)"

lemma js_map_get_distinct: "distinct (map fst ps) \<Longrightarrow> js_map_get ps k = map_of ps k"
proof -
  assume d: "distinct (map fst ps)"
  then have "distinct (map fst (rev ps))" by (simp add: rev_map [symmetric])
  then have "map_of (rev ps) = map_of ps"
    by (intro map_of_eqI) (use d in \<open>auto simp: map_of_eq_Some_iff\<close>)
  then show ?thesis by (simp add: js_map_get_def)
qed

text \<open>
  A \<open>Map\<close> in insertion order as an association list: \<open>set\<close> of a new key appends, of a known key
  replaces in place.
\<close>

fun js_map_set :: "'k \<Rightarrow> 'v \<Rightarrow> ('k \<times> 'v) list \<Rightarrow> ('k \<times> 'v) list" where
  "js_map_set k v [] = [(k, v)]"
| "js_map_set k v (p # ps) = (if fst p = k then (k, v) # ps else p # js_map_set k v ps)"

lemma map_of_js_map_set [simp]: "map_of (js_map_set k v ps) = (map_of ps)(k \<mapsto> v)"
  by (induction ps) auto

lemma fst_js_map_set: "fst ` set (js_map_set k v ps) = insert k (fst ` set ps)"
  by (induction ps) auto

lemma distinct_js_map_set: "distinct (map fst ps) \<Longrightarrow> distinct (map fst (js_map_set k v ps))"
  by (induction ps) (auto simp: fst_js_map_set image_iff dest: fst_js_map_set [THEN equalityD1, THEN subsetD])

lemma js_map_set_new: "k \<notin> fst ` set ps \<Longrightarrow> js_map_set k v ps = ps @ [(k, v)]"
  by (induction ps) auto

lemma set_js_map_set: "set (js_map_set k v ps) \<subseteq> insert (k, v) (set ps)"
  by (induction ps) auto

text \<open>A string or null that JavaScript takes as true in a condition.\<close>

definition truthy :: "string option \<Rightarrow> bool" where
  "truthy x \<longleftrightarrow> x \<noteq> None \<and> x \<noteq> Some []"

text \<open>\<open>String.prototype.trim\<close> on the white space and line ends below 256.\<close>

definition is_space :: "char \<Rightarrow> bool" where
  "is_space c \<longleftrightarrow> (of_char c :: nat) \<in> {9, 10, 11, 12, 13, 32, 160}"

definition trim :: "string \<Rightarrow> string" where
  "trim s = rev (dropWhile is_space (rev (dropWhile is_space s)))"

text \<open>Texts of decimal digits and their value.\<close>

definition all_digits :: "string \<Rightarrow> bool" where
  "all_digits s \<longleftrightarrow> s \<noteq> [] \<and> list_all is_digit s"

definition digits_value :: "string \<Rightarrow> nat" where
  "digits_value s = foldl (\<lambda>n c. 10 * n + (of_char c - 48)) 0 s"

definition lower_char :: "char \<Rightarrow> char" where
  "lower_char c = (if is_upper c then char_of (of_char c + 32 :: nat) else c)"

definition to_lower :: "string \<Rightarrow> string" where
  "to_lower s = map lower_char s"

lemma sum_list_map_nonneg:
  fixes f :: "'a \<Rightarrow> int"
  shows "(\<And>x. x \<in> set xs \<Longrightarrow> 0 \<le> f x) \<Longrightarrow> 0 \<le> sum_list (map f xs)"
  by (induction xs) auto

lemma sum_list_map_bound:
  fixes f :: "'a \<Rightarrow> int"
  shows "(\<And>x. x \<in> set xs \<Longrightarrow> f x \<le> b) \<Longrightarrow> sum_list (map f xs) \<le> int (length xs) * b"
proof (induction xs)
  case Nil
  then show ?case by simp
next
  case (Cons x xs)
  then have "sum_list (map f xs) \<le> int (length xs) * b" "f x \<le> b" by auto
  then show ?case by (simp add: algebra_simps)
qed

end
