(* ===== verification/Canonical_Json.thy ===== *)
theory Canonical_Json
  imports Landa_Prelude
begin

text \<open>
  The canonical JSON text that every orchestration contract hash is taken over
  (ai-id/shared/lesson-author-orchestration-v2-canonical-json.logic.ts): the strict encoder, the
  encoder it replaced, the JSON round trip of a jsonb column and the hashing policy.

  A JavaScript value is a finite tree. \<open>JBack\<close> is a reference to an object on the current path (a
  cycle), \<open>JHole\<close> a missing element of a sparse array, \<open>JExotic own j\<close> an object that is not plain:
  \<open>own\<close> are its own enumerable properties, \<open>j\<close> the value JSON.stringify reads it as (its toJSON
  result, else the plain object of \<open>own\<close>). Numbers are integers or not finite; fractions are outside
  the model. A plain object is the list of its properties in insertion order.
\<close>

section \<open>Values\<close>

datatype jsval =
    JUndefined
  | JNull
  | JBool bool
  | JInt int
  | JNonFinite
  | JStr string
  | JFunction
  | JSymbol
  | JBigInt
  | JHole
  | JBack
  | JExotic "(string \<times> jsval) list" jsval
  | JArr "jsval list"
  | JObj "(string \<times> jsval) list"

datatype violation = V_undefined | V_array_hole | V_function | V_symbol | V_bigint
  | V_non_finite_number | V_non_plain_object | V_cycle

datatype segment = SIndex nat | SKey string

datatype canonical_error = Canonical_error (err_path: "segment list") (err_violation: violation)
  | Native_error

section \<open>JSON.stringify of a string\<close>

definition quote_char :: char where "quote_char = CHR 0x22"

definition backslash :: char where "backslash = CHR 0x5C"

definition hex_digit :: "nat \<Rightarrow> char" where
  "hex_digit d = (if d < 10 then char_of (48 + d) else char_of (87 + d))"

definition esc_char :: "char \<Rightarrow> string" where
  "esc_char c = (let n = (of_char c :: nat) in
     if n = 34 then [backslash, quote_char]
     else if n = 92 then [backslash, backslash]
     else if n = 8 then [backslash, CHR ''b'']
     else if n = 9 then [backslash, CHR ''t'']
     else if n = 10 then [backslash, CHR ''n'']
     else if n = 12 then [backslash, CHR ''f'']
     else if n = 13 then [backslash, CHR ''r'']
     else if n < 32 then [backslash, CHR ''u'', CHR ''0'', CHR ''0'', hex_digit (n div 16), hex_digit (n mod 16)]
     else [c])"

definition json_string :: "string \<Rightarrow> string" where
  "json_string s = quote_char # concat (map esc_char s) @ [quote_char]"

fun comma_join :: "string list \<Rightarrow> string" where
  "comma_join [] = []"
| "comma_join [x] = x"
| "comma_join (x # y # xs) = x @ CHR '','' # comma_join (y # xs)"

section \<open>The path shown in an error\<close>

definition is_word_char :: "char \<Rightarrow> bool" where
  "is_word_char c \<longleftrightarrow> is_lower c \<or> is_upper c \<or> is_digit c \<or> c = CHR ''_''"

definition identifier_key :: "string \<Rightarrow> bool" where
  "identifier_key s \<longleftrightarrow> (case s of [] \<Rightarrow> False
     | c # cs \<Rightarrow> (is_lower c \<or> is_upper c \<or> c = CHR ''_'' \<or> c = CHR ''$'') \<and> length cs \<le> 63
         \<and> list_all (\<lambda>x. is_word_char x \<or> x = CHR ''$'') cs)"

definition token_key :: "string \<Rightarrow> bool" where
  "token_key s \<longleftrightarrow> 1 \<le> length s \<and> length s \<le> 64 \<and> list_all (\<lambda>x. is_word_char x \<or> x \<in> set ''$.:-'') s"

definition MAX_PATH_CHARS :: nat where "MAX_PATH_CHARS = 512"

fun segment_text :: "segment \<Rightarrow> string" where
  "segment_text (SIndex i) = CHR ''['' # nat_text i @ '']''"
| "segment_text (SKey k) = (if identifier_key k then CHR ''.'' # k
     else if token_key k then CHR ''['' # json_string k @ '']''
     else ''[?]'')"

fun format_loop :: "string \<Rightarrow> segment list \<Rightarrow> string" where
  "format_loop path [] = path"
| "format_loop path (seg # segs) = (let path' = path @ segment_text seg in
     if MAX_PATH_CHARS < length path' then take (MAX_PATH_CHARS - 3) path' @ ''...''
     else format_loop path' segs)"

definition formatPath :: "segment list \<Rightarrow> string" where
  "formatPath segs = format_loop ''$'' segs"

section \<open>The strict encoder\<close>

text \<open>
  \<open>encodeStrict\<close>: the path of the first offending node is the stack \<open>segments\<close> at the throw. An
  object's properties are encoded in the order of their sorted keys.
\<close>

fun encode_elems :: "segment list \<Rightarrow> nat \<Rightarrow> (segment list \<Rightarrow> canonical_error + string) list
    \<Rightarrow> canonical_error + string list" where
  "encode_elems segs i [] = Inr []"
| "encode_elems segs i (e # es) =
     bindE (e (segs @ [SIndex i])) (\<lambda>t. bindE (encode_elems segs (Suc i) es) (\<lambda>ts. Inr (t # ts)))"

definition encode_prop :: "segment list \<Rightarrow> string \<times> (segment list \<Rightarrow> canonical_error + string)
    \<Rightarrow> canonical_error + string" where
  "encode_prop segs p =
     bindE (snd p (segs @ [SKey (fst p)])) (\<lambda>t. Inr (json_string (fst p) @ CHR '':'' # t))"

primrec encodeStrict :: "jsval \<Rightarrow> segment list \<Rightarrow> canonical_error + string" where
  "encodeStrict JUndefined = (\<lambda>segs. Inl (Canonical_error segs V_undefined))"
| "encodeStrict JNull = (\<lambda>segs. Inr ''null'')"
| "encodeStrict (JBool b) = (\<lambda>segs. Inr (if b then ''true'' else ''false''))"
| "encodeStrict (JInt i) = (\<lambda>segs. Inr (int_text i))"
| "encodeStrict JNonFinite = (\<lambda>segs. Inl (Canonical_error segs V_non_finite_number))"
| "encodeStrict (JStr s) = (\<lambda>segs. Inr (json_string s))"
| "encodeStrict JFunction = (\<lambda>segs. Inl (Canonical_error segs V_function))"
| "encodeStrict JSymbol = (\<lambda>segs. Inl (Canonical_error segs V_symbol))"
| "encodeStrict JBigInt = (\<lambda>segs. Inl (Canonical_error segs V_bigint))"
| "encodeStrict JHole = (\<lambda>segs. Inl (Canonical_error segs V_array_hole))"
| "encodeStrict JBack = (\<lambda>segs. Inl (Canonical_error segs V_cycle))"
| "encodeStrict (JExotic own j) = (\<lambda>segs. Inl (Canonical_error segs V_non_plain_object))"
| "encodeStrict (JArr xs) = (\<lambda>segs.
     bindE (encode_elems segs 0 (map encodeStrict xs)) (\<lambda>parts. Inr (CHR ''['' # comma_join parts @ '']'')))"
| "encodeStrict (JObj ps) = (\<lambda>segs.
     bindE (mapE (encode_prop segs) (sort_key fst (map (map_prod id encodeStrict) ps)))
       (\<lambda>parts. Inr (CHR ''{'' # comma_join parts @ ''}'')))"

section \<open>The encoder before the strict one\<close>

datatype legacy_result = Text string | No_text | Throws

definition legacy_join_text :: "legacy_result \<Rightarrow> string" where
  "legacy_join_text r = (case r of Text t \<Rightarrow> t | No_text \<Rightarrow> [] | Throws \<Rightarrow> [])"

definition legacy_template_text :: "legacy_result \<Rightarrow> string" where
  "legacy_template_text r = (case r of Text t \<Rightarrow> t | No_text \<Rightarrow> ''undefined'' | Throws \<Rightarrow> [])"

definition legacy_array :: "legacy_result list \<Rightarrow> legacy_result" where
  "legacy_array rs = (if Throws \<in> set rs then Throws
     else Text (CHR ''['' # comma_join (map legacy_join_text rs) @ '']''))"

definition legacy_object :: "(string \<times> legacy_result) list \<Rightarrow> legacy_result" where
  "legacy_object ps = (if Throws \<in> snd ` set ps then Throws
     else Text (CHR ''{'' # comma_join (map (\<lambda>p. json_string (fst p) @ CHR '':'' # legacy_template_text (snd p))
       (sort_key fst ps)) @ ''}''))"

primrec encodeLegacy :: "jsval \<Rightarrow> legacy_result" where
  "encodeLegacy JUndefined = No_text"
| "encodeLegacy JNull = Text ''null''"
| "encodeLegacy (JBool b) = Text (if b then ''true'' else ''false'')"
| "encodeLegacy (JInt i) = Text (int_text i)"
| "encodeLegacy JNonFinite = Text ''null''"
| "encodeLegacy (JStr s) = Text (json_string s)"
| "encodeLegacy JFunction = No_text"
| "encodeLegacy JSymbol = No_text"
| "encodeLegacy JBigInt = Throws"
| "encodeLegacy JHole = No_text"
| "encodeLegacy JBack = Throws"
| "encodeLegacy (JExotic own j) = legacy_object (map (map_prod id encodeLegacy) own)"
| "encodeLegacy (JArr xs) = legacy_array (map encodeLegacy xs)"
| "encodeLegacy (JObj ps) = legacy_object (map (map_prod id encodeLegacy) ps)"

definition topLevelViolation :: "jsval \<Rightarrow> violation" where
  "topLevelViolation v = (case v of JFunction \<Rightarrow> V_function | JSymbol \<Rightarrow> V_symbol | _ \<Rightarrow> V_undefined)"

definition canonicalJson :: "bool \<Rightarrow> jsval \<Rightarrow> canonical_error + string" where
  "canonicalJson strict v = (if \<not> strict then
      (case encodeLegacy v of Text t \<Rightarrow> Inr t
       | No_text \<Rightarrow> Inl (Canonical_error [] (topLevelViolation v))
       | Throws \<Rightarrow> Inl Native_error)
    else encodeStrict v [])"

section \<open>The round trip through a jsonb column\<close>

text \<open>
  \<open>JSON.parse (JSON.stringify v)\<close>: \<open>None\<close> when stringify throws (BigInt, cycle), \<open>Some None\<close> when it
  returns undefined, so that an undefined property is dropped and an undefined element becomes null.
\<close>

definition persist_elems :: "jsval option option list \<Rightarrow> jsval option option" where
  "persist_elems rs = (if None \<in> set rs then None
     else Some (Some (JArr (map (\<lambda>r. case r of Some (Some v) \<Rightarrow> v | _ \<Rightarrow> JNull) rs))))"

definition kept_prop :: "string \<times> jsval option option \<Rightarrow> (string \<times> jsval) option" where
  "kept_prop p = (case snd p of Some (Some v) \<Rightarrow> Some (fst p, v) | _ \<Rightarrow> None)"

definition persist_props :: "(string \<times> jsval option option) list \<Rightarrow> jsval option option" where
  "persist_props ps = (if None \<in> snd ` set ps then None
     else Some (Some (JObj (List.map_filter kept_prop ps))))"

primrec persist :: "jsval \<Rightarrow> jsval option option" where
  "persist JUndefined = Some None"
| "persist JNull = Some (Some JNull)"
| "persist (JBool b) = Some (Some (JBool b))"
| "persist (JInt i) = Some (Some (JInt i))"
| "persist JNonFinite = Some (Some JNull)"
| "persist (JStr s) = Some (Some (JStr s))"
| "persist JFunction = Some None"
| "persist JSymbol = Some None"
| "persist JBigInt = None"
| "persist JHole = Some None"
| "persist JBack = None"
| "persist (JExotic own j) = persist j"
| "persist (JArr xs) = persist_elems (map persist xs)"
| "persist (JObj ps) = persist_props (map (map_prod id persist) ps)"

definition first_some :: "'a option list \<Rightarrow> 'a option" where
  "first_some xs = (case filter (\<lambda>x. x \<noteq> None) xs of [] \<Rightarrow> None | x # _ \<Rightarrow> x)"

text \<open>
  The \<open>children\<close> of a sparse array keep its holes (\<open>value.map\<close>), and destructuring a hole in the
  \<open>for ... of\<close> loop throws a TypeError of its own: a hole met before the offending child ends the
  search with a native error.
\<close>

primrec locateUnserializable :: "jsval \<Rightarrow> segment list \<Rightarrow> canonical_error option" where
  "locateUnserializable JUndefined = (\<lambda>segs. None)"
| "locateUnserializable JNull = (\<lambda>segs. None)"
| "locateUnserializable (JBool b) = (\<lambda>segs. None)"
| "locateUnserializable (JInt i) = (\<lambda>segs. None)"
| "locateUnserializable JNonFinite = (\<lambda>segs. None)"
| "locateUnserializable (JStr s) = (\<lambda>segs. None)"
| "locateUnserializable JFunction = (\<lambda>segs. None)"
| "locateUnserializable JSymbol = (\<lambda>segs. None)"
| "locateUnserializable JBigInt = (\<lambda>segs. Some (Canonical_error segs V_bigint))"
| "locateUnserializable JHole = (\<lambda>segs. Some Native_error)"
| "locateUnserializable JBack = (\<lambda>segs. Some (Canonical_error segs V_cycle))"
| "locateUnserializable (JExotic own j) = (\<lambda>segs.
     first_some (map (\<lambda>p. snd p (segs @ [SKey (fst p)])) (map (map_prod id locateUnserializable) own)))"
| "locateUnserializable (JArr xs) = (\<lambda>segs.
     first_some (map (\<lambda>(i, l). l (segs @ [SIndex i])) (enumerate 0 (map locateUnserializable xs))))"
| "locateUnserializable (JObj ps) = (\<lambda>segs.
     first_some (map (\<lambda>p. snd p (segs @ [SKey (fst p)])) (map (map_prod id locateUnserializable) ps)))"

definition toPersistedJson :: "jsval \<Rightarrow> canonical_error + jsval" where
  "toPersistedJson v = (case persist v of
       None \<Rightarrow> Inl (case locateUnserializable v [] of Some e \<Rightarrow> e | None \<Rightarrow> Native_error)
     | Some None \<Rightarrow> Inl (Canonical_error [] (topLevelViolation v))
     | Some (Some w) \<Rightarrow> Inr w)"

datatype hash_mode = Log_violation | Throw_violation

text \<open>\<open>hashPolicy.report\<close> only logs, so the policy is its mode.\<close>

definition canonicalJsonForHash :: "hash_mode \<Rightarrow> jsval \<Rightarrow> canonical_error + string" where
  "canonicalJsonForHash mode v = (case canonicalJson True v of
       Inr t \<Rightarrow> Inr t
     | Inl e \<Rightarrow> (if mode = Throw_violation then Inl e else bindE (toPersistedJson v) (canonicalJson True)))"

section \<open>Plain JSON values and their normal form\<close>

primrec plain :: "jsval \<Rightarrow> bool" where
  "plain JUndefined = False"
| "plain JNull = True"
| "plain (JBool b) = True"
| "plain (JInt i) = True"
| "plain JNonFinite = False"
| "plain (JStr s) = True"
| "plain JFunction = False"
| "plain JSymbol = False"
| "plain JBigInt = False"
| "plain JHole = False"
| "plain JBack = False"
| "plain (JExotic own j) = False"
| "plain (JArr xs) = list_all id (map plain xs)"
| "plain (JObj ps) = (list_all snd (map (map_prod id plain) ps) \<and> distinct (map fst ps))"

text \<open>The canonical text of a plain value, and the value with every object's keys sorted.\<close>

definition prop_text :: "string \<times> string \<Rightarrow> string" where
  "prop_text p = json_string (fst p) @ CHR '':'' # snd p"

primrec canon :: "jsval \<Rightarrow> string" where
  "canon JUndefined = []"
| "canon JNull = ''null''"
| "canon (JBool b) = (if b then ''true'' else ''false'')"
| "canon (JInt i) = int_text i"
| "canon JNonFinite = []"
| "canon (JStr s) = json_string s"
| "canon JFunction = []"
| "canon JSymbol = []"
| "canon JBigInt = []"
| "canon JHole = []"
| "canon JBack = []"
| "canon (JExotic own j) = []"
| "canon (JArr xs) = CHR ''['' # comma_join (map canon xs) @ '']''"
| "canon (JObj ps) = CHR ''{'' # comma_join (map prop_text (sort_key fst (map (map_prod id canon) ps))) @ ''}''"

primrec norm :: "jsval \<Rightarrow> jsval" where
  "norm JUndefined = JUndefined"
| "norm JNull = JNull"
| "norm (JBool b) = JBool b"
| "norm (JInt i) = JInt i"
| "norm JNonFinite = JNonFinite"
| "norm (JStr s) = JStr s"
| "norm JFunction = JFunction"
| "norm JSymbol = JSymbol"
| "norm JBigInt = JBigInt"
| "norm JHole = JHole"
| "norm JBack = JBack"
| "norm (JExotic own j) = JExotic own j"
| "norm (JArr xs) = JArr (map norm xs)"
| "norm (JObj ps) = JObj (sort_key fst (map (map_prod id norm) ps))"

lemma jsval_tree_induct [case_names Leaf Arr Obj Exotic]:
  assumes leaf: "\<And>v. (\<forall>xs. v \<noteq> JArr xs) \<Longrightarrow> (\<forall>ps. v \<noteq> JObj ps) \<Longrightarrow> (\<forall>own j. v \<noteq> JExotic own j) \<Longrightarrow> P v"
    and arr: "\<And>xs. (\<And>x. x \<in> set xs \<Longrightarrow> P x) \<Longrightarrow> P (JArr xs)"
    and obj: "\<And>ps. (\<And>k x. (k, x) \<in> set ps \<Longrightarrow> P x) \<Longrightarrow> P (JObj ps)"
    and exotic: "\<And>own j. (\<And>k x. (k, x) \<in> set own \<Longrightarrow> P x) \<Longrightarrow> P j \<Longrightarrow> P (JExotic own j)"
  shows "P v"
proof (induction v)
  case (JExotic own j)
  then show ?case by (intro exotic) (auto intro: snds.intros)
next
  case (JArr xs)
  then show ?case by (intro arr) auto
next
  case (JObj ps)
  then show ?case by (intro obj) (auto intro: snds.intros)
qed (auto intro!: leaf)

lemma insort_key_map_prod:
  "insort_key fst (map_prod id g x) (map (map_prod id g) xs) = map (map_prod id g) (insort_key fst x xs)"
  by (induction xs) auto

lemma sort_key_map_prod:
  "sort_key fst (map (map_prod id g) xs) = map (map_prod id g) (sort_key fst xs)"
  by (induction xs) (simp_all add: insort_key_map_prod del: id_apply)

lemma sort_key_map_prod_sort:
  "sort_key fst (map (map_prod id g) (sort_key fst xs)) = sort_key fst (map (map_prod id g) xs)"
  by (simp add: sort_key_map_prod sort_key_id_if_sorted del: id_apply)

lemma map_fst_map_prod [simp]: "map fst (map (map_prod id g) xs) = map fst xs"
  by (simp add: comp_def)

lemma canon_norm: "canon (norm v) = canon v"
proof (induction v rule: jsval_tree_induct)
  case (Leaf v)
  then show ?case by (cases v) auto
next
  case (Arr xs)
  then show ?case by (simp add: comp_def cong: map_cong)
next
  case (Obj ps)
  have "map (map_prod id canon) (map (map_prod id norm) ps) = map (map_prod id canon) ps"
    using Obj by (auto simp: map_prod_def)
  then show ?case by (simp add: sort_key_map_prod_sort del: map_map)
next
  case (Exotic own j)
  then show ?case by simp
qed

lemma encode_elems_plain:
  "(\<And>x segs. x \<in> set xs \<Longrightarrow> encodeStrict x segs = Inr (canon x)) \<Longrightarrow>
   encode_elems segs i (map encodeStrict xs) = Inr (map canon xs)"
  by (induction xs arbitrary: i) auto

lemma encode_props_plain:
  assumes "\<And>k x segs. (k, x) \<in> set ps \<Longrightarrow> encodeStrict x segs = Inr (canon x)"
  shows "mapE (encode_prop segs) (map (map_prod id encodeStrict) ps)
    = Inr (map prop_text (map (map_prod id canon) ps))"
  using assms by (induction ps) (fastforce simp: encode_prop_def prop_text_def)+

lemma encodeStrict_plain: "plain v \<Longrightarrow> encodeStrict v segs = Inr (canon v)"
proof (induction v arbitrary: segs rule: jsval_tree_induct)
  case (Leaf v)
  then show ?case by (cases v) auto
next
  case (Arr xs)
  then show ?case by (simp add: list_all_iff encode_elems_plain)
next
  case (Obj ps)
  have "encodeStrict x segs' = Inr (canon x)" if "(k, x) \<in> set (sort_key fst ps)" for k x segs'
    using that Obj by (force simp: list_all_iff)
  from encode_props_plain [of "sort_key fst ps", OF this] show ?case
    by (simp add: sort_key_map_prod)
qed auto

section \<open>The canonical text determines the value\<close>

text \<open>\<open>unescape\<close> reads back one escaped character, so escapes are uniquely decodable.\<close>

definition hex_value :: "char \<Rightarrow> nat" where
  "hex_value c = (if is_digit c then of_char c - 48 else of_char c - 87)"

fun unescape :: "string \<Rightarrow> (char \<times> string) option" where
  "unescape [] = None"
| "unescape (c # r) = (if c \<noteq> backslash then Some (c, r) else
     (case r of [] \<Rightarrow> None
      | d # r' \<Rightarrow> if d = CHR ''b'' then Some (char_of (8::nat), r')
          else if d = CHR ''t'' then Some (char_of (9::nat), r')
          else if d = CHR ''n'' then Some (char_of (10::nat), r')
          else if d = CHR ''f'' then Some (char_of (12::nat), r')
          else if d = CHR ''r'' then Some (char_of (13::nat), r')
          else if d = CHR ''u'' then
            Some (char_of (16 * hex_value (r' ! 2) + hex_value (r' ! 3)), drop 4 r')
          else Some (d, r')))"

lemma hex_value_digit: "d < 16 \<Longrightarrow> hex_value (hex_digit d) = d"
  by (auto simp: hex_value_def hex_digit_def char_class_defs)

lemma of_char_lt: "(of_char c :: nat) < 256"
  by (metis nat_of_char_less_256)

lemma char_of_nat_eq: "(of_char c :: nat) = n \<Longrightarrow> c = char_of n"
  by (metis char_of_char)

lemma unescape_esc_char: "unescape (esc_char c @ r) = Some (c, r)"
proof -
  define n where "n = (of_char c :: nat)"
  then have c: "c = char_of n" and n: "of_char c = n" by simp_all
  show ?thesis
  proof (cases "n < 32 \<and> n \<notin> {8, 9, 10, 12, 13}")
    case True
    then have h: "hex_value (hex_digit (n div 16)) = n div 16" "hex_value (hex_digit (n mod 16)) = n mod 16"
      by (auto intro!: hex_value_digit)
    have e: "esc_char c = [backslash, CHR ''u'', CHR ''0'', CHR ''0'',
        hex_digit (n div 16), hex_digit (n mod 16)]"
      using True n by (auto simp: esc_char_def Let_def)
    have "unescape (esc_char c @ r)
        = Some (char_of (16 * hex_value (hex_digit (n div 16)) + hex_value (hex_digit (n mod 16))), r)"
      unfolding e by simp
    also have "\<dots> = Some (char_of n, r)" unfolding h by (simp only: mult_div_mod_eq)
    also have "\<dots> = Some (c, r)" by (simp only: c [symmetric])
    finally show ?thesis .
  next
    case False
    have q: "quote_char = char_of (34::nat)" "backslash = char_of (92::nat)"
      by (simp_all add: quote_char_def backslash_def char_of_def bit_0)
    consider "n \<in> {8, 9, 10, 12, 13}" | "n \<in> {34, 92}" | "n \<notin> {8, 9, 10, 12, 13, 34, 92}" by blast
    then show ?thesis
    proof cases
      case 1
      with c n show ?thesis by (elim insertE emptyE) (simp_all add: esc_char_def Let_def)
    next
      case 2
      with c q have "c = quote_char \<or> c = backslash" by auto
      then show ?thesis by (auto simp: esc_char_def Let_def quote_char_def backslash_def)
    next
      case 3
      with False n have "esc_char c = [c]" by (auto simp: esc_char_def Let_def)
      moreover have "c \<noteq> backslash" using 3 n by (auto simp: backslash_def)
      ultimately show ?thesis by simp
    qed
  qed
qed

lemma esc_char_head: "esc_char c \<noteq> [] \<and> hd (esc_char c) \<noteq> quote_char"
  by (auto simp: esc_char_def Let_def backslash_def quote_char_def)

lemma esc_char_unique: "esc_char c @ r = esc_char d @ s \<Longrightarrow> c = d \<and> r = s"
  by (metis option.inject prod.inject unescape_esc_char)

lemma esc_quote_ne [simp]: "quote_char # r \<noteq> esc_char c @ s"
  by (metis esc_char_head hd_append2 list.sel(1))

lemma esc_chars_unique:
  "concat (map esc_char a) @ quote_char # r = concat (map esc_char b) @ quote_char # s \<Longrightarrow> a = b \<and> r = s"
proof (induction a arbitrary: b)
  case Nil
  then show ?case by (cases b) auto
next
  case (Cons x xs)
  show ?case
  proof (cases b)
    case Nil
    with Cons.prems have "esc_char x @ (concat (map esc_char xs) @ quote_char # r) = quote_char # s" by simp
    then show ?thesis by (metis esc_quote_ne)
  next
    case (Cons y ys)
    with Cons.prems have "esc_char x @ concat (map esc_char xs) @ quote_char # r
        = esc_char y @ concat (map esc_char ys) @ quote_char # s" by simp
    from esc_char_unique [OF this] Cons.IH Cons show ?thesis by auto
  qed
qed

lemma json_string_unique: "json_string a @ r = json_string b @ s \<longleftrightarrow> a = b \<and> r = s"
  by (auto simp: json_string_def dest: esc_chars_unique)

text \<open>A numeral ends where the text goes on with something that is not a digit.\<close>

definition stops :: "string \<Rightarrow> bool" where
  "stops r \<longleftrightarrow> (case r of [] \<Rightarrow> True | c # _ \<Rightarrow> \<not> is_digit c)"

lemma digits_unique:
  assumes "list_all is_digit a" "list_all is_digit b" "stops r" "stops s" "a @ r = b @ s"
  shows "a = b \<and> r = s"
proof -
  have t: "takeWhile is_digit (x @ y) = x" if "list_all is_digit x" "stops y" for x y
    using that by (cases y) (auto simp: stops_def list_all_iff takeWhile_append2 takeWhile_append1)
  from assms t have "a = b" by metis
  with assms(5) show ?thesis by simp
qed

lemma int_text_unique:
  assumes "stops r" "stops s" "int_text i @ r = int_text j @ s"
  shows "i = j \<and> r = s"
proof -
  have dash: "\<not> is_digit (CHR ''-'')" by (simp add: char_class_defs)
  have head: "nat_text m @ x \<noteq> CHR ''-'' # y" for m x y
    using nat_text_digits [of m] nat_text_nonempty [of m] dash by (cases "nat_text m") auto
  have eq: "m = n \<and> r = s" if "nat_text m @ r = nat_text n @ s" for m n
    using digits_unique [OF nat_text_digits nat_text_digits assms(1,2) that] by (simp add: nat_text_inj)
  show ?thesis
  proof (cases "i < 0")
    case True
    with assms(3) have "int_text j @ s = CHR ''-'' # nat_text (nat (- i)) @ r"
      by (simp add: int_text_def)
    moreover from this head have "j < 0" by (auto simp: int_text_def split: if_splits)
    ultimately have "nat_text (nat (- i)) @ r = nat_text (nat (- j)) @ s" by (simp add: int_text_def)
    from eq [OF this] True \<open>j < 0\<close> show ?thesis by auto
  next
    case False
    with assms(3) have t: "int_text j @ s = nat_text (nat i) @ r" by (simp add: int_text_def)
    with head have "\<not> j < 0" by (auto simp: int_text_def split: if_splits dest: sym)
    with t have "nat_text (nat i) @ r = nat_text (nat j) @ s" by (simp add: int_text_def)
    from eq [OF this] False \<open>\<not> j < 0\<close> show ?thesis by auto
  qed
qed

lemma stops_simps [simp]:
  "stops []" "stops (CHR '','' # r)" "stops (CHR '']'' # r)" "stops (CHR ''}'' # r)"
  by (auto simp: stops_def char_class_defs)

lemma comma_join_Cons: "comma_join (x # xs) = (if xs = [] then x else x @ CHR '','' # comma_join xs)"
  by (cases xs) auto

lemma comma_join_unique:
  assumes uniq: "\<And>x y r s. x \<in> set xs \<Longrightarrow> y \<in> set ys \<Longrightarrow> stops r \<Longrightarrow> stops s
      \<Longrightarrow> f x @ r = f y @ s \<Longrightarrow> x = y \<and> r = s"
    and head: "\<And>x r s. x \<in> set xs \<union> set ys \<Longrightarrow> z # r \<noteq> f x @ s"
    and z: "stops [z]" "z \<noteq> CHR '',''"
    and eq: "comma_join (map f xs) @ z # r = comma_join (map f ys) @ z # s"
  shows "xs = ys \<and> r = s"
  using uniq head eq
proof (induction xs arbitrary: ys)
  case Nil
  then show ?case by (cases ys) (auto simp: comma_join_Cons split: if_splits)
next
  case (Cons x xs)
  have st: "stops (z # r')" for r' using z by (simp add: stops_def)
  show ?case
  proof (cases ys)
    case Nil
    with Cons.prems(3) have "\<exists>t. z # s = f x @ t" by (auto simp: comma_join_Cons split: if_splits intro: sym)
    with Cons.prems(2) show ?thesis by auto
  next
    case (Cons y ys')
    define rx where "rx = (if xs = [] then z # r else CHR '','' # comma_join (map f xs) @ z # r)"
    define ry where "ry = (if ys' = [] then z # s else CHR '','' # comma_join (map f ys') @ z # s)"
    from Cons.prems(3) Cons have "f x @ rx = f y @ ry"
      by (auto simp: comma_join_Cons rx_def ry_def)
    moreover have "stops rx" "stops ry" using st by (auto simp: rx_def ry_def)
    ultimately have xy: "x = y" "rx = ry" using Cons.prems(1) Cons by auto
    show ?thesis
    proof (cases "xs = [] \<or> ys' = []")
      case True
      with xy z(2) Cons show ?thesis by (auto simp: rx_def ry_def split: if_splits)
    next
      case False
      with xy have "comma_join (map f xs) @ z # r = comma_join (map f ys') @ z # s"
        by (simp add: rx_def ry_def)
      from Cons.IH [OF _ _ this] Cons.prems(1,2) Cons xy show ?thesis by auto
    qed
  qed
qed

text \<open>Values in normal form: every object's keys are sorted.\<close>

primrec sortedv :: "jsval \<Rightarrow> bool" where
  "sortedv JUndefined = True"
| "sortedv JNull = True"
| "sortedv (JBool b) = True"
| "sortedv (JInt i) = True"
| "sortedv JNonFinite = True"
| "sortedv (JStr s) = True"
| "sortedv JFunction = True"
| "sortedv JSymbol = True"
| "sortedv JBigInt = True"
| "sortedv JHole = True"
| "sortedv JBack = True"
| "sortedv (JExotic own j) = True"
| "sortedv (JArr xs) = list_all id (map sortedv xs)"
| "sortedv (JObj ps) = (list_all snd (map (map_prod id sortedv) ps) \<and> sorted (map fst ps))"

lemma sorted_map_fst_sort_key: "sorted (map fst (sort_key fst ps))"
  by (rule sorted_sort_key)

lemma sortedv_norm: "sortedv (norm v)"
proof (induction v rule: jsval_tree_induct)
  case (Leaf v)
  then show ?case by (cases v) auto
next
  case (Obj ps)
  have "\<forall>p \<in> set ps. sortedv (norm (snd p))" using Obj by force
  then show ?case by (auto simp: list_all_iff sorted_map_fst_sort_key)
qed (auto simp: list_all_iff)

lemma plain_norm: "plain v \<Longrightarrow> plain (norm v)"
proof (induction v rule: jsval_tree_induct)
  case (Leaf v)
  then show ?case by (cases v) auto
next
  case (Obj ps)
  have "\<forall>p \<in> set ps. plain (norm (snd p))" using Obj by (force simp: list_all_iff)
  moreover have "distinct (map fst (sort_key fst (map (map_prod id norm) ps)))"
  proof -
    have "mset (map fst (sort_key fst (map (map_prod id norm) ps))) = mset (map fst ps)"
      by (simp add: image_mset.compositionality comp_def)
    then show ?thesis using Obj.prems by (metis plain.simps(14) mset_eq_imp_distinct_iff)
  qed
  ultimately show ?case by (auto simp: list_all_iff)
qed (auto simp: list_all_iff)

text \<open>A plain value's text is not empty, and its first character tells what kind of value it is.\<close>

definition head_kind :: "char \<Rightarrow> nat" where
  "head_kind c = (if c = CHR ''n'' then 0 else if c = CHR ''t'' then 1 else if c = CHR ''f'' then 2
     else if c = quote_char then 3 else if c = CHR ''['' then 4 else if c = CHR ''{'' then 5
     else if is_digit c \<or> c = CHR ''-'' then 6 else 7)"

fun kind_of :: "jsval \<Rightarrow> nat" where
  "kind_of JNull = 0"
| "kind_of (JBool b) = (if b then 1 else 2)"
| "kind_of (JStr s) = 3"
| "kind_of (JArr xs) = 4"
| "kind_of (JObj ps) = 5"
| "kind_of (JInt i) = 6"
| "kind_of v = 8"

lemma int_text_head: "\<exists>c cs. int_text i = c # cs \<and> head_kind c = 6"
proof (cases "i < 0")
  case True
  then show ?thesis by (simp add: int_text_def head_kind_def quote_char_def)
next
  case False
  obtain c cs where t: "nat_text (nat i) = c # cs" by (cases "nat_text (nat i)") auto
  with nat_text_digits [of "nat i"] have d: "is_digit c" by simp
  then have "head_kind c = 6" by (auto simp: head_kind_def quote_char_def char_class_defs)
  with False t show ?thesis by (simp add: int_text_def)
qed

text \<open>JSON.stringify of a plain value.\<close>

primrec json_text :: "jsval \<Rightarrow> string" where
  "json_text JUndefined = []"
| "json_text JNull = ''null''"
| "json_text (JBool b) = (if b then ''true'' else ''false'')"
| "json_text (JInt i) = int_text i"
| "json_text JNonFinite = ''null''"
| "json_text (JStr s) = json_string s"
| "json_text JFunction = []"
| "json_text JSymbol = []"
| "json_text JBigInt = []"
| "json_text JHole = ''null''"
| "json_text JBack = []"
| "json_text (JExotic own j) = json_text j"
| "json_text (JArr xs) = CHR ''['' # comma_join (map json_text xs) @ '']''"
| "json_text (JObj ps) = CHR ''{'' # comma_join (map prop_text (map (map_prod id json_text) ps)) @ ''}''"

lemma json_text_head: "plain v \<Longrightarrow> \<exists>c cs. json_text v = c # cs \<and> head_kind c = kind_of v"
  using int_text_head by (cases v) (auto simp: head_kind_def json_string_def quote_char_def)

lemma json_text_kind: "plain v \<Longrightarrow> plain w \<Longrightarrow> json_text v @ r = json_text w @ s \<Longrightarrow> kind_of v = kind_of w"
  using json_text_head [of v] json_text_head [of w] by auto

lemma kind_of_ne: "kind_of v \<noteq> 7"
  by (cases v) auto

lemma head_kind_close: "head_kind (CHR '']'') = 7"
  by (simp add: head_kind_def quote_char_def char_class_defs)

lemma json_text_not_close: "plain v \<Longrightarrow> CHR '']'' # r \<noteq> json_text v @ s"
  using json_text_head [of v] kind_of_ne [of v] head_kind_close by auto

lemma json_text_obj: "json_text (JObj ps) = CHR ''{'' # comma_join (map (\<lambda>p. prop_text (map_prod id json_text p)) ps) @ ''}''"
  by (simp add: comp_def)

lemma json_text_unique:
  assumes "plain v" "plain w" "stops r" "stops s" "json_text v @ r = json_text w @ s"
  shows "v = w \<and> r = s"
  using assms
proof (induction v arbitrary: w r s rule: jsval_tree_induct)
  case (Leaf v)
  note k = json_text_kind [OF Leaf.prems(1,2,5)]
  show ?case
    using Leaf k
    by (cases v; cases w)
      (auto simp: json_string_unique dest: int_text_unique split: if_splits)
next
  case (Arr xs)
  then obtain ys where w: "w = JArr ys"
    using json_text_kind [OF Arr.prems(1,2,5)] by (cases w) (auto split: if_splits)
  have "xs = ys \<and> r = s"
  proof (rule comma_join_unique [where f = json_text and z = "CHR '']''"])
    show "comma_join (map json_text xs) @ CHR '']'' # r = comma_join (map json_text ys) @ CHR '']'' # s"
      using Arr.prems(5) w by simp
  next
    fix x y r s
    assume "x \<in> set xs" "y \<in> set ys" "stops r" "stops s" "json_text x @ r = json_text y @ s"
    with Arr w show "x = y \<and> r = s" by (auto simp: list_all_iff)
  next
    fix x r s
    assume "x \<in> set xs \<union> set ys"
    with Arr.prems w have "plain x" by (auto simp: list_all_iff)
    then show "CHR '']'' # r \<noteq> json_text x @ s" by (rule json_text_not_close)
  qed auto
  with w show ?case by simp
next
  case (Obj ps)
  then obtain qs where w: "w = JObj qs"
    using json_text_kind [OF Obj.prems(1,2,5)] by (cases w) (auto split: if_splits)
  let ?f = "\<lambda>p. prop_text (map_prod id json_text p)"
  have "ps = qs \<and> r = s"
  proof (rule comma_join_unique [where f = ?f and z = "CHR ''}''"])
    show "comma_join (map ?f ps) @ CHR ''}'' # r = comma_join (map ?f qs) @ CHR ''}'' # s"
      using Obj.prems w by (simp add: json_text_obj del: json_text.simps)
  next
    fix p q r s
    assume pq: "p \<in> set ps" "q \<in> set qs" "stops r" "stops s" "?f p @ r = ?f q @ s"
    then have "fst p = fst q" "json_text (snd p) @ r = json_text (snd q) @ s"
      by (auto simp: prop_text_def json_string_unique)
    moreover have "plain (snd p)" "plain (snd q)"
      using Obj.prems w pq by (auto simp: list_all_iff)
    moreover have "(fst p, snd p) \<in> set ps" using pq by simp
    ultimately show "p = q \<and> r = s" using Obj.IH pq by (metis prod.collapse)
  next
    fix p r s
    show "CHR ''}'' # r \<noteq> ?f p @ s" by (simp add: prop_text_def json_string_def quote_char_def)
  qed auto
  with w show ?case by simp
next
  case (Exotic own j)
  then show ?case by simp
qed

lemma json_text_inj: "plain v \<Longrightarrow> plain w \<Longrightarrow> json_text v = json_text w \<longleftrightarrow> v = w"
  using json_text_unique [of v w "[]" "[]"] by auto

text \<open>On values in normal form the canonical text is the plain one.\<close>

lemma canon_json_text: "plain v \<Longrightarrow> sortedv v \<Longrightarrow> canon v = json_text v"
proof (induction v rule: jsval_tree_induct)
  case (Leaf v)
  then show ?case by (cases v) auto
next
  case (Arr xs)
  then have eq: "map canon xs = map json_text xs" by (auto simp: list_all_iff)
  show ?case by (simp only: canon.simps json_text.simps eq)
next
  case (Obj ps)
  then have "\<forall>p \<in> set ps. canon (snd p) = json_text (snd p)" by (fastforce simp: list_all_iff)
  then have eq: "map (map_prod id canon) ps = map (map_prod id json_text) ps" by auto
  have sorted: "sort_key fst (map (map_prod id json_text) ps) = map (map_prod id json_text) ps"
    using Obj.prems by (intro sort_key_id_if_sorted) (simp add: comp_def)
  show ?case by (simp only: canon.simps json_text.simps eq sorted)
qed simp

lemma canon_eq_iff_norm:
  assumes "plain v" "plain w"
  shows "canon v = canon w \<longleftrightarrow> norm v = norm w"
proof
  assume "canon v = canon w"
  then have "canon (norm v) = canon (norm w)" by (simp only: canon_norm)
  then have "json_text (norm v) = json_text (norm w)"
    using assms by (simp add: canon_json_text plain_norm sortedv_norm)
  with assms show "norm v = norm w" by (simp add: json_text_inj plain_norm)
next
  assume "norm v = norm w"
  then have "canon (norm v) = canon (norm w)" by (rule arg_cong)
  then show "canon v = canon w" by (simp only: canon_norm)
qed

section \<open>What each encoder accepts\<close>

text \<open>A JavaScript object never has the same key twice.\<close>

primrec keys_ok :: "jsval \<Rightarrow> bool" where
  "keys_ok JUndefined = True"
| "keys_ok JNull = True"
| "keys_ok (JBool b) = True"
| "keys_ok (JInt i) = True"
| "keys_ok JNonFinite = True"
| "keys_ok (JStr s) = True"
| "keys_ok JFunction = True"
| "keys_ok JSymbol = True"
| "keys_ok JBigInt = True"
| "keys_ok JHole = True"
| "keys_ok JBack = True"
| "keys_ok (JExotic own j) = (list_all snd (map (map_prod id keys_ok) own) \<and> distinct (map fst own) \<and> keys_ok j)"
| "keys_ok (JArr xs) = list_all id (map keys_ok xs)"
| "keys_ok (JObj ps) = (list_all snd (map (map_prod id keys_ok) ps) \<and> distinct (map fst ps))"

lemma encode_elems_ok: "ok (encode_elems segs i es) \<Longrightarrow> e \<in> set es \<Longrightarrow> \<exists>segs'. ok (e segs')"
proof (induction es arbitrary: i)
  case Nil
  then show ?case by simp
next
  case (Cons a es)
  then have "ok (a (segs @ [SIndex i]))" "ok (encode_elems segs (Suc i) es)"
    by (cases "a (segs @ [SIndex i])"; cases "encode_elems segs (Suc i) es"; simp)+
  with Cons show ?case by auto
qed

lemma encode_prop_ok: "ok (encode_prop segs p) \<Longrightarrow> \<exists>segs'. ok (snd p segs')"
  by (cases "snd p (segs @ [SKey (fst p)])") (auto simp: encode_prop_def intro!: exI [of _ "segs @ [SKey (fst p)]"])

lemma ok_bindE: "ok (bindE m f) \<Longrightarrow> ok m"
  by (cases m) auto

lemma encodeStrict_ok_plain: "keys_ok v \<Longrightarrow> ok (encodeStrict v segs) \<Longrightarrow> plain v"
proof (induction v arbitrary: segs rule: jsval_tree_induct)
  case (Leaf v)
  then show ?case by (cases v) auto
next
  case (Arr xs)
  have "ok (encode_elems segs 0 (map encodeStrict xs))"
    using Arr.prems(2) by (simp del: encode_elems.simps) (rule ok_bindE)
  then have "\<exists>segs'. ok (encodeStrict x segs')" if "x \<in> set xs" for x
    using encode_elems_ok [of segs 0 "map encodeStrict xs" "encodeStrict x"] that by auto
  then show ?case using Arr by (auto simp: list_all_iff)
next
  case (Obj ps)
  have "ok (mapE (encode_prop segs) (sort_key fst (map (map_prod id encodeStrict) ps)))"
    using Obj.prems(2) by simp (rule ok_bindE)
  then have "\<forall>p \<in> set ps. ok (encode_prop segs (map_prod id encodeStrict p))"
    by (simp add: mapE_ok_iff)
  then have "\<forall>p \<in> set ps. \<exists>segs'. ok (encodeStrict (snd p) segs')"
    using encode_prop_ok by force
  then have "\<forall>p \<in> set ps. plain (snd p)"
    using Obj by (auto simp: list_all_iff) (metis prod.collapse snd_conv)+
  then show ?case using Obj.prems by (auto simp: list_all_iff)
next
  case (Exotic own j)
  then show ?case by simp
qed

lemma encodeStrict_iff: "keys_ok v \<Longrightarrow> encodeStrict v segs = Inr t \<longleftrightarrow> plain v \<and> t = canon v"
  using encodeStrict_ok_plain [of v segs] encodeStrict_plain [of v segs] by auto

lemma encodeLegacy_plain: "plain v \<Longrightarrow> encodeLegacy v = Text (canon v)"
proof (induction v rule: jsval_tree_induct)
  case (Leaf v)
  then show ?case by (cases v) auto
next
  case (Arr xs)
  have e: "map encodeLegacy xs = map (Text \<circ> canon) xs" using Arr by (simp add: list_all_iff)
  show ?case unfolding encodeLegacy.simps legacy_array_def e
    by (auto simp: legacy_join_text_def comp_def)
next
  case (Obj ps)
  have e: "map (map_prod id encodeLegacy) ps = map (map_prod id Text) (map (map_prod id canon) ps)"
    using Obj by (force simp: list_all_iff)
  have s: "sort_key fst (map (map_prod id Text) (map (map_prod id canon) ps))
      = map (map_prod id Text) (sort_key fst (map (map_prod id canon) ps))"
    by (rule sort_key_map_prod)
  show ?case unfolding encodeLegacy.simps legacy_object_def e s
    by (auto simp: prop_text_def [abs_def] legacy_template_text_def comp_def)
next
  case (Exotic own j)
  then show ?case by simp
qed

lemma persist_plain: "plain v \<Longrightarrow> persist v = Some (Some v)"
proof (induction v rule: jsval_tree_induct)
  case (Leaf v)
  then show ?case by (cases v) auto
next
  case (Arr xs)
  have e: "map persist xs = map (Some \<circ> Some) xs" using Arr by (simp add: list_all_iff)
  show ?case by (auto simp: persist_elems_def e comp_def)
next
  case (Obj ps)
  have e: "map (map_prod id persist) ps = map (map_prod id (Some \<circ> Some)) ps"
    using Obj by (force simp: list_all_iff)
  have "List.map_filter kept_prop
      (map (map_prod id (Some \<circ> Some)) ps) = ps"
    by (induction ps) (auto simp: List.map_filter_simps kept_prop_def)
  then show ?case unfolding persist.simps persist_props_def e by auto
next
  case (Exotic own j)
  then show ?case by simp
qed

lemma kept_prop_Some: "kept_prop p = Some q \<longleftrightarrow> (\<exists>v. snd p = Some (Some v) \<and> q = (fst p, v))"
  by (auto simp: kept_prop_def split: option.splits)

lemma set_map_filter: "set (List.map_filter f xs) = {y. \<exists>x \<in> set xs. f x = Some y}"
  by (induction xs) (auto simp: List.map_filter_simps split: option.splits)

lemma distinct_map_filter_fst:
  assumes "distinct (map fst ps)" "\<And>p q. f p = Some q \<Longrightarrow> fst q = fst p"
  shows "distinct (map fst (List.map_filter f ps))"
  using assms(1)
proof (induction ps)
  case Nil
  then show ?case by (simp add: List.map_filter_simps)
next
  case (Cons p ps)
  have "fst q \<notin> fst ` set (List.map_filter f ps)" if "f p = Some q" for q
  proof
    assume "fst q \<in> fst ` set (List.map_filter f ps)"
    then obtain x y where "x \<in> set ps" "f x = Some y" "fst y = fst q" by (auto simp: set_map_filter)
    with assms(2) that have "fst p = fst x" by metis
    with \<open>x \<in> set ps\<close> Cons.prems show False by (metis distinct.simps(2) image_eqI image_set list.simps(9))
  qed
  with Cons show ?case by (auto simp: List.map_filter_simps split: option.splits)
qed

lemma persist_is_plain: "keys_ok v \<Longrightarrow> persist v = Some (Some w) \<Longrightarrow> plain w"
proof (induction v arbitrary: w rule: jsval_tree_induct)
  case (Leaf v)
  then show ?case by (cases v) auto
next
  case (Arr xs)
  then show ?case
    by (auto simp: persist_elems_def list_all_iff split: if_splits option.splits)
next
  case (Obj ps)
  then have w: "w = JObj (List.map_filter kept_prop
      (map (map_prod id persist) ps))"
    by (auto simp: persist_props_def split: if_splits)
  have "distinct (map fst (map (map_prod id persist) ps))" using Obj.prems by simp
  then have "distinct (map fst (List.map_filter kept_prop
      (map (map_prod id persist) ps)))"
    by (rule distinct_map_filter_fst) (auto simp: kept_prop_Some)
  moreover have "plain y" if "(k, x) \<in> set ps" "persist x = Some (Some y)" for k x y
    using Obj.prems(1) that Obj.IH by (auto simp: list_all_iff)
  ultimately show ?case
    unfolding w by (auto simp: list_all_iff set_map_filter kept_prop_Some)
next
  case (Exotic own j)
  then show ?case by simp
qed

section \<open>JSON.stringify and the size of a text\<close>

text \<open>The length of a text in UTF-8.\<close>

definition utf8_length :: "string \<Rightarrow> nat" where
  "utf8_length s = sum_list (map (\<lambda>c. if (of_char c :: nat) < 128 then 1 else 2) s)"

text \<open>An upper bound of the size of a JSON text.\<close>

primrec json_bound :: "jsval \<Rightarrow> nat" where
  "json_bound JUndefined = 0"
| "json_bound JNull = 4"
| "json_bound (JBool b) = 5"
| "json_bound (JInt i) = length (int_text i)"
| "json_bound JNonFinite = 4"
| "json_bound (JStr s) = 6 * length s + 2"
| "json_bound JFunction = 0"
| "json_bound JSymbol = 0"
| "json_bound JBigInt = 0"
| "json_bound JHole = 4"
| "json_bound JBack = 0"
| "json_bound (JExotic own j) = json_bound j"
| "json_bound (JArr xs) = sum_list (map json_bound xs) + length xs + 2"
| "json_bound (JObj ps) = sum_list (map (\<lambda>p. 6 * length (fst p) + 3 + snd p) (map (map_prod id json_bound) ps)) + length ps + 2"

lemma esc_char_length: "length (esc_char c) \<le> 6"
  by (simp add: esc_char_def Let_def)

lemma json_string_length: "length (json_string s) \<le> 6 * length s + 2"
proof -
  have "length (concat (map esc_char s)) \<le> 6 * length s"
    by (induction s) (use esc_char_length in \<open>auto intro: add_le_mono\<close>)
  then show ?thesis by (simp add: json_string_def)
qed

lemma comma_join_length: "length (comma_join xs) \<le> sum_list (map length xs) + length xs"
  by (induction xs rule: comma_join.induct) auto

lemma json_text_length: "length (json_text v) \<le> json_bound v"
proof (induction v rule: jsval_tree_induct)
  case (Leaf v)
  then show ?case by (cases v) (auto intro: json_string_length [simplified])
next
  case (Arr xs)
  have "sum_list (map (length \<circ> json_text) xs) \<le> sum_list (map json_bound xs)"
    by (rule sum_list_mono) (use Arr in auto)
  then show ?case using comma_join_length [of "map json_text xs"] by simp
next
  case (Obj ps)
  have "sum_list (map (\<lambda>p. length (prop_text (map_prod id json_text p))) ps)
      \<le> sum_list (map (\<lambda>p. 6 * length (fst p) + 3 + json_bound (snd p)) ps)"
  proof (rule sum_list_mono)
    fix p assume "p \<in> set ps"
    then have "length (json_text (snd p)) \<le> json_bound (snd p)" using Obj [of "fst p" "snd p"] by simp
    then show "length (prop_text (map_prod id json_text p)) \<le> 6 * length (fst p) + 3 + json_bound (snd p)"
      using json_string_length [of "fst p"] by (simp add: prop_text_def)
  qed
  then show ?case
    using comma_join_length [of "map prop_text (map (map_prod id json_text) ps)"] by (simp add: comp_def)
qed auto

lemma utf8_length_bound: "utf8_length s \<le> 2 * length s"
  by (induction s) (simp_all add: utf8_length_def)

section \<open>Properties\<close>

lemma canonicalJson_strict_iff: "keys_ok v \<Longrightarrow> canonicalJson True v = Inr t \<longleftrightarrow> plain v \<and> t = canon v"
  by (simp add: canonicalJson_def encodeStrict_iff)

lemma plain_keys_ok: "plain v \<Longrightarrow> keys_ok v"
proof (induction v rule: jsval_tree_induct)
  case (Leaf v)
  then show ?case by (cases v) auto
next
  case (Obj ps)
  then have "\<forall>p \<in> set ps. keys_ok (snd p)" by (force simp: list_all_iff)
  with Obj.prems show ?case by (auto simp: list_all_iff)
qed (auto simp: list_all_iff)

text \<open>
  C1: two plain JSON values get the same canonical text exactly when they are the same value up to
  the order of object keys at every depth, so a contract hash identifies the content and does not
  depend on the order in which its fields were built or read back.
\<close>

theorem canonical_text_identifies_value:
  assumes "plain v" and "plain w"
  shows "canonicalJson True v = canonicalJson True w \<longleftrightarrow> norm v = norm w"
  using assms by (simp add: canonicalJson_def encodeStrict_plain canon_eq_iff_norm)

theorem canonical_text_identifies_value_witness:
  "canonicalJson True (JObj [(''b'', JInt 2), (''a'', JStr ''x'')])
     = canonicalJson True (JObj [(''a'', JStr ''x''), (''b'', JInt 2)])
   \<longleftrightarrow> norm (JObj [(''b'', JInt 2), (''a'', JStr ''x'')]) = norm (JObj [(''a'', JStr ''x''), (''b'', JInt 2)])"
  by (rule canonical_text_identifies_value) simp_all

text \<open>
  The strict encoder returns a text exactly for plain JSON values (every value with an undefined,
  a hole, a function, a symbol, a BigInt, a non-finite number, an object that is not plain or a cycle
  anywhere in it is refused), and for plain values its text is byte for byte the one of the encoder it
  replaced, so every hash already stored still verifies.
\<close>

theorem strict_accepts_plain_as_legacy:
  assumes "keys_ok v"
  shows "(ok (canonicalJson True v) \<longleftrightarrow> plain v)
    \<and> (plain v \<longrightarrow> canonicalJson False v = canonicalJson True v)"
  using canonicalJson_strict_iff [OF assms]
  by (auto simp: ok_iff canonicalJson_def encodeLegacy_plain encodeStrict_plain)

theorem strict_accepts_plain_as_legacy_witness:
  "\<not> ok (canonicalJson True (JArr [JInt 1, JHole]))
   \<and> canonicalJson False (JArr [JInt 1, JNull]) = canonicalJson True (JArr [JInt 1, JNull])"
  using strict_accepts_plain_as_legacy [of "JArr [JInt 1, JHole]"]
    strict_accepts_plain_as_legacy [of "JArr [JInt 1, JNull]"] by simp

text \<open>
  C28: under the default policy the hashed text of any value is the text of the value as the jsonb
  column stores it, and it is unchanged when the stored value is read back and hashed again; storing
  is idempotent. So a hash taken in memory verifies against the stored payload.
\<close>

theorem hash_text_survives_storage:
  assumes "keys_ok v" and "toPersistedJson v = Inr w"
  shows "canonicalJsonForHash Log_violation v = canonicalJson True w
    \<and> ok (canonicalJson True w)
    \<and> canonicalJsonForHash Log_violation w = canonicalJsonForHash Log_violation v
    \<and> toPersistedJson w = Inr w"
proof -
  from assms(2) have w: "persist v = Some (Some w)"
    by (auto simp: toPersistedJson_def split: option.splits)
  with assms(1) have pw: "plain w" by (rule persist_is_plain)
  then have cw: "canonicalJson True w = Inr (canon w)" by (simp add: canonicalJson_def encodeStrict_plain)
  show ?thesis
  proof (cases "plain v")
    case True
    with w have "w = v" by (simp add: persist_plain)
    with cw pw show ?thesis by (simp add: canonicalJsonForHash_def toPersistedJson_def persist_plain)
  next
    case False
    with canonicalJson_strict_iff [OF assms(1)] obtain e where "canonicalJson True v = Inl e"
      by (cases "canonicalJson True v") auto
    with cw pw assms(2) show ?thesis
      by (simp add: canonicalJsonForHash_def toPersistedJson_def persist_plain)
  qed
qed

theorem hash_text_survives_storage_witness:
  "canonicalJsonForHash Log_violation (JObj [(''b'', JUndefined), (''a'', JNonFinite)])
     = canonicalJson True (JObj [(''a'', JNull)])"
  using hash_text_survives_storage [of "JObj [(''b'', JUndefined), (''a'', JNonFinite)]" "JObj [(''a'', JNull)]"]
  by (simp add: toPersistedJson_def persist_props_def kept_prop_def List.map_filter_simps)

text \<open>The search for the offending node does not survive a hole before it.\<close>

lemma locate_stops_at_hole:
  "toPersistedJson (JArr [JHole, JBigInt]) = Inl Native_error
   \<and> toPersistedJson (JArr [JNull, JBigInt]) = Inl (Canonical_error [SIndex 1] V_bigint)"
  by (simp add: toPersistedJson_def persist_elems_def first_some_def enumerate_eq_zip)

end
