(* ===== verification/Task_Graph.thy ===== *)
theory Task_Graph
  imports Landa_Prelude
begin

text \<open>
  The contract between a list of tasks and the scheduler: tasks carry a key, an ordinal and the keys
  they depend on. \<open>dependency_order\<close> is the contract of any set of pending tasks (a recovery reopens
  some tasks of a run), \<open>task_graph\<close> the contract of a whole manifest.
\<close>

text \<open>
  A task can run when it has not succeeded and all its dependencies have. \<open>runs ts S S'\<close>: from the
  succeeded keys \<open>S\<close>, letting runnable tasks succeed one after the other can lead to \<open>S'\<close>.
\<close>

definition runnable :: "('t \<Rightarrow> string) \<Rightarrow> ('t \<Rightarrow> string list) \<Rightarrow> 't list \<Rightarrow> string set \<Rightarrow> 't \<Rightarrow> bool" where
  "runnable key deps ts S t \<longleftrightarrow> t \<in> set ts \<and> key t \<notin> S \<and> set (deps t) \<subseteq> S"

inductive runs :: "('t \<Rightarrow> string) \<Rightarrow> ('t \<Rightarrow> string list) \<Rightarrow> 't list \<Rightarrow> string set \<Rightarrow> string set \<Rightarrow> bool"
  for key deps ts where
  runs_refl: "runs key deps ts S S"
| runs_step: "runs key deps ts S T \<Longrightarrow> runnable key deps ts T t \<Longrightarrow> runs key deps ts S (insert (key t) T)"

lemma runs_grows: "runs key deps ts S T \<Longrightarrow> S \<subseteq> T"
  by (induction rule: runs.induct) auto

lemma runs_only_tasks: "runs key deps ts S T \<Longrightarrow> T \<subseteq> S \<union> key ` set ts"
  by (induction rule: runs.induct) (auto simp: runnable_def)

lemma runs_mono: "runs key deps ts S T \<Longrightarrow> set ts \<subseteq> set us \<Longrightarrow> runs key deps us S T"
proof (induction rule: runs.induct)
  case (runs_step S T t)
  then have "runnable key deps us T t" by (auto simp: runnable_def)
  with runs_step show ?case by (blast intro: runs.runs_step)
qed (rule runs_refl)

text \<open>
  The pending tasks of \<open>m\<close> wait only for tasks already finished or for pending tasks with a smaller
  ordinal.
\<close>

locale dependency_order =
  fixes wf :: "'m \<Rightarrow> bool" and tasks :: "'m \<Rightarrow> 't list" and finished :: "'m \<Rightarrow> string set"
    and key :: "'t \<Rightarrow> string" and ordinal :: "'t \<Rightarrow> int" and deps :: "'t \<Rightarrow> string list"
  assumes dependency_earlier_or_finished: "wf m \<Longrightarrow> t \<in> set (tasks m) \<Longrightarrow> d \<in> set (deps t)
      \<Longrightarrow> d \<in> finished m \<or> (\<exists>u \<in> set (tasks m). key u = d \<and> ordinal u < ordinal t)"
begin

lemma first_unfinished_runnable:
  assumes wf: "wf m" and sup: "finished m \<subseteq> S" and left: "\<not> key ` set (tasks m) \<subseteq> S"
  shows "\<exists>t. runnable key deps (tasks m) S t"
proof -
  let ?U = "{t \<in> set (tasks m). key t \<notin> S}"
  have fin: "finite (ordinal ` ?U)" and "ordinal ` ?U \<noteq> {}" using left by auto
  then have "Min (ordinal ` ?U) \<in> ordinal ` ?U" by (rule Min_in)
  then obtain t where t: "t \<in> ?U" and "ordinal t = Min (ordinal ` ?U)" by auto
  then have least: "\<forall>u \<in> ?U. ordinal t \<le> ordinal u" using Min_le [OF fin] by auto
  have "d \<in> S" if d: "d \<in> set (deps t)" for d
  proof (rule ccontr)
    assume "d \<notin> S"
    with sup dependency_earlier_or_finished [OF wf _ d] t obtain u
      where "u \<in> set (tasks m)" "key u = d" "ordinal u < ordinal t" by auto
    with least \<open>d \<notin> S\<close> show False by force
  qed
  with t show ?thesis by (auto simp: runnable_def)
qed

lemma runs_to_completion:
  assumes wf: "wf m" and "finished m \<subseteq> S"
  shows "runs key deps (tasks m) S (S \<union> key ` set (tasks m))"
proof -
  let ?K = "S \<union> key ` set (tasks m)"
  have "runs key deps (tasks m) S T \<Longrightarrow> T \<subseteq> ?K \<Longrightarrow> runs key deps (tasks m) S ?K" for T
  proof (induction "card (key ` set (tasks m) - T)" arbitrary: T rule: less_induct)
    case less
    have "S \<subseteq> T" by (rule runs_grows [OF less.prems(1)])
    show ?case
    proof (cases "key ` set (tasks m) \<subseteq> T")
      case True
      with less.prems \<open>S \<subseteq> T\<close> have "T = ?K" by blast
      with less.prems(1) show ?thesis by simp
    next
      case False
      with first_unfinished_runnable [OF wf] assms(2) \<open>S \<subseteq> T\<close> obtain t
        where t: "runnable key deps (tasks m) T t" by blast
      then have "key t \<in> key ` set (tasks m) - T" by (auto simp: runnable_def)
      then have "card (key ` set (tasks m) - insert (key t) T) < card (key ` set (tasks m) - T)"
        by (intro psubset_card_mono) auto
      then show ?thesis
        by (rule less.hyps) (use less.prems t in \<open>auto intro: runs_step simp: runnable_def\<close>)
    qed
  qed
  from this [OF runs_refl] show ?thesis by blast
qed

end

locale task_graph = dependency_order wf tasks "\<lambda>m. {}" key ordinal deps
  for wf :: "'m \<Rightarrow> bool" and tasks :: "'m \<Rightarrow> 't list" and key :: "'t \<Rightarrow> string"
    and ordinal :: "'t \<Rightarrow> int" and deps :: "'t \<Rightarrow> string list" +
  assumes ordinal_index: "wf m \<Longrightarrow> i < length (tasks m) \<Longrightarrow> ordinal (tasks m ! i) = int i"
    and keys_distinct: "wf m \<Longrightarrow> distinct (map key (tasks m))"
begin

lemma dependency_earlier: "wf m \<Longrightarrow> t \<in> set (tasks m) \<Longrightarrow> d \<in> set (deps t)
    \<Longrightarrow> \<exists>u \<in> set (tasks m). key u = d \<and> ordinal u < ordinal t"
  using dependency_earlier_or_finished by blast

lemma progress: "wf m \<Longrightarrow> \<not> key ` set (tasks m) \<subseteq> S \<Longrightarrow> \<exists>t. runnable key deps (tasks m) S t"
  by (rule first_unfinished_runnable) auto

lemma all_succeed: "wf m \<Longrightarrow> S \<subseteq> key ` set (tasks m) \<Longrightarrow> runs key deps (tasks m) S (key ` set (tasks m))"
  using runs_to_completion [of m S] by (simp add: Un_absorb1)

text \<open>No task waits for itself, directly or through others.\<close>

definition waits_for :: "'m \<Rightarrow> (string \<times> string) set" where
  "waits_for m = {(key t, d) | t d. t \<in> set (tasks m) \<and> d \<in> set (deps t)}"

lemma key_determines: "wf m \<Longrightarrow> t \<in> set (tasks m) \<Longrightarrow> u \<in> set (tasks m) \<Longrightarrow> key t = key u \<Longrightarrow> t = u"
  using keys_distinct by (auto simp: distinct_map dest: inj_onD)

lemma waits_for_earlier:
  assumes "wf m" "(k, d) \<in> (waits_for m)\<^sup>+" "t \<in> set (tasks m)" "key t = k"
  shows "\<exists>u \<in> set (tasks m). key u = d \<and> ordinal u < ordinal t"
  using assms(2-)
proof (induction arbitrary: t rule: trancl_induct)
  case (base d)
  then obtain t' where "t' \<in> set (tasks m)" "key t' = k" "d \<in> set (deps t')" by (auto simp: waits_for_def)
  with base key_determines [OF assms(1)] dependency_earlier [OF assms(1)] show ?case by metis
next
  case (step d e)
  then obtain u where u: "u \<in> set (tasks m)" "key u = d" "ordinal u < ordinal t" by blast
  from step obtain t' where "t' \<in> set (tasks m)" "key t' = d" "e \<in> set (deps t')" by (auto simp: waits_for_def)
  with u key_determines [OF assms(1)] dependency_earlier [OF assms(1)] obtain v
    where "v \<in> set (tasks m)" "key v = e" "ordinal v < ordinal u" by metis
  with u show ?case by (metis order.strict_trans)
qed

lemma acyclic: "wf m \<Longrightarrow> acyclic (waits_for m)"
proof (rule acyclicI, rule allI, rule notI)
  fix k
  assume wf: "wf m" and c: "(k, k) \<in> (waits_for m)\<^sup>+"
  then obtain t where t: "t \<in> set (tasks m)" "key t = k" by (auto simp: waits_for_def dest: tranclD)
  from waits_for_earlier [OF wf c t] key_determines [OF wf] t show False by fastforce
qed

end

end
