(* ===== verification/Manifest.thy ===== *)
theory Manifest
  imports Canonical_Json Task_Graph
begin

text \<open>
  The orchestration manifest (ai-id/shared/lesson-author-orchestration-v2.logic.ts): the finite task
  graph of a one-click course generation, built from a plan (\<open>buildOrchestrationV2Manifest\<close>).
  SHA-256 is the parameter \<open>sha\<close> on the canonical text. Object.freeze has no effect on values. The
  locale \<open>task_graph\<close> (\<open>Task_Graph\<close>) states what a task list promises the scheduler; built manifests
  provide it here, sealed ones in \<open>Manifest_Seal\<close>.
\<close>

section \<open>Data\<close>

datatype task_kind = Source_snapshot | Course_skeleton | Chapter_blueprint | Validate_architecture
  | Publish_inventory | Generate_unit | Validate_chapter | Finalize_course

fun kind_text :: "task_kind \<Rightarrow> string" where
  "kind_text Source_snapshot = ''source_snapshot''"
| "kind_text Course_skeleton = ''course_skeleton''"
| "kind_text Chapter_blueprint = ''chapter_blueprint''"
| "kind_text Validate_architecture = ''validate_architecture''"
| "kind_text Publish_inventory = ''publish_inventory''"
| "kind_text Generate_unit = ''generate_unit''"
| "kind_text Validate_chapter = ''validate_chapter''"
| "kind_text Finalize_course = ''finalize_course''"

record budget =
  input_tokens :: int
  embedding_tokens :: int
  max_output_tokens :: int
  max_provider_attempts :: int
  execution_budget_ms :: int

record unit_spec =
  un_node_id :: string
  un_contract_hash :: string
  un_budget :: budget

record chapter_spec =
  ch_key :: string
  ch_node_id :: string
  ch_source_scope_hash :: string
  ch_architecture_budget :: budget
  ch_units :: "unit_spec list"

record plan_input =
  pi_source_snapshot_hash :: string
  pi_source_snapshot_budget_ms :: int
  pi_skeleton_budget :: budget
  pi_chapters :: "chapter_spec list"
  pi_architecture_validation_budget_ms :: int
  pi_inventory_publish_budget_ms :: int
  pi_chapter_validation_budget_ms :: int
  pi_finalization_budget_ms :: int

text \<open>A task without and with its ordinal and contract hash.\<close>

record task_value =
  tk_key :: string
  tk_kind :: task_kind
  tk_chapter_key :: "string option"
  tk_node_id :: "string option"
  tk_depends_on :: "string list"
  tk_budget :: budget

record task = task_value +
  tk_ordinal :: int
  tk_contract_hash :: string

record 'task manifest_of =
  mf_source_snapshot_hash :: string
  mf_tasks :: "'task list"
  mf_token_ceiling :: int
  mf_execution_budget_ms :: int
  mf_hash :: string

type_synonym manifest = "task manifest_of"

datatype manifest_error = Input_invalid | Budget_invalid | Dependency_invalid | Completeness_failed
  | Canonical canonical_error

definition LESSON_AUTHOR_ORCHESTRATION_V2 :: int where "LESSON_AUTHOR_ORCHESTRATION_V2 = 2"
definition PROVIDER_MAX_OUTPUT_TOKENS :: int where "PROVIDER_MAX_OUTPUT_TOKENS = 65536"
definition PROVIDER_MAX_ATTEMPTS :: int where "PROVIDER_MAX_ATTEMPTS = 2"
definition MAX_TASKS :: nat where "MAX_TASKS = 32768"
definition MAX_CHAPTERS :: nat where "MAX_CHAPTERS = 512"
definition MAX_UNITS_PER_CHAPTER :: nat where "MAX_UNITS_PER_CHAPTER = 512"

lemmas manifest_limits = LESSON_AUTHOR_ORCHESTRATION_V2_def PROVIDER_MAX_OUTPUT_TOKENS_def
  PROVIDER_MAX_ATTEMPTS_def MAX_TASKS_def MAX_CHAPTERS_def MAX_UNITS_PER_CHAPTER_def MAX_SAFE_INTEGER_def

section \<open>Hashes and budgets\<close>

definition orchestrationV2Hash :: "(string \<Rightarrow> string) \<Rightarrow> jsval \<Rightarrow> manifest_error + string" where
  "orchestrationV2Hash sha v = (case canonicalJsonForHash Log_violation v of
       Inl e \<Rightarrow> Inl (Canonical e) | Inr t \<Rightarrow> Inr (sha t))"

definition budget_within :: "budget \<Rightarrow> bool \<Rightarrow> bool" where
  "budget_within b provider \<longleftrightarrow>
     safeInteger (input_tokens b) (if provider then 1 else 0) 2000000
     \<and> safeInteger (embedding_tokens b) 0 2000000
     \<and> safeInteger (execution_budget_ms b) 1 600000
     \<and> safeInteger (max_output_tokens b) (if provider then 1 else 0) PROVIDER_MAX_OUTPUT_TOKENS
     \<and> safeInteger (max_provider_attempts b) (if provider then 1 else 0) PROVIDER_MAX_ATTEMPTS
     \<and> \<not> (\<not> provider \<and> (max_output_tokens b \<noteq> 0 \<or> max_provider_attempts b \<noteq> 0))"

definition budget_of :: "budget \<Rightarrow> bool \<Rightarrow> manifest_error + budget" where
  "budget_of b provider = ensure Budget_invalid (budget_within b provider) (Inr b)"

definition deterministicBudget :: "int \<Rightarrow> manifest_error + budget" where
  "deterministicBudget ms = budget_of \<lparr>input_tokens = 0, embedding_tokens = 0, max_output_tokens = 0,
     max_provider_attempts = 0, execution_budget_ms = ms\<rparr> False"

definition json_opt :: "string option \<Rightarrow> jsval" where
  "json_opt x = (case x of None \<Rightarrow> JNull | Some s \<Rightarrow> JStr s)"

definition budget_json :: "budget \<Rightarrow> jsval" where
  "budget_json b = JObj [(''input_tokens'', JInt (input_tokens b)),
     (''embedding_tokens'', JInt (embedding_tokens b)), (''max_output_tokens'', JInt (max_output_tokens b)),
     (''max_provider_attempts'', JInt (max_provider_attempts b)),
     (''execution_budget_ms'', JInt (execution_budget_ms b))]"

definition task_value_fields :: "'a task_value_scheme \<Rightarrow> (string \<times> jsval) list" where
  "task_value_fields v = [(''task_key'', JStr (tk_key v)), (''kind'', JStr (kind_text (tk_kind v))),
     (''chapter_key'', json_opt (tk_chapter_key v)), (''node_id'', json_opt (tk_node_id v)),
     (''depends_on'', JArr (map JStr (tk_depends_on v))), (''budget'', budget_json (tk_budget v))]"

definition taskContract :: "(string \<Rightarrow> string) \<Rightarrow> task_value \<Rightarrow> manifest_error + string" where
  "taskContract sha v = orchestrationV2Hash sha
     (JObj ((''version'', JInt LESSON_AUTHOR_ORCHESTRATION_V2) # task_value_fields v))"

definition freezeTask :: "(string \<Rightarrow> string) \<Rightarrow> nat \<Rightarrow> task_value \<Rightarrow> manifest_error + task" where
  "freezeTask sha n v = bindE (taskContract sha v) (\<lambda>h. Inr (task_value.extend v (task.fields (int n) h)))"

definition task_json :: "task \<Rightarrow> jsval" where
  "task_json t = JObj (((''ordinal'', JInt (tk_ordinal t)) # task_value_fields t)
     @ [(''contract_hash'', JStr (tk_contract_hash t))])"

definition content_json :: "('t \<Rightarrow> jsval) \<Rightarrow> string \<Rightarrow> 't list \<Rightarrow> int \<Rightarrow> int \<Rightarrow> jsval" where
  "content_json tj src tasks ceiling exec = JObj [(''version'', JInt LESSON_AUTHOR_ORCHESTRATION_V2),
     (''source_snapshot_hash'', JStr src), (''tasks'', JArr (map tj tasks)),
     (''token_ceiling'', JInt ceiling), (''execution_budget_ms'', JInt exec)]"

section \<open>Dependencies and totals\<close>

definition positions :: "('t \<Rightarrow> string) \<Rightarrow> ('t \<Rightarrow> int) \<Rightarrow> 't list \<Rightarrow> string \<Rightarrow> int option" where
  "positions key ordinal tasks = js_map_get (map (\<lambda>t. (key t, ordinal t)) tasks)"

definition dependencies_ok :: "('t \<Rightarrow> string) \<Rightarrow> ('t \<Rightarrow> int) \<Rightarrow> ('t \<Rightarrow> string list) \<Rightarrow> 't list \<Rightarrow> bool" where
  "dependencies_ok key ordinal deps tasks \<longleftrightarrow>
     list_all (\<lambda>t. list_all (\<lambda>d. case positions key ordinal tasks d of
        None \<Rightarrow> False | Some p \<Rightarrow> p < ordinal t) (deps t)) tasks"

definition task_tokens :: "budget \<Rightarrow> int" where
  "task_tokens b = input_tokens b + embedding_tokens b + max_output_tokens b * max_provider_attempts b"

text \<open>The running totals, each checked to be a safe integer after every addition.\<close>

fun sum_budgets :: "int \<Rightarrow> int \<Rightarrow> budget list \<Rightarrow> manifest_error + int \<times> int" where
  "sum_budgets ceiling exec [] = Inr (ceiling, exec)"
| "sum_budgets ceiling exec (b # bs) =
     (let ceiling' = ceiling + task_tokens b; exec' = exec + execution_budget_ms b in
      ensure Budget_invalid (isSafeInteger ceiling' \<and> isSafeInteger exec') (sum_budgets ceiling' exec' bs))"

section \<open>Building the manifest of a plan\<close>

definition unit_valid :: "string set \<Rightarrow> unit_spec \<Rightarrow> bool" where
  "unit_valid nodes u \<longleftrightarrow> isUuid (un_node_id u) \<and> un_node_id u \<notin> nodes \<and> is_hash (un_contract_hash u)"

fun check_units :: "string set \<Rightarrow> unit_spec list \<Rightarrow> string set option" where
  "check_units nodes [] = Some nodes"
| "check_units nodes (u # us) = (if unit_valid nodes u then check_units (insert (un_node_id u) nodes) us else None)"

definition chapter_valid :: "string set \<Rightarrow> string set \<Rightarrow> chapter_spec \<Rightarrow> bool" where
  "chapter_valid keys nodes c \<longleftrightarrow> is_key (ch_key c) \<and> ch_key c \<notin> keys \<and> isUuid (ch_node_id c)
     \<and> ch_node_id c \<notin> nodes \<and> is_hash (ch_source_scope_hash c)
     \<and> ch_units c \<noteq> [] \<and> length (ch_units c) \<le> MAX_UNITS_PER_CHAPTER"

fun check_chapters :: "string set \<Rightarrow> string set \<Rightarrow> chapter_spec list \<Rightarrow> bool" where
  "check_chapters keys nodes [] = True"
| "check_chapters keys nodes (c # cs) = (chapter_valid keys nodes c \<and>
     (case check_units (insert (ch_node_id c) nodes) (ch_units c) of
        None \<Rightarrow> False
      | Some nodes' \<Rightarrow> check_chapters (insert (ch_key c) keys) nodes' cs))"

definition plan_shape_ok :: "plan_input \<Rightarrow> bool" where
  "plan_shape_ok inp \<longleftrightarrow> is_hash (pi_source_snapshot_hash inp) \<and> 1 \<le> length (pi_chapters inp)
     \<and> length (pi_chapters inp) \<le> MAX_CHAPTERS \<and> check_chapters {} {} (pi_chapters inp)"

text \<open>
  One call of \<open>append\<close>: the task value, and the budget that the call's argument computes (and that
  may throw) before \<open>append\<close> runs.
\<close>

record entry =
  en_key :: string
  en_kind :: task_kind
  en_chapter_key :: "string option"
  en_node_id :: "string option"
  en_depends_on :: "string list"
  en_budget :: "manifest_error + budget"

definition entry_value :: "entry \<Rightarrow> budget \<Rightarrow> task_value" where
  "entry_value e b = \<lparr>tk_key = en_key e, tk_kind = en_kind e, tk_chapter_key = en_chapter_key e,
     tk_node_id = en_node_id e, tk_depends_on = en_depends_on e, tk_budget = b\<rparr>"

definition chapter_task_key :: "string \<Rightarrow> string" where
  "chapter_task_key k = ''architecture:chapter:'' @ k"

definition unit_task_key :: "string \<Rightarrow> nat \<Rightarrow> string" where
  "unit_task_key k i = ''content:'' @ k @ '':unit:'' @ nat_text (Suc i)"

definition validate_task_key :: "string \<Rightarrow> string" where
  "validate_task_key k = ''content:'' @ k @ '':validate''"

definition blueprint_entry :: "chapter_spec \<Rightarrow> entry" where
  "blueprint_entry c = \<lparr>en_key = chapter_task_key (ch_key c), en_kind = Chapter_blueprint,
     en_chapter_key = Some (ch_key c), en_node_id = Some (ch_node_id c),
     en_depends_on = [''architecture:course''], en_budget = budget_of (ch_architecture_budget c) True\<rparr>"

definition unit_entry :: "string \<Rightarrow> nat \<times> unit_spec \<Rightarrow> entry" where
  "unit_entry k iu = \<lparr>en_key = unit_task_key k (fst iu), en_kind = Generate_unit,
     en_chapter_key = Some k, en_node_id = Some (un_node_id (snd iu)),
     en_depends_on = [''inventory:publish''], en_budget = budget_of (un_budget (snd iu)) True\<rparr>"

definition unit_entries :: "chapter_spec \<Rightarrow> entry list" where
  "unit_entries c = map (unit_entry (ch_key c)) (enumerate 0 (ch_units c))"

definition content_entries :: "plan_input \<Rightarrow> chapter_spec \<Rightarrow> entry list" where
  "content_entries inp c = unit_entries c @
     [\<lparr>en_key = validate_task_key (ch_key c), en_kind = Validate_chapter,
       en_chapter_key = Some (ch_key c), en_node_id = Some (ch_node_id c),
       en_depends_on = map en_key (unit_entries c),
       en_budget = deterministicBudget (pi_chapter_validation_budget_ms inp)\<rparr>]"

definition single_entry :: "string \<Rightarrow> task_kind \<Rightarrow> string list \<Rightarrow> (manifest_error + budget) \<Rightarrow> entry" where
  "single_entry k kind deps b = \<lparr>en_key = k, en_kind = kind, en_chapter_key = None, en_node_id = None,
     en_depends_on = deps, en_budget = b\<rparr>"

definition plan_entries :: "plan_input \<Rightarrow> entry list" where
  "plan_entries inp =
     [single_entry ''source:snapshot'' Source_snapshot [] (deterministicBudget (pi_source_snapshot_budget_ms inp)),
      single_entry ''architecture:course'' Course_skeleton [''source:snapshot'']
        (budget_of (pi_skeleton_budget inp) True)]
     @ map blueprint_entry (pi_chapters inp)
     @ [single_entry ''architecture:validate'' Validate_architecture
          (map (\<lambda>c. chapter_task_key (ch_key c)) (pi_chapters inp))
          (deterministicBudget (pi_architecture_validation_budget_ms inp)),
        single_entry ''inventory:publish'' Publish_inventory [''architecture:validate'']
          (deterministicBudget (pi_inventory_publish_budget_ms inp))]
     @ concat (map (content_entries inp) (pi_chapters inp))
     @ [single_entry ''course:finalize'' Finalize_course
          (map (\<lambda>c. validate_task_key (ch_key c)) (pi_chapters inp))
          (deterministicBudget (pi_finalization_budget_ms inp))]"

fun append_entries :: "(string \<Rightarrow> string) \<Rightarrow> task list \<Rightarrow> entry list \<Rightarrow> manifest_error + task list" where
  "append_entries sha tasks [] = Inr tasks"
| "append_entries sha tasks (e # es) = bindE (en_budget e) (\<lambda>b.
     ensure Input_invalid (is_key (en_key e) \<and> en_key e \<notin> tk_key ` set tasks)
       (bindE (freezeTask sha (length tasks) (entry_value e b))
         (\<lambda>t. append_entries sha (tasks @ [t]) es)))"

definition buildOrchestrationV2Manifest :: "(string \<Rightarrow> string) \<Rightarrow> plan_input \<Rightarrow> manifest_error + manifest" where
  "buildOrchestrationV2Manifest sha inp =
     ensure Input_invalid (plan_shape_ok inp)
      (bindE (append_entries sha [] (plan_entries inp)) (\<lambda>tasks.
       ensure Input_invalid (length tasks \<le> MAX_TASKS)
        (ensure Dependency_invalid (dependencies_ok tk_key tk_ordinal tk_depends_on tasks)
          (bindE (sum_budgets 0 0 (map tk_budget tasks)) (\<lambda>(ceiling, exec).
            bindE (orchestrationV2Hash sha (content_json task_json (pi_source_snapshot_hash inp) tasks ceiling exec))
              (\<lambda>h. Inr \<lparr>mf_source_snapshot_hash = pi_source_snapshot_hash inp, mf_tasks = tasks,
                     mf_token_ceiling = ceiling, mf_execution_budget_ms = exec, mf_hash = h\<rparr>))))))"

section \<open>Hashes of plain values\<close>

lemma hash_plain: "plain v \<Longrightarrow> orchestrationV2Hash sha v = Inr (sha (canon v))"
  by (simp add: orchestrationV2Hash_def canonicalJsonForHash_def canonicalJson_def encodeStrict_plain)

lemma plain_json_opt [simp]: "plain (json_opt x)"
  by (cases x) (simp_all add: json_opt_def)

lemma plain_budget_json [simp]: "plain (budget_json b)"
  by (simp add: budget_json_def)

lemma plain_strings [simp]: "list_all id (map (plain \<circ> JStr) xs)"
  by (simp add: list_all_iff)

lemma plain_task_contract [simp]:
  "plain (JObj ((''version'', JInt LESSON_AUTHOR_ORCHESTRATION_V2) # task_value_fields v))"
  by (simp add: task_value_fields_def)

lemma plain_task_json [simp]: "plain (task_json t)"
  by (simp add: task_json_def task_value_fields_def)

lemma plain_content_json: "(\<And>t. plain (tj t)) \<Longrightarrow> plain (content_json tj src ts c x)"
  by (simp add: content_json_def list_all_iff)

section \<open>Totals stay safe integers\<close>

definition token_total :: "budget list \<Rightarrow> int" where
  "token_total bs = sum_list (map task_tokens bs)"

definition execution_total :: "budget list \<Rightarrow> int" where
  "execution_total bs = sum_list (map execution_budget_ms bs)"

lemma budget_of_Inr: "budget_of b p = Inr b' \<longleftrightarrow> budget_within b p \<and> b' = b"
  by (auto simp: budget_of_def)

lemma budget_bounds:
  assumes "budget_within b p"
  shows "0 \<le> task_tokens b" "task_tokens b \<le> 4131072" "1 \<le> execution_budget_ms b" "execution_budget_ms b \<le> 600000"
proof -
  have b: "0 \<le> input_tokens b" "input_tokens b \<le> 2000000" "0 \<le> embedding_tokens b"
    "embedding_tokens b \<le> 2000000" "0 \<le> max_output_tokens b" "max_output_tokens b \<le> 65536"
    "0 \<le> max_provider_attempts b" "max_provider_attempts b \<le> 2"
    using assms by (auto simp: budget_within_def safeInteger_def manifest_limits split: if_splits)
  have "max_output_tokens b * max_provider_attempts b \<le> 65536 * 2"
    using b by (intro mult_mono) auto
  moreover have "0 \<le> max_output_tokens b * max_provider_attempts b" using b by simp
  ultimately show "0 \<le> task_tokens b" "task_tokens b \<le> 4131072" using b by (auto simp: task_tokens_def)
  show "1 \<le> execution_budget_ms b" "execution_budget_ms b \<le> 600000"
    using assms by (auto simp: budget_within_def safeInteger_def)
qed

lemma provider_tokens_positive: "budget_within b True \<Longrightarrow> 1 \<le> task_tokens b"
  by (auto simp: budget_within_def safeInteger_def task_tokens_def intro!: add_increasing2 mult_nonneg_nonneg)

lemma sum_budgets_safe:
  assumes "\<forall>b \<in> set bs. \<exists>p. budget_within b p"
    and "0 \<le> c" "c + 4131072 * int (length bs) \<le> MAX_SAFE_INTEGER"
    and "0 \<le> x" "x + 600000 * int (length bs) \<le> MAX_SAFE_INTEGER"
  shows "sum_budgets c x bs = Inr (c + token_total bs, x + execution_total bs)"
  using assms
proof (induction bs arbitrary: c x)
  case Nil
  then show ?case by (simp add: token_total_def execution_total_def)
next
  case (Cons b bs)
  then obtain p where p: "budget_within b p" by auto
  note bb = budget_bounds [OF p]
  have "sum_budgets (c + task_tokens b) (x + execution_budget_ms b) bs
      = Inr (c + task_tokens b + token_total bs, x + execution_budget_ms b + execution_total bs)"
    by (rule Cons.IH) (use Cons.prems bb in auto)
  moreover have "isSafeInteger (c + task_tokens b)" "isSafeInteger (x + execution_budget_ms b)"
    using Cons.prems bb by (auto simp: isSafeInteger_def manifest_limits)
  ultimately show ?case by (simp add: token_total_def execution_total_def add.assoc)
qed

lemma sum_budgets_within:
  assumes "\<forall>b \<in> set bs. \<exists>p. budget_within b p" and "length bs \<le> MAX_TASKS"
  shows "sum_budgets 0 0 bs = Inr (token_total bs, execution_total bs)"
  using sum_budgets_safe [of bs 0 0] assms by (simp add: manifest_limits)

section \<open>Appending\<close>

definition made_task :: "(string \<Rightarrow> string) \<Rightarrow> nat \<Rightarrow> entry \<Rightarrow> task" where
  "made_task sha n e = (let v = entry_value e (projr (en_budget e)) in task_value.extend v
     (task.fields (int n) (sha (canon (JObj ((''version'', JInt LESSON_AUTHOR_ORCHESTRATION_V2) # task_value_fields v))))))"

definition made_tasks :: "(string \<Rightarrow> string) \<Rightarrow> nat \<Rightarrow> entry list \<Rightarrow> task list" where
  "made_tasks sha n es = map (\<lambda>(i, e). made_task sha i e) (enumerate n es)"

lemma freezeTask_plain: "en_budget e = Inr b \<Longrightarrow> freezeTask sha n (entry_value e b) = Inr (made_task sha n e)"
  by (simp add: freezeTask_def taskContract_def made_task_def hash_plain Let_def del: plain.simps)

lemma made_task_sel [simp]:
  "tk_key (made_task sha n e) = en_key e" "tk_kind (made_task sha n e) = en_kind e"
  "tk_chapter_key (made_task sha n e) = en_chapter_key e" "tk_node_id (made_task sha n e) = en_node_id e"
  "tk_depends_on (made_task sha n e) = en_depends_on e" "tk_budget (made_task sha n e) = projr (en_budget e)"
  "tk_ordinal (made_task sha n e) = int n"
  by (simp_all add: made_task_def entry_value_def Let_def task_value.defs task.defs)

lemma made_tasks_simps [simp]:
  "made_tasks sha n [] = []"
  "made_tasks sha n (e # es) = made_task sha n e # made_tasks sha (Suc n) es"
  by (simp_all add: made_tasks_def)

lemma length_made_tasks [simp]: "length (made_tasks sha n es) = length es"
  by (simp add: made_tasks_def)

lemma made_tasks_nth: "i < length es \<Longrightarrow> made_tasks sha n es ! i = made_task sha (n + i) (es ! i)"
  by (simp add: made_tasks_def nth_enumerate_eq)

lemma map_made_tasks:
  assumes "\<And>n e. f (made_task sha n e) = g e"
  shows "map f (made_tasks sha n es) = map g es"
  by (induction es arbitrary: n) (auto simp: assms)

definition entry_valid :: "entry \<Rightarrow> bool" where
  "entry_valid e \<longleftrightarrow> is_key (en_key e) \<and> ok (en_budget e)"

lemma append_entries_Inr:
  "append_entries sha ts es = Inr r \<longleftrightarrow>
     (\<forall>e \<in> set es. entry_valid e \<and> en_key e \<notin> tk_key ` set ts) \<and> distinct (map en_key es)
     \<and> r = ts @ made_tasks sha (length ts) es"
proof (induction es arbitrary: ts)
  case Nil
  then show ?case by auto
next
  case (Cons e es)
  show ?case
  proof (cases "en_budget e")
    case (Inl x)
    then show ?thesis by (simp add: entry_valid_def)
  next
    case (Inr b)
    have "append_entries sha ts (e # es) = Inr r \<longleftrightarrow> is_key (en_key e) \<and> en_key e \<notin> tk_key ` set ts
      \<and> append_entries sha (ts @ [made_task sha (length ts) e]) es = Inr r"
      by (simp add: Inr freezeTask_plain)
    also have "\<dots> \<longleftrightarrow> (\<forall>e \<in> set (e # es). entry_valid e \<and> en_key e \<notin> tk_key ` set ts)
       \<and> distinct (map en_key (e # es)) \<and> r = ts @ made_tasks sha (length ts) (e # es)"
      by (subst Cons.IH) (use Inr in \<open>auto simp: entry_valid_def ok_iff image_iff\<close>)
    finally show ?thesis .
  qed
qed

section \<open>Dependencies of a plan\<close>

text \<open>Every dependency of an entry is a key before it.\<close>

fun deps_before :: "string set \<Rightarrow> entry list \<Rightarrow> bool" where
  "deps_before K [] = True"
| "deps_before K (e # es) = (set (en_depends_on e) \<subseteq> K \<and> deps_before (insert (en_key e) K) es)"

lemma deps_before_append:
  "deps_before K (xs @ ys) \<longleftrightarrow> deps_before K xs \<and> deps_before (K \<union> en_key ` set xs) ys"
  by (induction xs arbitrary: K) auto

lemma deps_before_outside: "\<forall>e \<in> set es. set (en_depends_on e) \<subseteq> K \<Longrightarrow> deps_before K es"
proof (induction es arbitrary: K)
  case (Cons e es)
  have "deps_before (insert (en_key e) K) es" by (rule Cons.IH) (use Cons.prems in auto)
  with Cons.prems show ?case by simp
qed simp

lemma deps_before_concat:
  "(\<And>x K'. x \<in> set xs \<Longrightarrow> K \<subseteq> K' \<Longrightarrow> deps_before K' (f x)) \<Longrightarrow> deps_before K (concat (map f xs))"
proof (induction xs arbitrary: K)
  case (Cons x xs)
  have "deps_before (K \<union> en_key ` set (f x)) (concat (map f xs))"
    by (rule Cons.IH) (use Cons.prems in auto)
  with Cons.prems show ?case by (simp add: deps_before_append)
qed simp

lemma deps_before_nth:
  "deps_before K es \<Longrightarrow> i < length es \<Longrightarrow> d \<in> set (en_depends_on (es ! i))
    \<Longrightarrow> d \<in> K \<or> (\<exists>j < i. en_key (es ! j) = d)"
proof (induction es arbitrary: K i)
  case (Cons e es)
  show ?case
  proof (cases i)
    case (Suc k)
    with Cons.IH [of "insert (en_key e) K" k] Cons.prems
    have "d \<in> insert (en_key e) K \<or> (\<exists>j < k. en_key (es ! j) = d)" by simp
    with Suc show ?thesis by (fastforce intro: exI [of _ "Suc _"] exI [of _ 0])
  qed (use Cons.prems in auto)
qed simp

lemma content_deps_before:
  assumes "''inventory:publish'' \<in> K"
  shows "deps_before K (content_entries inp c)"
proof -
  have "deps_before K (unit_entries c)"
    by (rule deps_before_outside) (use assms in \<open>auto simp: unit_entries_def unit_entry_def\<close>)
  then show ?thesis by (auto simp: content_entries_def deps_before_append)
qed

lemma blueprint_keys: "en_key ` set (map blueprint_entry cs) = (\<lambda>c. chapter_task_key (ch_key c)) ` set cs"
  by (force simp: blueprint_entry_def)

lemma validate_in_content: "validate_task_key (ch_key c) \<in> en_key ` set (content_entries inp c)"
  by (simp add: content_entries_def)

lemma validate_in_contents:
  "(\<lambda>c. validate_task_key (ch_key c)) ` set cs \<subseteq> en_key ` set (concat (map (content_entries inp) cs))"
  using validate_in_content by (fastforce simp: image_UN)

lemma plan_deps_before: "deps_before {} (plan_entries inp)"
proof -
  let ?cs = "pi_chapters inp"
  have contents: "deps_before K (concat (map (content_entries inp) cs))"
    if "''inventory:publish'' \<in> K" for K cs
    by (rule deps_before_concat) (use that content_deps_before in blast)
  have blueprints: "deps_before K (map blueprint_entry cs)" if "''architecture:course'' \<in> K" for K cs
    by (rule deps_before_outside) (use that in \<open>auto simp: blueprint_entry_def\<close>)
  have final: "deps_before (K \<union> en_key ` set (concat (map (content_entries inp) ?cs)))
      [single_entry ''course:finalize'' Finalize_course (map (\<lambda>c. validate_task_key (ch_key c)) ?cs) b]" for K b
    using validate_in_contents [of ?cs inp] by (simp add: single_entry_def del: set_concat) blast
  show ?thesis
    unfolding plan_entries_def deps_before_append blueprint_keys
    by (intro conjI final contents blueprints) (auto simp: single_entry_def)
qed

section \<open>Distinct task keys\<close>

lemma first_part_unique:
  "x \<notin> set d \<Longrightarrow> x \<notin> set d' \<Longrightarrow> d @ x # a = d' @ x # a' \<longleftrightarrow> d = d' \<and> a = a'"
proof (induction d arbitrary: d')
  case Nil
  then show ?case by (cases d') auto
next
  case (Cons y d)
  then show ?case by (cases d') auto
qed

lemma last_part_unique:
  assumes "a @ x # d = a' @ x # d'" "x \<notin> set d" "x \<notin> set d'"
  shows "a = a' \<and> d = d'"
proof -
  have "rev d @ x # rev a = rev d' @ x # rev a'" using arg_cong [OF assms(1), of rev] by simp
  then have "rev d = rev d' \<and> rev a = rev a'"
    using assms(2,3) by (simp add: first_part_unique)
  then show ?thesis by simp
qed

lemma colon_not_digit: "CHR '':'' \<notin> set (nat_text n)"
proof
  assume "CHR '':'' \<in> set (nat_text n)"
  then have "is_digit (CHR '':'')" using nat_text_digits [of n] by (auto simp: list_all_iff)
  then show False by (simp add: char_class_defs)
qed

lemma unit_task_key_inj: "unit_task_key k i = unit_task_key k' j \<longleftrightarrow> k = k' \<and> i = j"
proof
  assume "unit_task_key k i = unit_task_key k' j"
  then have "(k @ '':unit'') @ CHR '':'' # nat_text (Suc i) = (k' @ '':unit'') @ CHR '':'' # nat_text (Suc j)"
    by (simp add: unit_task_key_def)
  from last_part_unique [OF this colon_not_digit colon_not_digit] show "k = k' \<and> i = j"
    by (simp add: nat_text_inj)
qed simp

lemma validate_task_key_inj: "validate_task_key k = validate_task_key k' \<longleftrightarrow> k = k'"
  by (simp add: validate_task_key_def)

lemma unit_not_validate: "unit_task_key k i \<noteq> validate_task_key k'"
proof
  assume "unit_task_key k i = validate_task_key k'"
  then have "(k @ '':unit'') @ CHR '':'' # nat_text (Suc i) = k' @ CHR '':'' # ''validate''"
    by (simp add: unit_task_key_def validate_task_key_def)
  from last_part_unique [OF this colon_not_digit] have "nat_text (Suc i) = ''validate''" by simp
  then have "is_digit (CHR ''v'')" using nat_text_digits [of "Suc i"] by simp
  then show False by (simp add: char_class_defs)
qed

lemma chapter_task_key_inj: "chapter_task_key k = chapter_task_key k' \<longleftrightarrow> k = k'"
  by (simp add: chapter_task_key_def)

lemma fixed_keys_apart:
  "unit_task_key k i \<notin> {''source:snapshot'', ''architecture:course'', ''architecture:validate'', ''inventory:publish'', ''course:finalize''}"
  "validate_task_key k \<notin> {''source:snapshot'', ''architecture:course'', ''architecture:validate'', ''inventory:publish'', ''course:finalize''}"
  "chapter_task_key k \<notin> {''source:snapshot'', ''architecture:course'', ''architecture:validate'', ''inventory:publish'', ''course:finalize''}"
  "chapter_task_key k \<noteq> unit_task_key k' i" "chapter_task_key k \<noteq> validate_task_key k'"
  by (auto simp: unit_task_key_def validate_task_key_def chapter_task_key_def)

lemma check_chapters_keys:
  "check_chapters keys nodes cs \<Longrightarrow> distinct (map ch_key cs) \<and> keys \<inter> ch_key ` set cs = {}"
  by (induction cs arbitrary: keys nodes) (fastforce simp: chapter_valid_def split: option.splits)+

lemma plan_chapter_keys: "plan_shape_ok inp \<Longrightarrow> distinct (map ch_key (pi_chapters inp))"
  using check_chapters_keys by (auto simp: plan_shape_ok_def)

lemma unit_keys: "map en_key (unit_entries c) = map (unit_task_key (ch_key c)) [0..<length (ch_units c)]"
proof -
  have "map en_key (unit_entries c) = map (unit_task_key (ch_key c)) (map fst (enumerate 0 (ch_units c)))"
    unfolding unit_entries_def map_map by (rule map_cong) (simp_all add: unit_entry_def)
  then show ?thesis by simp
qed

lemma content_keys_list:
  "map en_key (content_entries inp c)
     = map (unit_task_key (ch_key c)) [0..<length (ch_units c)] @ [validate_task_key (ch_key c)]"
  by (simp add: content_entries_def unit_keys del: map_map)

lemma content_keys:
  "en_key ` set (content_entries inp c) = insert (validate_task_key (ch_key c))
     (unit_task_key (ch_key c) ` {..<length (ch_units c)})"
  by (simp only: set_map [symmetric] content_keys_list) auto

lemma content_keys_distinct: "distinct (map en_key (content_entries inp c))"
  unfolding content_keys_list
  by (auto simp: distinct_map inj_on_def unit_task_key_inj unit_not_validate [symmetric])

lemma content_keys_apart:
  "ch_key c \<noteq> ch_key c' \<Longrightarrow> en_key ` set (content_entries inp c) \<inter> en_key ` set (content_entries inp c') = {}"
  by (auto simp: content_keys unit_task_key_inj validate_task_key_inj unit_not_validate unit_not_validate [symmetric])

lemma contents_distinct:
  "distinct (map ch_key cs) \<Longrightarrow> distinct (map en_key (concat (map (content_entries inp) cs)))"
proof (induction cs)
  case (Cons c cs)
  have "en_key ` set (content_entries inp c) \<inter> en_key ` set (content_entries inp c') = {}"
    if "c' \<in> set cs" for c'
    by (rule content_keys_apart) (use that Cons.prems in auto)
  then have "en_key ` set (content_entries inp c) \<inter> en_key ` set (concat (map (content_entries inp) cs)) = {}"
    by (auto simp del: set_concat simp: set_concat)
  with Cons content_keys_distinct show ?case by simp
qed simp

lemma single_entry_key: "en_key (single_entry k kind deps b) = k"
  by (simp add: single_entry_def)

lemma distinct_interleaved:
  assumes "distinct [f a, f b, f c, f d, f e]" "distinct (map f B)" "distinct (map f D)"
    and "{f a, f b, f c, f d, f e} \<inter> f ` set B = {}" "{f a, f b, f c, f d, f e} \<inter> f ` set D = {}"
    and "f ` set B \<inter> f ` set D = {}"
  shows "distinct (map f ([a, b] @ B @ [c, d] @ D @ [e]))"
  using assms by auto

lemma plan_keys_distinct:
  assumes "plan_shape_ok inp"
  shows "distinct (map en_key (plan_entries inp))"
proof -
  let ?cs = "pi_chapters inp"
  define B where "B = map blueprint_entry ?cs"
  define D where "D = concat (map (content_entries inp) ?cs)"
  have d: "distinct (map ch_key ?cs)" by (rule plan_chapter_keys [OF assms])
  have "map en_key B = map chapter_task_key (map ch_key ?cs)"
    by (simp add: B_def blueprint_entry_def)
  moreover have "distinct (map chapter_task_key (map ch_key ?cs))"
    using d by (subst distinct_map) (auto simp: inj_on_def chapter_task_key_inj)
  ultimately have dB: "distinct (map en_key B)" by simp
  have dD: "distinct (map en_key D)" unfolding D_def by (rule contents_distinct [OF d])
  have kB: "k \<in> en_key ` set B \<Longrightarrow> \<exists>c. k = chapter_task_key c" for k
    by (auto simp: B_def blueprint_entry_def)
  have kD: "k \<in> en_key ` set D \<Longrightarrow> \<exists>c i. k = validate_task_key c \<or> k = unit_task_key c i" for k
    unfolding D_def set_concat image_UN by (auto simp: content_keys)
  let ?F = "{''source:snapshot'', ''architecture:course'', ''architecture:validate'', ''inventory:publish'', ''course:finalize''}"
  have "k \<notin> ?F" if "k \<in> en_key ` set B" for k
    using kB [OF that] by (elim exE) (simp only: fixed_keys_apart not_False_eq_True)
  then have FB: "?F \<inter> en_key ` set B = {}" by (meson disjoint_iff)
  have "k \<notin> ?F" if "k \<in> en_key ` set D" for k
    using kD [OF that] by (elim exE disjE) (simp_all only: fixed_keys_apart not_False_eq_True)
  then have FD: "?F \<inter> en_key ` set D = {}" by (meson disjoint_iff)
  have BD: "en_key ` set B \<inter> en_key ` set D = {}"
    using kB kD fixed_keys_apart(4,5) by (metis disjoint_iff)
  show ?thesis
    unfolding plan_entries_def B_def [symmetric] D_def [symmetric]
    apply (rule distinct_interleaved [OF _ dB dD _ _ BD])
      apply (simp only: single_entry_key)
      apply simp
     apply (simp only: single_entry_key FB)
    apply (simp only: single_entry_key FD)
    done
qed

section \<open>Dependency positions\<close>

lemma dependencies_ok_iff:
  assumes "distinct (map key ts)"
  shows "dependencies_ok key ordinal deps ts \<longleftrightarrow>
    (\<forall>t \<in> set ts. \<forall>d \<in> set (deps t). \<exists>u \<in> set ts. key u = d \<and> ordinal u < ordinal t)"
proof -
  have d: "distinct (map fst (map (\<lambda>t. (key t, ordinal t)) ts))" using assms by (simp add: comp_def)
  have p: "positions key ordinal ts k = Some p \<longleftrightarrow> (\<exists>u \<in> set ts. key u = k \<and> ordinal u = p)" for k p
    unfolding positions_def js_map_get_distinct [OF d] map_of_eq_Some_iff [OF d] by auto
  have "(case positions key ordinal ts k of None \<Rightarrow> False | Some p \<Rightarrow> p < x) \<longleftrightarrow>
      (\<exists>u \<in> set ts. key u = k \<and> ordinal u < x)" for k x
  proof (cases "positions key ordinal ts k")
    case None
    with p [of k] show ?thesis by auto
  next
    case (Some a)
    with p [of k] show ?thesis by simp metis
  qed
  then show ?thesis by (simp add: dependencies_ok_def list_all_iff)
qed

section \<open>Built manifests\<close>

definition plan_accepted :: "plan_input \<Rightarrow> bool" where
  "plan_accepted inp \<longleftrightarrow> plan_shape_ok inp \<and> list_all entry_valid (plan_entries inp)
     \<and> length (plan_entries inp) \<le> MAX_TASKS"

definition built_manifest :: "(string \<Rightarrow> string) \<Rightarrow> plan_input \<Rightarrow> manifest" where
  "built_manifest sha inp = (let ts = made_tasks sha 0 (plan_entries inp); bs = map tk_budget ts;
       src = pi_source_snapshot_hash inp in
     \<lparr>mf_source_snapshot_hash = src, mf_tasks = ts, mf_token_ceiling = token_total bs,
      mf_execution_budget_ms = execution_total bs,
      mf_hash = sha (canon (content_json task_json src ts (token_total bs) (execution_total bs)))\<rparr>)"

lemma plan_entry_budget: "e \<in> set (plan_entries inp) \<Longrightarrow> \<exists>b p. en_budget e = budget_of b p"
  by (auto simp: plan_entries_def single_entry_def blueprint_entry_def content_entries_def
      unit_entries_def unit_entry_def deterministicBudget_def) blast+

lemma made_tasks_graph:
  assumes "deps_before {} es" "distinct (map en_key es)"
  shows "\<forall>t \<in> set (made_tasks sha 0 es). \<forall>d \<in> set (tk_depends_on t).
     \<exists>u \<in> set (made_tasks sha 0 es). tk_key u = d \<and> tk_ordinal u < tk_ordinal t"
proof (intro ballI)
  fix t d
  assume t: "t \<in> set (made_tasks sha 0 es)" and d: "d \<in> set (tk_depends_on t)"
  then obtain i where i: "i < length es" "t = made_task sha i (es ! i)"
    by (auto simp: in_set_conv_nth made_tasks_nth)
  with d deps_before_nth [OF assms(1)] obtain j where j: "j < i" "en_key (es ! j) = d" by auto
  moreover from i j have "made_tasks sha 0 es ! j \<in> set (made_tasks sha 0 es)" by simp
  ultimately show "\<exists>u \<in> set (made_tasks sha 0 es). tk_key u = d \<and> tk_ordinal u < tk_ordinal t"
    using i by (intro bexI [of _ "made_tasks sha 0 es ! j"]) (auto simp: made_tasks_nth)
qed

lemma made_tasks_keys: "map tk_key (made_tasks sha n es) = map en_key es"
  by (rule map_made_tasks) simp

lemma build_iff: "buildOrchestrationV2Manifest sha inp = Inr m \<longleftrightarrow> plan_accepted inp \<and> m = built_manifest sha inp"
proof (cases "plan_accepted inp")
  case True
  let ?ts = "made_tasks sha 0 (plan_entries inp)"
  have d: "distinct (map en_key (plan_entries inp))"
    using True plan_keys_distinct by (simp add: plan_accepted_def)
  have a: "append_entries sha [] (plan_entries inp) = Inr ?ts"
    using True d by (simp add: append_entries_Inr plan_accepted_def list_all_iff)
  have "dependencies_ok tk_key tk_ordinal tk_depends_on ?ts"
    using made_tasks_graph [OF plan_deps_before d, of sha] by (simp add: dependencies_ok_iff made_tasks_keys d)
  moreover have "\<forall>b \<in> set (map tk_budget ?ts). \<exists>p. budget_within b p"
  proof -
    have "map tk_budget ?ts = map (\<lambda>e. projr (en_budget e)) (plan_entries inp)"
      by (rule map_made_tasks) simp
    moreover have "\<exists>p. budget_within (projr (en_budget e)) p" if e: "e \<in> set (plan_entries inp)" for e
    proof -
      from plan_entry_budget [OF e] obtain b p where b: "en_budget e = budget_of b p" by blast
      moreover from True e have "ok (en_budget e)" by (auto simp: plan_accepted_def entry_valid_def list_all_iff)
      ultimately show ?thesis by (auto simp: ok_iff budget_of_def ensure_def split: if_splits)
    qed
    ultimately show ?thesis by auto
  qed
  then have "sum_budgets 0 0 (map tk_budget ?ts)
      = Inr (token_total (map tk_budget ?ts), execution_total (map tk_budget ?ts))"
    using True by (intro sum_budgets_within) (auto simp: plan_accepted_def)
  ultimately show ?thesis
    using True a
    by (auto simp: buildOrchestrationV2Manifest_def plan_accepted_def built_manifest_def Let_def
        hash_plain plain_content_json)
next
  case False
  then show ?thesis
    by (auto simp: buildOrchestrationV2Manifest_def plan_accepted_def append_entries_Inr list_all_iff)
qed

definition plan_manifest :: "manifest \<Rightarrow> bool" where
  "plan_manifest m \<longleftrightarrow> (\<exists>sha inp. buildOrchestrationV2Manifest sha inp = Inr m)"

lemma plan_manifest_tasks:
  assumes "plan_manifest m"
  obtains sha inp where "plan_accepted inp" "m = built_manifest sha inp"
    "mf_tasks m = made_tasks sha 0 (plan_entries inp)" "distinct (map en_key (plan_entries inp))"
  using assms plan_keys_distinct by (auto simp: plan_manifest_def build_iff built_manifest_def Let_def plan_accepted_def)

interpretation planned: task_graph plan_manifest mf_tasks tk_key tk_ordinal tk_depends_on
proof
  fix m :: manifest and t d
  assume "plan_manifest m" "t \<in> set (mf_tasks m)" "d \<in> set (tk_depends_on t)"
  then show "d \<in> {} \<or> (\<exists>u \<in> set (mf_tasks m). tk_key u = d \<and> tk_ordinal u < tk_ordinal t)"
    by (elim plan_manifest_tasks) (simp add: made_tasks_graph [OF plan_deps_before])
next
  fix m :: manifest and i
  assume "plan_manifest m" "i < length (mf_tasks m)"
  then show "tk_ordinal (mf_tasks m ! i) = int i"
    by (elim plan_manifest_tasks) (simp add: made_tasks_nth)
next
  fix m :: manifest
  assume "plan_manifest m"
  then show "distinct (map tk_key (mf_tasks m))"
    by (elim plan_manifest_tasks) (simp add: made_tasks_keys)
qed

section \<open>Properties\<close>

lemma append_entries_error:
  "append_entries sha ts es = Inl e \<Longrightarrow> \<forall>e \<in> set es. \<exists>b p. en_budget e = budget_of b p
    \<Longrightarrow> e \<in> {Input_invalid, Budget_invalid}"
proof (induction es arbitrary: ts)
  case (Cons a es)
  then show ?case
    by (cases "en_budget a") (auto simp: budget_of_def ensure_def freezeTask_plain split: if_splits)
qed simp


text \<open>
  C2: a built manifest can always be run to the end: whatever tasks have succeeded so far, if some
  task is left then a task is runnable, runnable tasks lead to all tasks succeeded, and no task waits
  for itself through any chain of dependencies.
\<close>

theorem built_manifest_runs_to_completion:
  assumes "buildOrchestrationV2Manifest sha inp = Inr m" and "S \<subseteq> tk_key ` set (mf_tasks m)"
  shows "(S \<noteq> tk_key ` set (mf_tasks m) \<longrightarrow> (\<exists>t. runnable tk_key tk_depends_on (mf_tasks m) S t))
    \<and> runs tk_key tk_depends_on (mf_tasks m) S (tk_key ` set (mf_tasks m))
    \<and> acyclic {(tk_key t, d) | t d. t \<in> set (mf_tasks m) \<and> d \<in> set (tk_depends_on t)}"
proof -
  have wf: "plan_manifest m" using assms(1) by (auto simp: plan_manifest_def)
  show ?thesis
    using planned.progress [OF wf] planned.all_succeed [OF wf assms(2)]
      planned.acyclic [OF wf, unfolded planned.waits_for_def] assms(2) by blast
qed


text \<open>A small plan, for the witnesses.\<close>

definition example_budget :: budget where
  "example_budget = \<lparr>input_tokens = 1000, embedding_tokens = 0, max_output_tokens = 4096,
     max_provider_attempts = 2, execution_budget_ms = 60000\<rparr>"

definition example_plan :: plan_input where
  "example_plan = \<lparr>pi_source_snapshot_hash = replicate 64 (CHR ''a''), pi_source_snapshot_budget_ms = 1000,
     pi_skeleton_budget = example_budget,
     pi_chapters = [\<lparr>ch_key = ''ch1'', ch_node_id = ''00000000-0000-0000-0000-000000000001'',
        ch_source_scope_hash = replicate 64 (CHR ''b''), ch_architecture_budget = example_budget,
        ch_units = [\<lparr>un_node_id = ''00000000-0000-0000-0000-000000000002'',
          un_contract_hash = replicate 64 (CHR ''c''), un_budget = example_budget\<rparr>]\<rparr>],
     pi_architecture_validation_budget_ms = 1000, pi_inventory_publish_budget_ms = 1000,
     pi_chapter_validation_budget_ms = 1000, pi_finalization_budget_ms = 1000\<rparr>"

definition example_sha :: "string \<Rightarrow> string" where
  "example_sha t = replicate 64 (CHR ''d'')"

lemma example_patterns:
  "is_hash (replicate 64 (CHR ''a''))" "is_hash (replicate 64 (CHR ''b''))" "is_hash (replicate 64 (CHR ''c''))"
  "is_hash (replicate 64 (CHR ''d''))"
  "isUuid ''00000000-0000-0000-0000-000000000001''" "isUuid ''00000000-0000-0000-0000-000000000002''" "is_key ''ch1''"
  by code_simp+

lemma example_budget_within: "budget_within example_budget True"
  by (simp add: example_budget_def budget_within_def safeInteger_def isSafeInteger_def manifest_limits)

lemma example_deterministic: "ok (deterministicBudget 1000)"
  by (simp add: deterministicBudget_def budget_of_def budget_within_def safeInteger_def isSafeInteger_def manifest_limits)

lemma example_keys:
  "list_all is_key [''source:snapshot'', ''architecture:course'', ''architecture:validate'', ''inventory:publish'', ''course:finalize'',
     chapter_task_key ''ch1'', unit_task_key ''ch1'' 0, validate_task_key ''ch1'']"
  by code_simp

lemma example_plan_accepted: "plan_accepted example_plan"
proof -
  have "plan_shape_ok example_plan"
    by (simp add: plan_shape_ok_def example_plan_def chapter_valid_def unit_valid_def example_patterns
        manifest_limits del: replicate.simps)
  moreover have "list_all entry_valid (plan_entries example_plan)"
    using example_keys
    by (simp add: plan_entries_def example_plan_def entry_valid_def single_entry_def blueprint_entry_def
        content_entries_def unit_entries_def unit_entry_def example_deterministic budget_of_def
        example_budget_within enumerate_eq_zip)
  moreover have "length (plan_entries example_plan) \<le> MAX_TASKS"
    by (simp add: plan_entries_def example_plan_def content_entries_def unit_entries_def manifest_limits)
  ultimately show ?thesis by (simp add: plan_accepted_def)
qed

lemma example_plan_built: "buildOrchestrationV2Manifest example_sha example_plan = Inr (built_manifest example_sha example_plan)"
  by (simp add: build_iff example_plan_accepted)

theorem built_manifest_runs_to_completion_witness:
  "runs tk_key tk_depends_on (mf_tasks (built_manifest example_sha example_plan)) {}
     (tk_key ` set (mf_tasks (built_manifest example_sha example_plan)))"
  using built_manifest_runs_to_completion [OF example_plan_built, of "{}"] by simp

end
