(* ===== verification/Manifest_Seal.thy ===== *)
theory Manifest_Seal
  imports Manifest
begin

text \<open>
  The runtime manifest (ai-id/shared/lesson-author-orchestration-v2.logic.ts): the persisted tasks of a
  run sealed under one hash (\<open>sealOrchestrationV2PersistedManifest\<close>), and the completion gate
  (\<open>completeOrchestrationV2\<close>).
\<close>

record persisted_task =
  pt_ordinal :: int
  pt_key :: string
  pt_kind :: task_kind
  pt_chapter_key :: "string option"
  pt_node_id :: "string option"
  pt_contract_hash :: string
  pt_input_context_hash :: "string option"
  pt_priority :: int
  pt_max_attempts :: int
  pt_depends_on :: "string list"
  pt_budget :: budget

type_synonym persisted_manifest = "persisted_task manifest_of"

section \<open>Sealing the persisted tasks\<close>

definition provider_kind :: "task_kind \<Rightarrow> bool" where
  "provider_kind k \<longleftrightarrow> k \<in> {Course_skeleton, Chapter_blueprint, Generate_unit}"

definition seal_task :: "persisted_task \<Rightarrow> manifest_error + persisted_task" where
  "seal_task t = bindE (budget_of (pt_budget t) (provider_kind (pt_kind t)))
     (\<lambda>b. Inr (t\<lparr>pt_budget := b\<rparr>))"

definition opt_ok :: "('a \<Rightarrow> bool) \<Rightarrow> 'a option \<Rightarrow> bool" where
  "opt_ok P x = (case x of None \<Rightarrow> True | Some a \<Rightarrow> P a)"

definition row_valid :: "nat \<Rightarrow> string set \<Rightarrow> persisted_task \<Rightarrow> bool" where
  "row_valid i keys t \<longleftrightarrow> pt_ordinal t = int i \<and> is_key (pt_key t) \<and> pt_key t \<notin> keys
     \<and> opt_ok is_key (pt_chapter_key t) \<and> opt_ok isUuid (pt_node_id t) \<and> is_hash (pt_contract_hash t)
     \<and> opt_ok is_hash (pt_input_context_hash t) \<and> safeInteger (pt_priority t) 0 1000
     \<and> safeInteger (pt_max_attempts t) 1 2 \<and> distinct (pt_depends_on t)"

fun check_rows :: "nat \<Rightarrow> string set \<Rightarrow> persisted_task list \<Rightarrow> bool" where
  "check_rows i keys [] = True"
| "check_rows i keys (t # ts) = (row_valid i keys t \<and> check_rows (Suc i) (insert (pt_key t) keys) ts)"

definition by_kind :: "task_kind \<Rightarrow> persisted_task list \<Rightarrow> persisted_task list" where
  "by_kind k ts = filter (\<lambda>t. pt_kind t = k) ts"

definition kinds_complete :: "persisted_task list \<Rightarrow> bool" where
  "kinds_complete ts \<longleftrightarrow>
     (let chapters = by_kind Validate_chapter ts; units = by_kind Generate_unit ts in
      list_all (\<lambda>k. length (by_kind k ts) = 1)
        [Source_snapshot, Course_skeleton, Validate_architecture, Publish_inventory, Finalize_course]
      \<and> by_kind Chapter_blueprint ts \<noteq> [] \<and> units \<noteq> [] \<and> chapters \<noteq> []
      \<and> None \<notin> pt_chapter_key ` set chapters \<and> distinct (map pt_chapter_key chapters)
      \<and> list_all (\<lambda>u. pt_chapter_key u \<noteq> None \<and> pt_node_id u \<noteq> None
           \<and> pt_chapter_key u \<in> pt_chapter_key ` set chapters) units
      \<and> list_all (\<lambda>c. pt_node_id c \<noteq> None) chapters)"

text \<open>The one task key of a kind; the source reads it after checking that there is exactly one.\<close>

definition key_of :: "task_kind \<Rightarrow> persisted_task list \<Rightarrow> string" where
  "key_of k ts = (case by_kind k ts of [] \<Rightarrow> [] | t # _ \<Rightarrow> pt_key t)"

definition deps_of :: "task_kind \<Rightarrow> persisted_task list \<Rightarrow> string list" where
  "deps_of k ts = (case by_kind k ts of [] \<Rightarrow> [] | t # _ \<Rightarrow> pt_depends_on t)"

definition pipeline_shape :: "persisted_task list \<Rightarrow> bool" where
  "pipeline_shape ts \<longleftrightarrow>
     (let chapters = by_kind Validate_chapter ts; units = by_kind Generate_unit ts in
      deps_of Source_snapshot ts = []
      \<and> deps_of Course_skeleton ts = [key_of Source_snapshot ts]
      \<and> list_all (\<lambda>t. pt_depends_on t = [key_of Course_skeleton ts]) (by_kind Chapter_blueprint ts)
      \<and> deps_of Validate_architecture ts = map pt_key (by_kind Chapter_blueprint ts)
      \<and> deps_of Publish_inventory ts = [key_of Validate_architecture ts]
      \<and> list_all (\<lambda>t. pt_depends_on t = [key_of Publish_inventory ts]) units
      \<and> list_all (\<lambda>c. pt_depends_on c =
            map pt_key (filter (\<lambda>u. pt_chapter_key u = pt_chapter_key c) units)) chapters
      \<and> deps_of Finalize_course ts = map pt_key chapters)"

definition persisted_task_json :: "persisted_task \<Rightarrow> jsval" where
  "persisted_task_json t = JObj [(''ordinal'', JInt (pt_ordinal t)), (''task_key'', JStr (pt_key t)),
     (''kind'', JStr (kind_text (pt_kind t))), (''chapter_key'', json_opt (pt_chapter_key t)),
     (''node_id'', json_opt (pt_node_id t)), (''contract_hash'', JStr (pt_contract_hash t)),
     (''input_context_hash'', json_opt (pt_input_context_hash t)), (''priority'', JInt (pt_priority t)),
     (''max_attempts'', JInt (pt_max_attempts t)), (''depends_on'', JArr (map JStr (pt_depends_on t))),
     (''budget'', budget_json (pt_budget t))]"

definition sealOrchestrationV2PersistedManifest ::
    "(string \<Rightarrow> string) \<Rightarrow> string \<Rightarrow> persisted_task list \<Rightarrow> manifest_error + persisted_manifest" where
  "sealOrchestrationV2PersistedManifest sha src rows =
     ensure Input_invalid (is_hash src \<and> 8 \<le> length rows \<and> length rows \<le> MAX_TASKS)
      (bindE (mapE seal_task (sort_key pt_ordinal rows)) (\<lambda>tasks.
        ensure Input_invalid (check_rows 0 {} tasks)
         (ensure Dependency_invalid (dependencies_ok pt_key pt_ordinal pt_depends_on tasks)
          (ensure Input_invalid (kinds_complete tasks)
           (ensure Dependency_invalid (pipeline_shape tasks)
            (bindE (sum_budgets 0 0 (map pt_budget tasks)) (\<lambda>(ceiling, exec).
              ensure Budget_invalid (1 \<le> ceiling \<and> 1 \<le> exec)
               (bindE (orchestrationV2Hash sha (content_json persisted_task_json src tasks ceiling exec))
                 (\<lambda>h. Inr \<lparr>mf_source_snapshot_hash = src, mf_tasks = tasks,
                        mf_token_ceiling = ceiling, mf_execution_budget_ms = exec, mf_hash = h\<rparr>)))))))))"

section \<open>The completion gate\<close>

record 'task completion_input =
  ci_manifest :: "'task manifest_of"
  ci_succeeded_task_keys :: "string list"
  ci_admitted_fact_count :: int
  ci_allocated_fact_count :: int
  ci_covered_fact_count :: int
  ci_duplicate_fact_count :: int
  ci_unresolved_fact_count :: int
  ci_chapter_receipt_count :: int

record completion_receipt =
  cr_manifest_hash :: string
  cr_task_count :: int
  cr_admitted_fact_count :: int
  cr_allocated_fact_count :: int
  cr_covered_fact_count :: int
  cr_chapter_receipt_count :: int
  cr_receipt_hash :: string

definition manifest_content :: "('t \<Rightarrow> jsval) \<Rightarrow> 't manifest_of \<Rightarrow> jsval" where
  "manifest_content tj m = content_json tj (mf_source_snapshot_hash m) (mf_tasks m)
     (mf_token_ceiling m) (mf_execution_budget_ms m)"

definition receipt_json :: "string \<Rightarrow> int \<Rightarrow> int \<Rightarrow> int \<Rightarrow> int \<Rightarrow> int \<Rightarrow> jsval" where
  "receipt_json h n admitted allocated covered chapters = JObj
     [(''contract'', JStr ''lesson-author-course-completion-v2''), (''manifest_hash'', JStr h),
      (''task_count'', JInt n), (''admitted_fact_count'', JInt admitted),
      (''allocated_fact_count'', JInt allocated), (''covered_fact_count'', JInt covered),
      (''chapter_receipt_count'', JInt chapters),
      (''checks'', JObj [(''tasks'', JStr ''PASS''), (''allocation'', JStr ''PASS''),
         (''coverage'', JStr ''PASS''), (''duplicates'', JStr ''PASS''), (''chapters'', JStr ''PASS'')])]"

definition counts_complete :: "('t \<Rightarrow> string) \<Rightarrow> ('t \<Rightarrow> task_kind) \<Rightarrow> 't completion_input \<Rightarrow> bool" where
  "counts_complete key kind ci \<longleftrightarrow>
     (let tasks = mf_tasks (ci_manifest ci); succeeded = set (ci_succeeded_task_keys ci);
          admitted = ci_admitted_fact_count ci in
      card succeeded = length tasks \<and> list_all (\<lambda>t. key t \<in> succeeded) tasks
      \<and> safeInteger admitted 1 10000000
      \<and> ci_allocated_fact_count ci = admitted \<and> ci_covered_fact_count ci = admitted
      \<and> ci_duplicate_fact_count ci = 0 \<and> ci_unresolved_fact_count ci = 0
      \<and> ci_chapter_receipt_count ci = int (length (filter (\<lambda>t. kind t = Validate_chapter) tasks)))"

text \<open>
  The gate reads the key, the kind and the canonical content of a task, so it takes planned and
  persisted manifests alike.
\<close>

definition completeOrchestrationV2 :: "(string \<Rightarrow> string) \<Rightarrow> ('t \<Rightarrow> jsval) \<Rightarrow> ('t \<Rightarrow> string)
    \<Rightarrow> ('t \<Rightarrow> task_kind) \<Rightarrow> 't completion_input \<Rightarrow> manifest_error + completion_receipt" where
  "completeOrchestrationV2 sha tj key kind ci =
     bindE (orchestrationV2Hash sha (manifest_content tj (ci_manifest ci))) (\<lambda>h.
      ensure Input_invalid (h = mf_hash (ci_manifest ci))
       (ensure Completeness_failed (counts_complete key kind ci)
         (let n = int (length (mf_tasks (ci_manifest ci))) in
          bindE (orchestrationV2Hash sha (receipt_json (mf_hash (ci_manifest ci)) n (ci_admitted_fact_count ci)
             (ci_allocated_fact_count ci) (ci_covered_fact_count ci) (ci_chapter_receipt_count ci)))
           (\<lambda>r. Inr \<lparr>cr_manifest_hash = mf_hash (ci_manifest ci), cr_task_count = n,
              cr_admitted_fact_count = ci_admitted_fact_count ci,
              cr_allocated_fact_count = ci_allocated_fact_count ci,
              cr_covered_fact_count = ci_covered_fact_count ci,
              cr_chapter_receipt_count = ci_chapter_receipt_count ci, cr_receipt_hash = r\<rparr>))))"

section \<open>What sealing accepts\<close>

lemma plain_persisted_task_json [simp]: "plain (persisted_task_json t)"
  by (simp add: persisted_task_json_def)

lemma plain_manifest_content: "(\<And>t. plain (tj t)) \<Longrightarrow> plain (manifest_content tj m)"
  by (simp add: manifest_content_def plain_content_json)

lemma plain_receipt_json [simp]: "plain (receipt_json h n a al c ch)"
  by (simp add: receipt_json_def)

definition rows_valid :: "persisted_task list \<Rightarrow> bool" where
  "rows_valid ts \<longleftrightarrow> list_all (\<lambda>t. budget_within (pt_budget t) (provider_kind (pt_kind t))) ts
     \<and> check_rows 0 {} ts \<and> dependencies_ok pt_key pt_ordinal pt_depends_on ts
     \<and> kinds_complete ts \<and> pipeline_shape ts"

definition seal_accepted :: "string \<Rightarrow> persisted_task list \<Rightarrow> bool" where
  "seal_accepted src rows \<longleftrightarrow> is_hash src \<and> 8 \<le> length rows \<and> length rows \<le> MAX_TASKS
     \<and> rows_valid (sort_key pt_ordinal rows)"

definition sealed_manifest :: "(string \<Rightarrow> string) \<Rightarrow> string \<Rightarrow> persisted_task list \<Rightarrow> persisted_manifest" where
  "sealed_manifest sha src rows = (let ts = sort_key pt_ordinal rows; bs = map pt_budget ts in
     \<lparr>mf_source_snapshot_hash = src, mf_tasks = ts, mf_token_ceiling = token_total bs,
      mf_execution_budget_ms = execution_total bs,
      mf_hash = sha (canon (content_json persisted_task_json src ts (token_total bs) (execution_total bs)))\<rparr>)"

lemma seal_task_Inr: "seal_task t = Inr t' \<longleftrightarrow> budget_within (pt_budget t) (provider_kind (pt_kind t)) \<and> t' = t"
  by (auto simp: seal_task_def budget_of_Inr)

lemma mapE_seal_task:
  "mapE seal_task ts = Inr r \<longleftrightarrow> list_all (\<lambda>t. budget_within (pt_budget t) (provider_kind (pt_kind t))) ts \<and> r = ts"
  by (induction ts arbitrary: r) (auto simp: seal_task_Inr)

lemma by_kind_one: "length (by_kind k ts) = 1 \<Longrightarrow> \<exists>t \<in> set ts. pt_kind t = k"
  by (cases "by_kind k ts") (auto simp: by_kind_def filter_eq_Cons_iff)

lemma totals_positive:
  assumes "list_all (\<lambda>t. budget_within (pt_budget t) (provider_kind (pt_kind t))) ts" "kinds_complete ts"
  shows "1 \<le> token_total (map pt_budget ts)" "1 \<le> execution_total (map pt_budget ts)"
proof -
  from assms(2) have "length (by_kind Course_skeleton ts) = 1"
    by (auto simp: kinds_complete_def Let_def)
  then obtain t where t: "t \<in> set ts" "pt_kind t = Course_skeleton" using by_kind_one by blast
  then have w: "budget_within (pt_budget t) True" using assms(1) by (auto simp: list_all_iff provider_kind_def)
  have all: "\<exists>p. budget_within b p" if "b \<in> set (map pt_budget ts)" for b
    using assms(1) that by (auto simp: list_all_iff)
  have "\<And>b. b \<in> set (map pt_budget ts) \<Longrightarrow> 0 \<le> task_tokens b" using all budget_bounds(1) by blast
  then have "task_tokens (pt_budget t) \<le> token_total (map pt_budget ts)"
    unfolding token_total_def using t by (intro member_le_sum_list) auto
  then show "1 \<le> token_total (map pt_budget ts)" using provider_tokens_positive [OF w] by simp
  have "\<And>b. b \<in> set (map pt_budget ts) \<Longrightarrow> 0 \<le> execution_budget_ms b" using all budget_bounds(3) by force
  then have "execution_budget_ms (pt_budget t) \<le> execution_total (map pt_budget ts)"
    unfolding execution_total_def using t by (intro member_le_sum_list) auto
  then show "1 \<le> execution_total (map pt_budget ts)" using budget_bounds(3) [OF w] by simp
qed

lemma seal_iff: "sealOrchestrationV2PersistedManifest sha src rows = Inr m
    \<longleftrightarrow> seal_accepted src rows \<and> m = sealed_manifest sha src rows"
proof (cases "seal_accepted src rows")
  case True
  let ?ts = "sort_key pt_ordinal rows"
  from True have w: "list_all (\<lambda>t. budget_within (pt_budget t) (provider_kind (pt_kind t))) ?ts"
    and k: "kinds_complete ?ts" by (auto simp: seal_accepted_def rows_valid_def)
  have "sum_budgets 0 0 (map pt_budget ?ts) = Inr (token_total (map pt_budget ?ts), execution_total (map pt_budget ?ts))"
    using w True by (intro sum_budgets_within) (auto simp: list_all_iff seal_accepted_def)
  then show ?thesis using True totals_positive [OF w k]
    by (auto simp: sealOrchestrationV2PersistedManifest_def seal_accepted_def rows_valid_def
        sealed_manifest_def Let_def hash_plain plain_content_json mapE_seal_task)
next
  case False
  then show ?thesis
    by (auto simp: sealOrchestrationV2PersistedManifest_def seal_accepted_def rows_valid_def mapE_seal_task)
qed

section \<open>Sealed manifests are task graphs\<close>

lemma check_rows_facts:
  "check_rows n keys ts \<Longrightarrow> (\<forall>i < length ts. pt_ordinal (ts ! i) = int (n + i))
    \<and> distinct (map pt_key ts) \<and> keys \<inter> pt_key ` set ts = {}"
proof (induction ts arbitrary: n keys)
  case (Cons t ts)
  then have "row_valid n keys t" "check_rows (Suc n) (insert (pt_key t) keys) ts" by auto
  with Cons.IH [of "Suc n" "insert (pt_key t) keys"] show ?case
    by (auto simp: row_valid_def less_Suc_eq_0_disj)
qed simp

lemma check_rows_inj: "check_rows 0 {} ts \<Longrightarrow> inj_on pt_ordinal (set ts)"
  by (auto dest!: check_rows_facts simp: inj_on_def in_set_conv_nth)

definition runtime_manifest :: "persisted_manifest \<Rightarrow> bool" where
  "runtime_manifest m \<longleftrightarrow> (\<exists>sha src rows. sealOrchestrationV2PersistedManifest sha src rows = Inr m)"

lemma runtime_manifest_rows: "runtime_manifest m \<Longrightarrow> rows_valid (mf_tasks m)"
  by (auto simp: runtime_manifest_def seal_iff seal_accepted_def sealed_manifest_def Let_def)

lemma rows_valid_facts:
  assumes "rows_valid ts"
  shows "i < length ts \<Longrightarrow> pt_ordinal (ts ! i) = int i" "distinct (map pt_key ts)"
    "\<forall>t \<in> set ts. \<forall>d \<in> set (pt_depends_on t). \<exists>u \<in> set ts. pt_key u = d \<and> pt_ordinal u < pt_ordinal t"
  using assms check_rows_facts [of 0 "{}" ts] by (auto simp: rows_valid_def dependencies_ok_iff)

interpretation sealed: task_graph runtime_manifest mf_tasks pt_key pt_ordinal pt_depends_on
  by unfold_locales (auto dest!: runtime_manifest_rows simp: rows_valid_facts)

section \<open>Equal canonical texts\<close>

lemma norm_obj_fields:
  assumes "norm (JObj ps) = norm (JObj qs)" "distinct (map fst ps)" "distinct (map fst qs)"
  shows "map_option norm (map_of ps k) = map_option norm (map_of qs k)"
proof -
  let ?n = "map (map_prod id norm)"
  have "sort_key fst (?n ps) = sort_key fst (?n qs)" using assms(1) by simp
  then have "set (?n ps) = set (?n qs)" by (metis set_sort)
  then have "map_of (?n ps) = map_of (?n qs)"
    using assms(2,3) by (subst map_of_inject_set) simp_all
  then have "map_of (?n ps) k = map_of (?n qs) k" by simp
  then show ?thesis by (simp add: map_prod_def map_of_map)
qed

lemma norm_json_opt: "norm (json_opt x) = norm (json_opt y) \<longleftrightarrow> x = y"
  by (cases x; cases y) (simp_all add: json_opt_def)

lemma norm_strings: "map norm (map JStr xs) = map norm (map JStr ys) \<longleftrightarrow> xs = ys"
proof -
  have "inj (norm \<circ> JStr)" by (rule injI) simp
  then show ?thesis by (simp add: inj_map_eq_map)
qed

lemma kind_text_inj: "kind_text k = kind_text k' \<longleftrightarrow> k = k'"
  by (cases k; cases k') simp_all

lemma norm_budget_json:
  assumes "norm (budget_json b) = norm (budget_json b')"
  shows "b = b'"
proof -
  note f = norm_obj_fields [OF assms [unfolded budget_json_def]]
  show ?thesis
    using f [of "''input_tokens''"] f [of "''embedding_tokens''"] f [of "''max_output_tokens''"]
      f [of "''max_provider_attempts''"] f [of "''execution_budget_ms''"]
    by (cases b; cases b') simp
qed

lemma norm_persisted_task_json:
  assumes "norm (persisted_task_json t) = norm (persisted_task_json u)"
  shows "t = u"
proof -
  note f = norm_obj_fields [OF assms [unfolded persisted_task_json_def]]
  have "pt_ordinal t = pt_ordinal u" using f [of "''ordinal''"] by simp
  moreover have "pt_key t = pt_key u" using f [of "''task_key''"] by simp
  moreover have "pt_kind t = pt_kind u" using f [of "''kind''"] by (simp add: kind_text_inj)
  moreover have "pt_chapter_key t = pt_chapter_key u" using f [of "''chapter_key''"] by (simp add: norm_json_opt)
  moreover have "pt_node_id t = pt_node_id u" using f [of "''node_id''"] by (simp add: norm_json_opt)
  moreover have "pt_contract_hash t = pt_contract_hash u" using f [of "''contract_hash''"] by simp
  moreover have "pt_input_context_hash t = pt_input_context_hash u"
    using f [of "''input_context_hash''"] by (simp add: norm_json_opt)
  moreover have "pt_priority t = pt_priority u" using f [of "''priority''"] by simp
  moreover have "pt_max_attempts t = pt_max_attempts u" using f [of "''max_attempts''"] by simp
  moreover have "pt_depends_on t = pt_depends_on u"
    using f [of "''depends_on''"] norm_strings [of "pt_depends_on t" "pt_depends_on u"] by simp
  moreover have "pt_budget t = pt_budget u" using f [of "''budget''"] norm_budget_json by simp
  ultimately show ?thesis by (cases t; cases u) simp
qed

lemma norm_content_json:
  assumes "norm (content_json tj src ts c x) = norm (content_json tj src' ts' c' x')"
  shows "src = src' \<and> map norm (map tj ts) = map norm (map tj ts') \<and> c = c' \<and> x = x'"
proof -
  note f = norm_obj_fields [OF assms [unfolded content_json_def]]
  show ?thesis
    using f [of "''source_snapshot_hash''"] f [of "''tasks''"] f [of "''token_ceiling''"]
      f [of "''execution_budget_ms''"] by simp
qed

section \<open>A planned graph seals\<close>

text \<open>A planned task as a persisted row, with any input context, priority and attempt limit.\<close>

definition persisted_row :: "(task \<Rightarrow> string option) \<Rightarrow> (task \<Rightarrow> int) \<Rightarrow> (task \<Rightarrow> int) \<Rightarrow> task \<Rightarrow> persisted_task" where
  "persisted_row ctx prio att t = \<lparr>pt_ordinal = tk_ordinal t, pt_key = tk_key t, pt_kind = tk_kind t,
     pt_chapter_key = tk_chapter_key t, pt_node_id = tk_node_id t, pt_contract_hash = tk_contract_hash t,
     pt_input_context_hash = ctx t, pt_priority = prio t, pt_max_attempts = att t,
     pt_depends_on = tk_depends_on t, pt_budget = tk_budget t\<rparr>"

definition row_extras_ok :: "(task \<Rightarrow> string option) \<Rightarrow> (task \<Rightarrow> int) \<Rightarrow> (task \<Rightarrow> int) \<Rightarrow> task \<Rightarrow> bool" where
  "row_extras_ok ctx prio att t \<longleftrightarrow> opt_ok is_hash (ctx t) \<and> safeInteger (prio t) 0 1000 \<and> safeInteger (att t) 1 2"

lemma persisted_row_sel [simp]:
  "pt_ordinal (persisted_row ctx prio att t) = tk_ordinal t" "pt_key (persisted_row ctx prio att t) = tk_key t"
  "pt_kind (persisted_row ctx prio att t) = tk_kind t"
  "pt_chapter_key (persisted_row ctx prio att t) = tk_chapter_key t"
  "pt_node_id (persisted_row ctx prio att t) = tk_node_id t"
  "pt_depends_on (persisted_row ctx prio att t) = tk_depends_on t"
  "pt_budget (persisted_row ctx prio att t) = tk_budget t"
  "pt_contract_hash (persisted_row ctx prio att t) = tk_contract_hash t"
  "pt_input_context_hash (persisted_row ctx prio att t) = ctx t"
  "pt_priority (persisted_row ctx prio att t) = prio t" "pt_max_attempts (persisted_row ctx prio att t) = att t"
  by (simp_all add: persisted_row_def)

lemma check_chapters_nodes:
  "check_units nodes us = Some nodes' \<Longrightarrow> \<forall>u \<in> set us. isUuid (un_node_id u)"
  "check_chapters keys nodes cs \<Longrightarrow> \<forall>c \<in> set cs. is_key (ch_key c) \<and> isUuid (ch_node_id c) \<and> ch_units c \<noteq> []
     \<and> (\<forall>u \<in> set (ch_units c). isUuid (un_node_id u))"
proof -
  show units: "check_units nodes us = Some nodes' \<Longrightarrow> \<forall>u \<in> set us. isUuid (un_node_id u)" for nodes us nodes'
    by (induction us arbitrary: nodes) (auto simp: unit_valid_def split: if_splits)
  show "check_chapters keys nodes cs \<Longrightarrow> \<forall>c \<in> set cs. is_key (ch_key c) \<and> isUuid (ch_node_id c) \<and> ch_units c \<noteq> []
     \<and> (\<forall>u \<in> set (ch_units c). isUuid (un_node_id u))"
    by (induction cs arbitrary: keys nodes) (auto simp: chapter_valid_def dest: units split: option.splits)
qed

lemma plan_chapters_valid:
  assumes "plan_shape_ok inp" "c \<in> set (pi_chapters inp)"
  shows "is_key (ch_key c)" "isUuid (ch_node_id c)" "ch_units c \<noteq> []"
    "u \<in> set (ch_units c) \<Longrightarrow> isUuid (un_node_id u)"
  using assms check_chapters_nodes(2) by (auto simp: plan_shape_ok_def)

lemma set_enumerate_snd: "iu \<in> set (enumerate n xs) \<Longrightarrow> snd iu \<in> set xs"
  by (metis in_set_zip enumerate_eq_zip nth_mem)

lemma plan_entry_ids:
  assumes "plan_shape_ok inp" "e \<in> set (plan_entries inp)"
  shows "opt_ok is_key (en_chapter_key e) \<and> opt_ok isUuid (en_node_id e)"
  using assms plan_chapters_valid [OF assms(1)]
  by (auto simp: plan_entries_def single_entry_def blueprint_entry_def content_entries_def unit_entries_def
      unit_entry_def opt_ok_def dest: set_enumerate_snd)

lemma plan_entry_deps:
  assumes "plan_shape_ok inp" "e \<in> set (plan_entries inp)"
  shows "distinct (en_depends_on e)"
proof -
  let ?cs = "pi_chapters inp"
  note d = plan_chapter_keys [OF assms(1)]
  have a: "distinct (map (\<lambda>c. chapter_task_key (ch_key c)) ?cs)"
    using d by (auto simp: distinct_map inj_on_def chapter_task_key_inj)
  have v: "distinct (map (\<lambda>c. validate_task_key (ch_key c)) ?cs)"
    using d by (auto simp: distinct_map inj_on_def validate_task_key_inj)
  have u: "distinct (map en_key (unit_entries c))" for c
    using content_keys_distinct [of inp c] by (simp add: content_entries_def)
  show ?thesis using assms(2) a v u
    by (auto simp: plan_entries_def single_entry_def blueprint_entry_def content_entries_def unit_entries_def
        unit_entry_def)
qed

lemma plan_entry_within:
  assumes "e \<in> set (plan_entries inp)" "ok (en_budget e)"
  shows "budget_within (projr (en_budget e)) (provider_kind (en_kind e))"
proof -
  have "\<exists>b. en_budget e = budget_of b (provider_kind (en_kind e))"
    using assms(1) by (auto simp: plan_entries_def single_entry_def blueprint_entry_def content_entries_def
      unit_entries_def unit_entry_def deterministicBudget_def provider_kind_def)
  with assms(2) show ?thesis by (auto simp: ok_iff budget_of_def ensure_def split: if_splits)
qed

lemma check_rows_intro:
  "\<forall>i < length ts. row_valid (n + i) {} (ts ! i) \<Longrightarrow> distinct (map pt_key ts) \<Longrightarrow> keys \<inter> pt_key ` set ts = {}
    \<Longrightarrow> check_rows n keys ts"
proof (induction ts arbitrary: n keys)
  case (Cons t ts)
  have "row_valid (n + 0) {} ((t # ts) ! 0)" using Cons.prems(1) by blast
  then have "row_valid n keys t" using Cons.prems(3) by (auto simp: row_valid_def)
  moreover have "check_rows (Suc n) (insert (pt_key t) keys) ts"
  proof (rule Cons.IH)
    show "\<forall>i < length ts. row_valid (Suc n + i) {} (ts ! i)"
    proof (intro allI impI)
      fix i assume "i < length ts"
      with Cons.prems(1) have "row_valid (n + Suc i) {} ((t # ts) ! Suc i)" by (metis Suc_less_eq length_Cons)
      then show "row_valid (Suc n + i) {} (ts ! i)" by simp
    qed
  qed (use Cons.prems in auto)
  ultimately show ?case by simp
qed simp

definition entries_of :: "task_kind \<Rightarrow> plan_input \<Rightarrow> entry list" where
  "entries_of k inp = filter (\<lambda>e. en_kind e = k) (plan_entries inp)"

definition validate_entry :: "plan_input \<Rightarrow> chapter_spec \<Rightarrow> entry" where
  "validate_entry inp c = last (content_entries inp c)"

lemma content_by_kind:
  "filter (\<lambda>e. en_kind e = k) (content_entries inp c) =
     (if k = Generate_unit then unit_entries c else if k = Validate_chapter then [validate_entry inp c] else [])"
  by (auto simp: content_entries_def validate_entry_def unit_entries_def unit_entry_def filter_empty_conv
      intro!: filter_True)

lemma validate_entry_sel [simp]:
  "en_key (validate_entry inp c) = validate_task_key (ch_key c)" "en_kind (validate_entry inp c) = Validate_chapter"
  "en_chapter_key (validate_entry inp c) = Some (ch_key c)" "en_node_id (validate_entry inp c) = Some (ch_node_id c)"
  "en_depends_on (validate_entry inp c) = map en_key (unit_entries c)"
  by (simp_all add: validate_entry_def content_entries_def)

lemma blueprint_by_kind:
  "filter (\<lambda>e. en_kind e = k) (map blueprint_entry cs) = (if k = Chapter_blueprint then map blueprint_entry cs else [])"
  by (auto simp: blueprint_entry_def filter_empty_conv intro!: filter_True)

lemma contents_by_kind:
  "filter (\<lambda>e. en_kind e = k) (concat (map (content_entries inp) cs)) =
     (if k = Generate_unit then concat (map unit_entries cs)
      else if k = Validate_chapter then map (validate_entry inp) cs else [])"
  by (induction cs) (auto simp: content_by_kind)

lemma single_entry_kind: "en_kind (single_entry k kind deps b) = kind" by (simp add: single_entry_def)

lemma entries_of_simps:
  "map en_key (entries_of Source_snapshot inp) = [''source:snapshot'']"
  "map en_depends_on (entries_of Source_snapshot inp) = [[]]"
  "map en_key (entries_of Course_skeleton inp) = [''architecture:course'']"
  "map en_depends_on (entries_of Course_skeleton inp) = [[''source:snapshot'']]"
  "entries_of Chapter_blueprint inp = map blueprint_entry (pi_chapters inp)"
  "map en_key (entries_of Validate_architecture inp) = [''architecture:validate'']"
  "map en_depends_on (entries_of Validate_architecture inp) = [map (\<lambda>c. chapter_task_key (ch_key c)) (pi_chapters inp)]"
  "map en_key (entries_of Publish_inventory inp) = [''inventory:publish'']"
  "map en_depends_on (entries_of Publish_inventory inp) = [[''architecture:validate'']]"
  "entries_of Generate_unit inp = concat (map unit_entries (pi_chapters inp))"
  "entries_of Validate_chapter inp = map (validate_entry inp) (pi_chapters inp)"
  "map en_depends_on (entries_of Finalize_course inp) = [map (\<lambda>c. validate_task_key (ch_key c)) (pi_chapters inp)]"
  by (simp_all only: entries_of_def plan_entries_def filter_append blueprint_by_kind contents_by_kind)
    (simp_all add: single_entry_def)

definition planned_rows where
  "planned_rows sha ctx prio att inp = map (persisted_row ctx prio att) (made_tasks sha 0 (plan_entries inp))"

lemma by_kind_made:
  assumes "\<And>n e. f (persisted_row ctx prio att (made_task sha n e)) = g e"
  shows "map f (by_kind k (map (persisted_row ctx prio att) (made_tasks sha n es))) = map g (filter (\<lambda>e. en_kind e = k) es)"
  by (induction es arbitrary: n) (auto simp: by_kind_def assms)

lemma by_kind_planned:
  assumes "\<And>n e. f (persisted_row ctx prio att (made_task sha n e)) = g e"
  shows "map f (by_kind k (planned_rows sha ctx prio att inp)) = map g (entries_of k inp)"
  unfolding planned_rows_def entries_of_def by (rule by_kind_made) (rule assms)

lemma by_kind_chapter:
  "map pt_key (filter (\<lambda>u. pt_chapter_key u = k') (by_kind k (planned_rows sha ctx prio att inp)))
     = map en_key (filter (\<lambda>e. en_chapter_key e = k') (entries_of k inp))"
proof -
  have "map pt_key (filter (\<lambda>u. pt_chapter_key u = k') (by_kind k (map (persisted_row ctx prio att) (made_tasks sha n es))))
     = map en_key (filter (\<lambda>e. en_chapter_key e = k') (filter (\<lambda>e. en_kind e = k) es))" for n es
    by (induction es arbitrary: n) (auto simp: by_kind_def)
  then show ?thesis by (simp add: planned_rows_def entries_of_def)
qed

lemma by_kind_member:
  assumes "t \<in> set (by_kind k (planned_rows sha ctx prio att inp))"
  obtains e where "e \<in> set (entries_of k inp)" "pt_key t = en_key e" "pt_chapter_key t = en_chapter_key e"
    "pt_node_id t = en_node_id e" "pt_depends_on t = en_depends_on e"
proof -
  from assms obtain i where "i < length (plan_entries inp)"
    "t = persisted_row ctx prio att (made_task sha i (plan_entries inp ! i))" "pt_kind t = k"
    by (auto simp: by_kind_def planned_rows_def in_set_conv_nth made_tasks_nth)
  then show ?thesis by (intro that [of "plan_entries inp ! i"]) (auto simp: entries_of_def)
qed

lemma key_of_planned: "map en_key (entries_of k inp) = [x] \<Longrightarrow> key_of k (planned_rows sha ctx prio att inp) = x"
  using by_kind_planned [of pt_key ctx prio att sha en_key k inp]
  by (cases "by_kind k (planned_rows sha ctx prio att inp)") (auto simp: key_of_def)

lemma deps_of_planned: "map en_depends_on (entries_of k inp) = [x] \<Longrightarrow> deps_of k (planned_rows sha ctx prio att inp) = x"
  using by_kind_planned [of pt_depends_on ctx prio att sha en_depends_on k inp]
  by (cases "by_kind k (planned_rows sha ctx prio att inp)") (auto simp: deps_of_def)


lemma units_of_chapter:
  "distinct (map ch_key cs) \<Longrightarrow> c \<in> set cs
    \<Longrightarrow> filter (\<lambda>e. en_chapter_key e = Some (ch_key c)) (concat (map unit_entries cs)) = unit_entries c"
proof (induction cs)
  case (Cons a cs)
  have other: "filter (\<lambda>e. en_chapter_key e = Some k) (concat (map unit_entries xs)) = []"
    if "k \<notin> ch_key ` set xs" for k xs
    using that by (auto simp: filter_empty_conv unit_entries_def unit_entry_def)
  have own: "filter (\<lambda>e. en_chapter_key e = Some (ch_key x)) (unit_entries x) = unit_entries x" for x
    by (auto simp: unit_entries_def unit_entry_def intro!: filter_True)
  have apart: "filter (\<lambda>e. en_chapter_key e = Some k) (unit_entries x) = []" if "k \<noteq> ch_key x" for k x
    using that by (auto simp: filter_empty_conv unit_entries_def unit_entry_def)
  show ?case
  proof (cases "c = a")
    case True
    with Cons.prems show ?thesis by (simp add: own other del: map_concat)
  next
    case False
    with Cons.prems have "c \<in> set cs" "ch_key c \<noteq> ch_key a" by (auto simp: image_iff)
    with Cons show ?thesis by (simp add: apart)
  qed
qed simp

lemma unit_entries_empty: "unit_entries c = [] \<longleftrightarrow> ch_units c = []"
  by (cases "ch_units c") (simp_all add: unit_entries_def)

lemma planned_kinds_complete:
  assumes "plan_shape_ok inp"
  shows "kinds_complete (planned_rows sha ctx prio att inp)"
proof -
  let ?rows = "planned_rows sha ctx prio att inp" and ?cs = "pi_chapters inp"
  have len: "length (by_kind k ?rows) = length (entries_of k inp)" for k
    using by_kind_planned [of "\<lambda>_. ()" ctx prio att sha "\<lambda>_. ()" k inp] by (metis length_map)
  have one: "map en_key (entries_of k inp) = [x] \<Longrightarrow> length (entries_of k inp) = 1" for k x
    by (drule arg_cong [where f = length]) simp
  have fin: "length (entries_of Finalize_course inp) = 1"
    using arg_cong [OF entries_of_simps(12) [of inp], of length] by simp
  have ne: "?cs \<noteq> []" using assms by (auto simp: plan_shape_ok_def)
  have units: "concat (map unit_entries ?cs) \<noteq> []"
  proof -
    from ne obtain c cs where "?cs = c # cs" by (cases ?cs) auto
    then show ?thesis using plan_chapters_valid(3) [OF assms, of c] by (simp add: unit_entries_empty)
  qed
  have keys: "map pt_chapter_key (by_kind Validate_chapter ?rows) = map (\<lambda>c. Some (ch_key c)) ?cs"
    by (subst by_kind_planned [where g = en_chapter_key]) (auto simp: entries_of_simps)
  then have keyset: "pt_chapter_key ` set (by_kind Validate_chapter ?rows) = (\<lambda>c. Some (ch_key c)) ` set ?cs"
    by (metis image_set)
  have distinct: "distinct (map (\<lambda>c. Some (ch_key c)) ?cs)"
    using plan_chapter_keys [OF assms] by (auto simp: distinct_map inj_on_def)
  have unit: "pt_node_id u \<noteq> None \<and> pt_chapter_key u \<in> (\<lambda>c. Some (ch_key c)) ` set ?cs"
    if "u \<in> set (by_kind Generate_unit ?rows)" for u
    using that by (rule by_kind_member) (auto simp: entries_of_simps unit_entries_def unit_entry_def)
  have chap: "pt_node_id c \<noteq> None" if "c \<in> set (by_kind Validate_chapter ?rows)" for c
    using that by (rule by_kind_member) (auto simp: entries_of_simps)
  have "by_kind Chapter_blueprint ?rows \<noteq> []" "by_kind Generate_unit ?rows \<noteq> []" "by_kind Validate_chapter ?rows \<noteq> []"
    using len ne units by (metis entries_of_simps(5,10,11) length_0_conv map_is_Nil_conv)+
  moreover have "list_all (\<lambda>k. length (by_kind k ?rows) = 1)
      [Source_snapshot, Course_skeleton, Validate_architecture, Publish_inventory, Finalize_course]"
    using one entries_of_simps(1,3,6,8) fin by (simp add: len)
  ultimately show ?thesis
    unfolding kinds_complete_def Let_def keyset
    using keys distinct unit chap by (auto simp: list_all_iff)
qed

lemma planned_pipeline_shape:
  assumes "plan_shape_ok inp"
  shows "pipeline_shape (planned_rows sha ctx prio att inp)"
proof -
  let ?rows = "planned_rows sha ctx prio att inp" and ?cs = "pi_chapters inp"
  have blueprints: "map pt_key (by_kind Chapter_blueprint ?rows) = map (\<lambda>c. chapter_task_key (ch_key c)) ?cs"
    by (subst by_kind_planned [where g = en_key]) (auto simp: entries_of_simps blueprint_entry_def)
  have chapters: "map pt_key (by_kind Validate_chapter ?rows) = map (\<lambda>c. validate_task_key (ch_key c)) ?cs"
    by (subst by_kind_planned [where g = en_key]) (auto simp: entries_of_simps)
  have blueprint: "pt_depends_on t = [''architecture:course'']" if "t \<in> set (by_kind Chapter_blueprint ?rows)" for t
    using that by (rule by_kind_member) (auto simp: entries_of_simps blueprint_entry_def)
  have unit: "pt_depends_on t = [''inventory:publish'']" if "t \<in> set (by_kind Generate_unit ?rows)" for t
    using that by (rule by_kind_member) (auto simp: entries_of_simps unit_entries_def unit_entry_def)
  have chap: "pt_depends_on c = map pt_key (filter (\<lambda>u. pt_chapter_key u = pt_chapter_key c) (by_kind Generate_unit ?rows))"
    if "c \<in> set (by_kind Validate_chapter ?rows)" for c
    using that
  proof (rule by_kind_member)
    fix e
    assume "e \<in> set (entries_of Validate_chapter inp)" and c: "pt_chapter_key c = en_chapter_key e" "pt_depends_on c = en_depends_on e"
    then obtain ch where "ch \<in> set ?cs" "e = validate_entry inp ch" by (auto simp: entries_of_simps)
    then show ?thesis
      using c units_of_chapter [OF plan_chapter_keys [OF assms]] by (simp add: by_kind_chapter entries_of_simps)
  qed
  note keyof = key_of_planned [of _ inp _ sha ctx prio att]
  note depsof = deps_of_planned [of _ inp _ sha ctx prio att]
  show ?thesis
    unfolding pipeline_shape_def Let_def blueprints chapters
    by (simp only: keyof [OF entries_of_simps(1)] keyof [OF entries_of_simps(3)] keyof [OF entries_of_simps(6)]
        keyof [OF entries_of_simps(8)] depsof [OF entries_of_simps(2)] depsof [OF entries_of_simps(4)]
        depsof [OF entries_of_simps(7)] depsof [OF entries_of_simps(9)] depsof [OF entries_of_simps(12)])
      (auto simp: list_all_iff blueprint unit chap)
qed

lemma planned_rows_valid:
  assumes acc: "plan_accepted inp" and sha: "\<forall>t. is_hash (sha t)"
    and extras: "list_all (row_extras_ok ctx prio att) (made_tasks sha 0 (plan_entries inp))"
  shows "rows_valid (planned_rows sha ctx prio att inp)"
proof -
  let ?es = "plan_entries inp" and ?rows = "planned_rows sha ctx prio att inp"
  have shape: "plan_shape_ok inp" and valid: "\<forall>e \<in> set ?es. entry_valid e"
    using acc by (auto simp: plan_accepted_def list_all_iff)
  have d: "distinct (map en_key ?es)" by (rule plan_keys_distinct [OF shape])
  have keys: "map pt_key ?rows = map en_key ?es"
    by (simp add: planned_rows_def comp_def made_tasks_keys)
  have contract: "is_hash (tk_contract_hash (made_task sha n e))" for n e
    using sha by (simp add: made_task_def Let_def task_value.defs task.defs)
  have row: "row_valid i {} (?rows ! i)" if i: "i < length ?es" for i
  proof -
    let ?e = "?es ! i"
    have e: "?e \<in> set ?es" using i by simp
    have "row_extras_ok ctx prio att (made_task sha i ?e)"
      using extras i by (auto simp: list_all_length made_tasks_nth)
    with e i valid plan_entry_ids [OF shape e] plan_entry_deps [OF shape e] contract show ?thesis
      by (auto simp: row_valid_def planned_rows_def made_tasks_nth entry_valid_def row_extras_ok_def)
  qed
  have "check_rows 0 {} ?rows"
    by (rule check_rows_intro) (use row d in \<open>auto simp: keys planned_rows_def comp_def made_tasks_keys\<close>)
  moreover have "list_all (\<lambda>t. budget_within (pt_budget t) (provider_kind (pt_kind t))) ?rows"
  proof -
    have "budget_within (projr (en_budget (?es ! i))) (provider_kind (en_kind (?es ! i)))" if "i < length ?es" for i
      using that valid by (intro plan_entry_within [where inp = inp]) (auto simp: entry_valid_def)
    then show ?thesis by (auto simp: list_all_length planned_rows_def made_tasks_nth)
  qed
  moreover have "dependencies_ok pt_key pt_ordinal pt_depends_on ?rows"
  proof -
    have "distinct (map pt_key ?rows)" using d keys by simp
    then show ?thesis
      using made_tasks_graph [OF plan_deps_before d, of sha] by (simp add: dependencies_ok_iff planned_rows_def)
  qed
  ultimately show ?thesis
    by (simp add: rows_valid_def planned_kinds_complete [OF shape] planned_pipeline_shape [OF shape])
qed


lemma example_sha_hash: "is_hash (example_sha t)"
  by (simp add: example_sha_def example_patterns del: replicate.simps)

definition example_rows :: "persisted_task list" where
  "example_rows = planned_rows example_sha (\<lambda>t. None) (\<lambda>t. 0) (\<lambda>t. 1) example_plan"

lemma example_extras: "list_all (row_extras_ok (\<lambda>t. None) (\<lambda>t. 0) (\<lambda>t. 1)) ts"
  by (simp add: list_all_iff row_extras_ok_def opt_ok_def safeInteger_def isSafeInteger_def manifest_limits)

lemma example_sealed:
  "sealOrchestrationV2PersistedManifest example_sha (replicate 64 (CHR ''a'')) example_rows
     = Inr (sealed_manifest example_sha (replicate 64 (CHR ''a'')) example_rows)"
proof -
  have v: "rows_valid example_rows"
    unfolding example_rows_def
    by (rule planned_rows_valid) (simp_all add: example_plan_accepted example_sha_hash example_extras)
  then have s: "sort_key pt_ordinal example_rows = example_rows"
    by (intro sort_key_id_if_sorted) (use rows_valid_facts(1) [OF v] in \<open>auto simp: sorted_iff_nth_mono\<close>)
  have "length example_rows = 8"
    by (simp add: example_rows_def planned_rows_def plan_entries_def example_plan_def content_entries_def
        unit_entries_def)
  with v s show ?thesis
    by (simp add: seal_iff seal_accepted_def example_patterns manifest_limits del: replicate.simps)
qed

section \<open>Properties of sealing\<close>

text \<open>
  Sealing does not depend on the order in which the database returns the task rows, whether it
  succeeds or fails: every permutation of the rows gives the same manifest and hash, or the same error.
\<close>

theorem seal_order_independent:
  assumes "mset rows = mset rows'"
  shows "sealOrchestrationV2PersistedManifest sha src rows = sealOrchestrationV2PersistedManifest sha src rows'"
proof -
  have len: "length rows = length rows'" using assms by (metis size_mset)
  show ?thesis
  proof (cases "inj_on pt_ordinal (set rows)")
    case True
    with assms have "sort_key pt_ordinal rows = sort_key pt_ordinal rows'" by (rule sort_key_eq_of_inj)
    with len show ?thesis by (simp add: sealOrchestrationV2PersistedManifest_def)
  next
    case False
    let ?ok = "\<lambda>rs. list_all (\<lambda>t. budget_within (pt_budget t) (provider_kind (pt_kind t))) rs"
    have sets: "set rows = set rows'" using assms by (metis mset_eq_setD)
    have bad: "\<not> check_rows 0 {} (sort_key pt_ordinal rs)" if "set rs = set rows" for rs
      using False that check_rows_inj [of "sort_key pt_ordinal rs"] by auto
    have err: "\<not> ?ok ts \<Longrightarrow> mapE seal_task ts = Inl Budget_invalid" for ts
    proof (induction ts)
      case (Cons t ts)
      then show ?case
        by (cases "budget_within (pt_budget t) (provider_kind (pt_kind t))") (auto simp: seal_task_def budget_of_def)
    qed simp
    have good: "?ok ts \<Longrightarrow> mapE seal_task ts = Inr ts" for ts by (simp add: mapE_seal_task)
    have "?ok (sort_key pt_ordinal rows) \<longleftrightarrow> ?ok (sort_key pt_ordinal rows')"
      using sets by (simp add: list_all_iff)
    then show ?thesis
      using len bad [of rows] bad [of rows'] sets
      by (cases "?ok (sort_key pt_ordinal rows)")
        (auto simp: sealOrchestrationV2PersistedManifest_def good err ensure_def)
  qed
qed

theorem seal_order_independent_witness:
  "sealOrchestrationV2PersistedManifest example_sha (replicate 64 (CHR ''a'')) (rev (planned_rows example_sha (\<lambda>t. None) (\<lambda>t. 0) (\<lambda>t. 1) example_plan))
   = sealOrchestrationV2PersistedManifest example_sha (replicate 64 (CHR ''a'')) (planned_rows example_sha (\<lambda>t. None) (\<lambda>t. 0) (\<lambda>t. 1) example_plan)"
  by (rule seal_order_independent) simp

text \<open>
  C10: the hash of a sealed manifest is the identity of the task graph: two sealed manifests whose
  content texts are not a SHA-256 collision and whose hashes agree are equal in every task, every
  field of every task, both totals and the source hash.
\<close>

theorem sealed_hash_identifies_graph:
  assumes "sealOrchestrationV2PersistedManifest sha src rows = Inr m"
    and "sealOrchestrationV2PersistedManifest sha src' rows' = Inr m'"
    and "inj_on sha {canon (manifest_content persisted_task_json m), canon (manifest_content persisted_task_json m')}"
    and "mf_hash m = mf_hash m'"
  shows "m = m'"
proof -
  have hash: "mf_hash n = sha (canon (manifest_content persisted_task_json n))"
    if "sealOrchestrationV2PersistedManifest sha s rs = Inr n" for s rs n
    using that by (auto simp: seal_iff sealed_manifest_def manifest_content_def Let_def)
  from assms(3,4) have "canon (manifest_content persisted_task_json m) = canon (manifest_content persisted_task_json m')"
    unfolding hash [OF assms(1)] hash [OF assms(2)] by (auto dest: inj_onD)
  then have "norm (manifest_content persisted_task_json m) = norm (manifest_content persisted_task_json m')"
    by (simp add: canon_eq_iff_norm plain_manifest_content)
  note f = norm_content_json [OF this [unfolded manifest_content_def]]
  have "inj (norm \<circ> persisted_task_json)" by (rule injI) (simp add: norm_persisted_task_json)
  with f have "mf_tasks m = mf_tasks m'" by (simp add: inj_map_eq_map)
  with f assms(4) show ?thesis by (cases m; cases m') simp
qed

theorem sealed_hash_identifies_graph_witness:
  "mf_hash (sealed_manifest example_sha (replicate 64 (CHR ''a'')) example_rows)
     = mf_hash (sealed_manifest example_sha (replicate 64 (CHR ''a'')) example_rows)
   \<and> sealed_manifest example_sha (replicate 64 (CHR ''a'')) example_rows
     = sealed_manifest example_sha (replicate 64 (CHR ''a'')) (rev (rev example_rows))"
  using sealed_hash_identifies_graph [OF example_sealed example_sealed] by simp

text \<open>
  C29: the graph of every accepted plan is one that sealing accepts: its tasks, persisted with any valid
  input context, priority and attempt limit and read back in any order, seal to a manifest with the same
  tasks in plan order, the same token ceiling and the same execution budget. The two graph contracts of
  the program agree.
\<close>

theorem planned_graph_seals:
  assumes "buildOrchestrationV2Manifest sha inp = Inr m" and "\<forall>t. is_hash (sha t)"
    and "list_all (row_extras_ok ctx prio att) (mf_tasks m)"
    and "mset rows = mset (map (persisted_row ctx prio att) (mf_tasks m))"
  shows "\<exists>m'. sealOrchestrationV2PersistedManifest sha (mf_source_snapshot_hash m) rows = Inr m'
     \<and> mf_tasks m' = map (persisted_row ctx prio att) (mf_tasks m)
     \<and> mf_token_ceiling m' = mf_token_ceiling m \<and> mf_execution_budget_ms m' = mf_execution_budget_ms m"
proof -
  let ?rows = "planned_rows sha ctx prio att inp"
  from assms(1) have acc: "plan_accepted inp" and m: "m = built_manifest sha inp" by (auto simp: build_iff)
  then have tasks: "map (persisted_row ctx prio att) (mf_tasks m) = ?rows"
    by (simp add: built_manifest_def planned_rows_def Let_def)
  have valid: "rows_valid ?rows"
    using assms(2,3) acc by (intro planned_rows_valid) (auto simp: m built_manifest_def Let_def)
  have "inj_on pt_ordinal (set rows)"
    using valid check_rows_inj assms(4) tasks by (metis mset_eq_setD rows_valid_def)
  then have "sort_key pt_ordinal rows = sort_key pt_ordinal ?rows"
    using assms(4) tasks by (intro sort_key_eq_of_inj) simp_all
  also have "\<dots> = ?rows"
    by (rule sort_key_id_if_sorted)
      (use rows_valid_facts(1) [OF valid] in \<open>auto simp: sorted_iff_nth_mono\<close>)
  finally have sorted: "sort_key pt_ordinal rows = ?rows" .
  have len: "length rows = length (plan_entries inp)"
    using assms(4) tasks by (metis size_mset planned_rows_def length_map length_made_tasks)
  have shape: "plan_shape_ok inp" using acc by (simp add: plan_accepted_def)
  obtain c cs where cs: "pi_chapters inp = c # cs" using shape by (cases "pi_chapters inp") (auto simp: plan_shape_ok_def)
  with plan_chapters_valid(3) [OF shape, of c] have "8 \<le> length (plan_entries inp)"
    by (cases "ch_units c") (auto simp: plan_entries_def content_entries_def unit_entries_def enumerate_eq_zip)
  then have "seal_accepted (pi_source_snapshot_hash inp) rows"
    using acc len valid shape by (auto simp: seal_accepted_def sorted plan_accepted_def plan_shape_ok_def)
  moreover have "map pt_budget ?rows = map tk_budget (mf_tasks m)"
    by (simp add: tasks [symmetric] comp_def)
  ultimately show ?thesis
    using tasks by (auto simp: seal_iff sealed_manifest_def Let_def sorted m built_manifest_def)
qed

theorem planned_graph_seals_witness:
  "\<exists>m'. sealOrchestrationV2PersistedManifest example_sha
      (mf_source_snapshot_hash (built_manifest example_sha example_plan))
      (rev (map (persisted_row (\<lambda>t. None) (\<lambda>t. 0) (\<lambda>t. 1)) (mf_tasks (built_manifest example_sha example_plan)))) = Inr m'"
  using planned_graph_seals [OF example_plan_built, of "\<lambda>t. None" "\<lambda>t. 0" "\<lambda>t. 1"
      "rev (map (persisted_row (\<lambda>t. None) (\<lambda>t. 0) (\<lambda>t. 1)) (mf_tasks (built_manifest example_sha example_plan)))"]
    example_extras example_sha_hash by auto

text \<open>The receipt of a completed run.\<close>

definition receipt_of :: "(string \<Rightarrow> string) \<Rightarrow> 't completion_input \<Rightarrow> completion_receipt" where
  "receipt_of sha ci = (let m = ci_manifest ci; n = int (length (mf_tasks m)) in
     \<lparr>cr_manifest_hash = mf_hash m, cr_task_count = n,
      cr_admitted_fact_count = ci_admitted_fact_count ci, cr_allocated_fact_count = ci_admitted_fact_count ci,
      cr_covered_fact_count = ci_admitted_fact_count ci, cr_chapter_receipt_count = ci_chapter_receipt_count ci,
      cr_receipt_hash = sha (canon (receipt_json (mf_hash m) n (ci_admitted_fact_count ci) (ci_admitted_fact_count ci)
         (ci_admitted_fact_count ci) (ci_chapter_receipt_count ci)))\<rparr>)"

lemma all_keys_iff:
  assumes "distinct (map key ts)" "finite S"
  shows "card S = length ts \<and> list_all (\<lambda>t. key t \<in> S) ts \<longleftrightarrow> S = key ` set ts"
proof -
  have c: "card (key ` set ts) = length ts" using assms(1) by (metis distinct_card length_map set_map)
  have "key ` set ts \<subseteq> S \<Longrightarrow> card S = length ts \<Longrightarrow> key ` set ts = S"
    using c assms(2) by (intro card_subset_eq) auto
  with c show ?thesis by (auto simp: list_all_iff)
qed

text \<open>
  C12: for a sealed manifest the completion gate never refuses the manifest itself; it returns a receipt,
  with exactly the numbers it checked, if and only if the succeeded task keys are exactly the keys of the
  manifest, between one and ten million facts were admitted, every admitted fact was allocated and
  covered, none is duplicated or unresolved, and there is one chapter receipt per chapter. Otherwise it
  fails with the completeness error.
\<close>

theorem completion_gate_exact:
  assumes "sealOrchestrationV2PersistedManifest sha src rows = Inr (ci_manifest ci)"
  shows "completeOrchestrationV2 sha persisted_task_json pt_key pt_kind ci =
    (if set (ci_succeeded_task_keys ci) = pt_key ` set (mf_tasks (ci_manifest ci))
        \<and> ci_admitted_fact_count ci \<in> {1..10000000}
        \<and> ci_allocated_fact_count ci = ci_admitted_fact_count ci
        \<and> ci_covered_fact_count ci = ci_admitted_fact_count ci
        \<and> ci_duplicate_fact_count ci = 0 \<and> ci_unresolved_fact_count ci = 0
        \<and> ci_chapter_receipt_count ci = int (length (by_kind Validate_chapter (mf_tasks (ci_manifest ci))))
     then Inr (receipt_of sha ci) else Inl Completeness_failed)"
proof -
  let ?m = "ci_manifest ci"
  have d: "distinct (map pt_key (mf_tasks ?m))"
    using sealed.keys_distinct [of ?m] assms by (auto simp: runtime_manifest_def)
  have h: "orchestrationV2Hash sha (manifest_content persisted_task_json ?m) = Inr (mf_hash ?m)"
    using assms by (auto simp: seal_iff sealed_manifest_def manifest_content_def Let_def hash_plain plain_content_json)
  have keys: "card (set (ci_succeeded_task_keys ci)) = length (mf_tasks ?m)
      \<and> list_all (\<lambda>t. pt_key t \<in> set (ci_succeeded_task_keys ci)) (mf_tasks ?m)
    \<longleftrightarrow> set (ci_succeeded_task_keys ci) = pt_key ` set (mf_tasks ?m)"
    using all_keys_iff [OF d, of "set (ci_succeeded_task_keys ci)"] by simp
  have range: "safeInteger (ci_admitted_fact_count ci) 1 10000000 \<longleftrightarrow> ci_admitted_fact_count ci \<in> {1..10000000}"
    by (auto simp: safeInteger_def isSafeInteger_def MAX_SAFE_INTEGER_def)
  have "counts_complete pt_key pt_kind ci \<longleftrightarrow>
      set (ci_succeeded_task_keys ci) = pt_key ` set (mf_tasks ?m)
        \<and> ci_admitted_fact_count ci \<in> {1..10000000}
        \<and> ci_allocated_fact_count ci = ci_admitted_fact_count ci
        \<and> ci_covered_fact_count ci = ci_admitted_fact_count ci
        \<and> ci_duplicate_fact_count ci = 0 \<and> ci_unresolved_fact_count ci = 0
        \<and> ci_chapter_receipt_count ci = int (length (by_kind Validate_chapter (mf_tasks ?m)))"
    unfolding counts_complete_def Let_def range by_kind_def using keys by auto
  then show ?thesis
    by (auto simp: completeOrchestrationV2_def h ensure_def hash_plain receipt_of_def Let_def)
qed

theorem completion_gate_exact_witness:
  "completeOrchestrationV2 example_sha persisted_task_json pt_key pt_kind
     \<lparr>ci_manifest = sealed_manifest example_sha (replicate 64 (CHR ''a'')) example_rows,
      ci_succeeded_task_keys = map pt_key (mf_tasks (sealed_manifest example_sha (replicate 64 (CHR ''a'')) example_rows)),
      ci_admitted_fact_count = 3, ci_allocated_fact_count = 3,
      ci_covered_fact_count = 2, ci_duplicate_fact_count = 0, ci_unresolved_fact_count = 0,
      ci_chapter_receipt_count = 1\<rparr> = Inl Completeness_failed
   \<and> ok (completeOrchestrationV2 example_sha persisted_task_json pt_key pt_kind
     \<lparr>ci_manifest = sealed_manifest example_sha (replicate 64 (CHR ''a'')) example_rows,
      ci_succeeded_task_keys = map pt_key (mf_tasks (sealed_manifest example_sha (replicate 64 (CHR ''a'')) example_rows)),
      ci_admitted_fact_count = 3, ci_allocated_fact_count = 3,
      ci_covered_fact_count = 3, ci_duplicate_fact_count = 0, ci_unresolved_fact_count = 0,
      ci_chapter_receipt_count = int (length (by_kind Validate_chapter
        (mf_tasks (sealed_manifest example_sha (replicate 64 (CHR ''a'')) example_rows))))\<rparr>)"
proof
  show "completeOrchestrationV2 example_sha persisted_task_json pt_key pt_kind
     \<lparr>ci_manifest = sealed_manifest example_sha (replicate 64 (CHR ''a'')) example_rows,
      ci_succeeded_task_keys = map pt_key (mf_tasks (sealed_manifest example_sha (replicate 64 (CHR ''a'')) example_rows)),
      ci_admitted_fact_count = 3, ci_allocated_fact_count = 3,
      ci_covered_fact_count = 2, ci_duplicate_fact_count = 0, ci_unresolved_fact_count = 0,
      ci_chapter_receipt_count = 1\<rparr> = Inl Completeness_failed"
    by (subst completion_gate_exact [where src = "replicate 64 (CHR ''a'')" and rows = example_rows])
      (simp_all add: example_sealed)
qed (subst completion_gate_exact [where src = "replicate 64 (CHR ''a'')" and rows = example_rows],
    simp_all add: example_sealed del: replicate.simps)

end
