(* ===== verification/Finalization.thy ===== *)
theory Finalization
  imports Manifest_Seal
begin

text \<open>
  The course finalizer
  (ai-id/orchestration/finalize/lesson-author-orchestration-v2-finalization.logic.ts): it re-seals the
  persisted tasks, checks every chapter receipt against its task, adds up the facts and returns the
  ready artifact, or the review artifact when an assessment obligation is open. An absent
  \<open>assessment_obligations\<close> is the empty list. The accounting type has exactly six keys, so the test of
  their number is always passed. Receipt contracts are the literal the type allows.
\<close>

section \<open>Data\<close>

datatype final_status = Task_running | Task_succeeded

record finalization_task = persisted_task +
  ft_status :: final_status
  ft_result_hash :: "string option"
  ft_validation_contract :: "string option"

record chapter_receipt =
  rc_contract :: string
  rc_source_snapshot_hash :: string
  rc_assembly_hash :: string
  rc_inventory_hash :: string
  rc_chapter_key :: string
  rc_chapter_node_id :: string
  rc_unit_count :: int
  rc_component_count :: int
  rc_admitted_fact_count :: int
  rc_allocated_fact_count :: int
  rc_covered_fact_count :: int
  rc_duplicate_fact_count :: int
  rc_unresolved_fact_count :: int
  rc_unit_artifact_hashes :: "string list"
  rc_fact_set_hash :: string
  rc_baseline_set_hash :: string
  rc_receipt_hash :: string

datatype obligation_status = Open_obligation | Resolved_obligation

record obligation =
  ob_planned_slot_key :: string
  ob_plan_revision_hash :: string
  ob_status :: obligation_status
  ob_resolution_kind :: "string option"
  ob_resolution_evidence_hash :: "string option"

record idm_accounting =
  ac_course :: int
  ac_reference_job_aid :: int
  ac_nice_to_know :: int
  ac_remove :: int
  ac_hold :: int
  ac_noise :: int

record idm_unit_origins =
  og_unit_count :: int
  og_whole_fallback_count :: int

record finalization_input =
  fi_source_snapshot_hash :: string
  fi_expected_manifest_hash :: string
  fi_admitted_fact_count :: int
  fi_assembly_hash :: string
  fi_inventory_hash :: string
  fi_tasks :: "finalization_task list"
  fi_chapter_receipts :: "chapter_receipt list"
  fi_assessment_obligations :: "obligation list"
  fi_idm_accounting :: "idm_accounting option"
  fi_idm_unit_origins :: "idm_unit_origins option"

record course_receipt =
  co_manifest_hash :: string
  co_task_count :: int
  co_admitted_fact_count :: int
  co_allocated_fact_count :: int
  co_covered_fact_count :: int
  co_chapter_receipt_count :: int
  co_receipt_hash :: string

record review_receipt = course_receipt +
  rv_open_assessment_obligation_count :: int
  rv_assessment_obligation_set_hash :: string

datatype course_finalization =
    Ready_course course_receipt "string list" "idm_accounting option" string
  | Review_course review_receipt "string list" "idm_accounting option" string

datatype finalization_error = Fin_input_invalid | Fin_incomplete | Fin_too_large
  | Units_mostly_fallback | Fin_hash_error manifest_error

definition idmUnitsMostlyFallback :: "idm_unit_origins \<Rightarrow> bool" where
  "idmUnitsMostlyFallback og \<longleftrightarrow> og_unit_count og > 0 \<and> og_whole_fallback_count og * 2 > og_unit_count og"

definition MAX_ARTIFACT_BYTES :: nat where "MAX_ARTIFACT_BYTES = 1024 * 1024"

definition CHAPTER_CONTRACT :: string where "CHAPTER_CONTRACT = ''orchestration-chapter-receipt-v2''"

definition finHash :: "(string \<Rightarrow> string) \<Rightarrow> jsval \<Rightarrow> finalization_error + string" where
  "finHash sha v = (case orchestrationV2Hash sha v of Inl e \<Rightarrow> Inl (Fin_hash_error e) | Inr h \<Rightarrow> Inr h)"

section \<open>The finalizer\<close>

definition receipt_base_json :: "chapter_receipt \<Rightarrow> jsval" where
  "receipt_base_json r = JObj [(''contract'', JStr (rc_contract r)),
     (''source_snapshot_hash'', JStr (rc_source_snapshot_hash r)), (''assembly_hash'', JStr (rc_assembly_hash r)),
     (''inventory_hash'', JStr (rc_inventory_hash r)), (''chapter_key'', JStr (rc_chapter_key r)),
     (''chapter_node_id'', JStr (rc_chapter_node_id r)), (''unit_count'', JInt (rc_unit_count r)),
     (''component_count'', JInt (rc_component_count r)), (''admitted_fact_count'', JInt (rc_admitted_fact_count r)),
     (''allocated_fact_count'', JInt (rc_allocated_fact_count r)),
     (''covered_fact_count'', JInt (rc_covered_fact_count r)),
     (''duplicate_fact_count'', JInt (rc_duplicate_fact_count r)),
     (''unresolved_fact_count'', JInt (rc_unresolved_fact_count r)),
     (''unit_artifact_hashes'', JArr (map JStr (rc_unit_artifact_hashes r))),
     (''fact_set_hash'', JStr (rc_fact_set_hash r)), (''baseline_set_hash'', JStr (rc_baseline_set_hash r))]"

definition receipt_valid :: "(string \<Rightarrow> string) \<Rightarrow> finalization_input \<Rightarrow> finalization_task \<Rightarrow> chapter_receipt \<Rightarrow> bool" where
  "receipt_valid sha inp t r \<longleftrightarrow> rc_contract r = CHAPTER_CONTRACT
     \<and> rc_source_snapshot_hash r = fi_source_snapshot_hash inp
     \<and> rc_assembly_hash r = fi_assembly_hash inp \<and> rc_inventory_hash r = fi_inventory_hash inp
     \<and> pt_node_id t = Some (rc_chapter_node_id r) \<and> ft_result_hash t = Some (rc_receipt_hash r)
     \<and> ft_validation_contract t = Some (rc_contract r) \<and> is_hash (rc_receipt_hash r)
     \<and> orchestrationV2Hash sha (receipt_base_json r) = Inr (rc_receipt_hash r)
     \<and> rc_admitted_fact_count r = rc_allocated_fact_count r
     \<and> rc_admitted_fact_count r = rc_covered_fact_count r
     \<and> rc_duplicate_fact_count r = 0 \<and> rc_unresolved_fact_count r = 0"

definition receipt_for :: "chapter_receipt list \<Rightarrow> finalization_task \<Rightarrow> chapter_receipt option" where
  "receipt_for rs t = (case pt_chapter_key t of
       None \<Rightarrow> None
     | Some k \<Rightarrow> if k = [] then None else js_map_get (map (\<lambda>r. (rc_chapter_key r, r)) rs) k)"

fun add_receipts :: "(string \<Rightarrow> string) \<Rightarrow> finalization_input \<Rightarrow> finalization_task list \<Rightarrow> int \<Rightarrow> int \<Rightarrow> string list
    \<Rightarrow> finalization_error + int \<times> int \<times> string list" where
  "add_receipts sha inp [] allocated covered hashes = Inr (allocated, covered, hashes)"
| "add_receipts sha inp (t # ts) allocated covered hashes = (case receipt_for (fi_chapter_receipts inp) t of
       None \<Rightarrow> Inl Fin_incomplete
     | Some r \<Rightarrow> ensure Fin_incomplete (receipt_valid sha inp t r)
         (let allocated' = allocated + rc_allocated_fact_count r; covered' = covered + rc_covered_fact_count r in
          ensure Fin_incomplete (isSafeInteger allocated' \<and> isSafeInteger covered')
            (add_receipts sha inp ts allocated' covered' (hashes @ [rc_receipt_hash r]))))"

definition excluded_facts :: "idm_accounting \<Rightarrow> int" where
  "excluded_facts a = ac_nice_to_know a + ac_remove a + ac_hold a + ac_noise a"

definition accounting_valid :: "idm_accounting \<Rightarrow> int \<Rightarrow> bool" where
  "accounting_valid a allocated \<longleftrightarrow>
     list_all (\<lambda>n. isSafeInteger n \<and> \<not> n < 0)
       [ac_course a, ac_reference_job_aid a, ac_nice_to_know a, ac_remove a, ac_hold a, ac_noise a]
     \<and> allocated = ac_course a + ac_reference_job_aid a"

definition origins_valid :: "idm_unit_origins \<Rightarrow> bool" where
  "origins_valid og \<longleftrightarrow> isSafeInteger (og_unit_count og) \<and> isSafeInteger (og_whole_fallback_count og)
     \<and> \<not> og_unit_count og < 0 \<and> \<not> og_whole_fallback_count og < 0
     \<and> \<not> og_whole_fallback_count og > og_unit_count og"

definition is_slot_key :: "string \<Rightarrow> bool" where
  "is_slot_key s \<longleftrightarrow> length s = 36 \<and> take 4 s = ''ao2_'' \<and> list_all is_lower_hex (drop 4 s)"

definition obligation_valid :: "string \<Rightarrow> obligation \<Rightarrow> bool" where
  "obligation_valid assembly ob \<longleftrightarrow> is_slot_key (ob_planned_slot_key ob)
     \<and> ob_plan_revision_hash ob = assembly
     \<and> (case ob_status ob of
          Open_obligation \<Rightarrow> ob_resolution_kind ob = None \<and> ob_resolution_evidence_hash ob = None
        | Resolved_obligation \<Rightarrow> truthy (ob_resolution_kind ob)
            \<and> (case ob_resolution_evidence_hash ob of None \<Rightarrow> False | Some h \<Rightarrow> h \<noteq> [] \<and> is_hash h))"

definition pass_checks :: "(string \<times> jsval) list" where
  "pass_checks = [(''tasks'', JStr ''PASS''), (''allocation'', JStr ''PASS''), (''coverage'', JStr ''PASS''),
     (''duplicates'', JStr ''PASS''), (''chapters'', JStr ''PASS'')]"

definition course_fields :: "string \<Rightarrow> string \<Rightarrow> int \<Rightarrow> int \<Rightarrow> int \<Rightarrow> int \<Rightarrow> int \<Rightarrow> (string \<times> jsval) list" where
  "course_fields contract h n admitted allocated covered chapters =
     [(''contract'', JStr contract), (''manifest_hash'', JStr h), (''task_count'', JInt n),
      (''admitted_fact_count'', JInt admitted), (''allocated_fact_count'', JInt allocated),
      (''covered_fact_count'', JInt covered), (''duplicate_fact_count'', JInt 0), (''unresolved_fact_count'', JInt 0),
      (''chapter_receipt_count'', JInt chapters)]"

definition accounting_json :: "idm_accounting option \<Rightarrow> (string \<times> jsval) list" where
  "accounting_json a = (case a of None \<Rightarrow> []
     | Some a \<Rightarrow> [(''idm_accounting'', JObj [(''course'', JInt (ac_course a)),
         (''reference_job_aid'', JInt (ac_reference_job_aid a)), (''nice_to_know'', JInt (ac_nice_to_know a)),
         (''remove'', JInt (ac_remove a)), (''hold'', JInt (ac_hold a)), (''noise'', JInt (ac_noise a))])])"

definition seal_artifact :: "(string \<Rightarrow> string) \<Rightarrow> (string \<times> jsval) list \<Rightarrow> (string \<Rightarrow> course_finalization)
    \<Rightarrow> finalization_error + course_finalization" where
  "seal_artifact sha base k =
     ensure Fin_too_large (\<not> utf8_length (json_text (JObj base)) > MAX_ARTIFACT_BYTES)
       (bindE (finHash sha (JObj base)) (\<lambda>h. Inr (k h)))"

definition review_course :: "(string \<Rightarrow> string) \<Rightarrow> finalization_input \<Rightarrow> persisted_manifest \<Rightarrow> int \<Rightarrow> int
    \<Rightarrow> string list \<Rightarrow> obligation list \<Rightarrow> finalization_error + course_finalization" where
  "review_course sha inp m allocated covered hashes opens =
     (let n = int (length (mf_tasks m)); chapters = int (length hashes); open_count = int (length opens);
          admitted = fi_admitted_fact_count inp in
      bindE (finHash sha (JArr (map (\<lambda>ob. JObj [(''planned_slot_key'', JStr (ob_planned_slot_key ob)),
          (''plan_revision_hash'', JStr (ob_plan_revision_hash ob))]) opens))) (\<lambda>set_hash.
      let fields = course_fields ''lesson-author-course-review-required-v1'' (mf_hash m) n admitted allocated covered chapters
          @ [(''open_assessment_obligation_count'', JInt open_count),
             (''assessment_obligation_set_hash'', JStr set_hash),
             (''checks'', JObj (pass_checks @ [(''assessments'', JStr ''REVIEW_REQUIRED'')]))] in
      bindE (finHash sha (JObj fields)) (\<lambda>rh.
      seal_artifact sha ([(''contract'', JStr ''orchestration-course-review-required-v1''),
          (''review'', JObj (fields @ [(''receipt_hash'', JStr rh)])),
          (''chapter_receipt_hashes'', JArr (map JStr hashes))] @ accounting_json (fi_idm_accounting inp))
        (Review_course \<lparr>co_manifest_hash = mf_hash m, co_task_count = n, co_admitted_fact_count = admitted,
          co_allocated_fact_count = allocated, co_covered_fact_count = covered, co_chapter_receipt_count = chapters,
          co_receipt_hash = rh, rv_open_assessment_obligation_count = open_count,
          rv_assessment_obligation_set_hash = set_hash\<rparr> hashes (fi_idm_accounting inp)))))"

definition ready_course :: "(string \<Rightarrow> string) \<Rightarrow> finalization_input \<Rightarrow> persisted_manifest \<Rightarrow> int \<Rightarrow> int
    \<Rightarrow> string list \<Rightarrow> finalization_error + course_finalization" where
  "ready_course sha inp m allocated covered hashes =
     (let n = int (length (mf_tasks m)); chapters = int (length hashes); admitted = fi_admitted_fact_count inp;
          fields = course_fields ''lesson-author-course-completion-v2'' (mf_hash m) n admitted allocated covered chapters
            @ [(''checks'', JObj pass_checks)] in
      bindE (finHash sha (JObj fields)) (\<lambda>rh.
      seal_artifact sha ([(''contract'', JStr ''orchestration-course-finalization-v2''),
          (''completion'', JObj (fields @ [(''receipt_hash'', JStr rh)])),
          (''chapter_receipt_hashes'', JArr (map JStr hashes))] @ accounting_json (fi_idm_accounting inp))
        (Ready_course \<lparr>co_manifest_hash = mf_hash m, co_task_count = n, co_admitted_fact_count = admitted,
          co_allocated_fact_count = allocated, co_covered_fact_count = covered, co_chapter_receipt_count = chapters,
          co_receipt_hash = rh\<rparr> hashes (fi_idm_accounting inp))))"

definition chapter_rows :: "finalization_input \<Rightarrow> finalization_task list" where
  "chapter_rows inp = filter (\<lambda>t. pt_kind t = Validate_chapter) (fi_tasks inp)"

definition run_settled :: "finalization_input \<Rightarrow> bool" where
  "run_settled inp \<longleftrightarrow> (case filter (\<lambda>t. pt_kind t = Finalize_course) (fi_tasks inp) of
       [f] \<Rightarrow> ft_status f = Task_running \<and> ft_result_hash f = None \<and> ft_validation_contract f = None
     | _ \<Rightarrow> False)
     \<and> \<not> list_ex (\<lambda>t. pt_kind t \<noteq> Finalize_course \<and> ft_status t \<noteq> Task_succeeded) (fi_tasks inp)
     \<and> length (chapter_rows inp) = length (fi_chapter_receipts inp) \<and> \<not> length (chapter_rows inp) < 1"

definition count_facts :: "(string \<Rightarrow> string) \<Rightarrow> finalization_input \<Rightarrow> finalization_error + int \<times> int \<times> string list" where
  "count_facts sha inp = bindE (add_receipts sha inp (chapter_rows inp) 0 0 []) (\<lambda>(allocated, covered, hashes).
     (case fi_idm_accounting inp of
        None \<Rightarrow> Inr (allocated, covered, hashes)
      | Some a \<Rightarrow> ensure Fin_incomplete (accounting_valid a allocated)
          (Inr (allocated + excluded_facts a, covered + excluded_facts a, hashes))))"

definition check_origins :: "finalization_input \<Rightarrow> finalization_error + unit" where
  "check_origins inp = (case fi_idm_unit_origins inp of
       None \<Rightarrow> Inr ()
     | Some og \<Rightarrow> ensure Fin_input_invalid (origins_valid og)
         (ensure Units_mostly_fallback (\<not> idmUnitsMostlyFallback og) (Inr ())))"

definition open_obligations :: "finalization_input \<Rightarrow> obligation list" where
  "open_obligations inp = filter (\<lambda>ob. ob_status ob = Open_obligation) (fi_assessment_obligations inp)"

definition finalizeOrchestrationV2Course :: "(string \<Rightarrow> string) \<Rightarrow> finalization_input
    \<Rightarrow> finalization_error + course_finalization" where
  "finalizeOrchestrationV2Course sha inp =
     ensure Fin_input_invalid (is_hash (fi_source_snapshot_hash inp) \<and> is_hash (fi_expected_manifest_hash inp)
         \<and> is_hash (fi_assembly_hash inp) \<and> is_hash (fi_inventory_hash inp)
         \<and> isSafeInteger (fi_admitted_fact_count inp) \<and> \<not> fi_admitted_fact_count inp < 1)
      (case sealOrchestrationV2PersistedManifest sha (fi_source_snapshot_hash inp)
              (map persisted_task.truncate (fi_tasks inp)) of
         Inl e \<Rightarrow> Inl Fin_input_invalid
       | Inr m \<Rightarrow>
          ensure Fin_input_invalid (mf_hash m = fi_expected_manifest_hash inp)
           (ensure Fin_incomplete (run_settled inp)
            (ensure Fin_incomplete (distinct (map rc_chapter_key (fi_chapter_receipts inp)))
             (bindE (count_facts sha inp) (\<lambda>(allocated, covered, hashes).
               ensure Fin_incomplete (allocated = fi_admitted_fact_count inp \<and> covered = fi_admitted_fact_count inp)
                (bindE (check_origins inp) (\<lambda>_.
                 let obs = fi_assessment_obligations inp; opens = open_obligations inp in
                 ensure Fin_input_invalid (distinct (map ob_planned_slot_key obs)
                     \<and> list_all (obligation_valid (fi_assembly_hash inp)) obs)
                  (if opens \<noteq> [] then review_course sha inp m allocated covered hashes opens
                   else ready_course sha inp m allocated covered hashes))))))))"

section \<open>What a finalized course proves\<close>

definition receipt_facts :: "chapter_receipt list \<Rightarrow> int" where
  "receipt_facts rs = sum_list (map rc_covered_fact_count rs)"

lemma add_receipts_Inr:
  assumes "add_receipts sha inp ts a c hs = Inr (a', c', hs')"
  shows "\<exists>rs. list_all2 (\<lambda>t r. receipt_for (fi_chapter_receipts inp) t = Some r \<and> receipt_valid sha inp t r) ts rs
    \<and> a' = a + receipt_facts rs \<and> c' = c + receipt_facts rs \<and> hs' = hs @ map rc_receipt_hash rs"
  using assms
proof (induction ts arbitrary: a c hs)
  case Nil
  then show ?case by (simp add: receipt_facts_def)
next
  case (Cons t ts)
  then obtain r where r: "receipt_for (fi_chapter_receipts inp) t = Some r" "receipt_valid sha inp t r"
    and rest: "add_receipts sha inp ts (a + rc_allocated_fact_count r) (c + rc_covered_fact_count r)
      (hs @ [rc_receipt_hash r]) = Inr (a', c', hs')" by (auto simp: Let_def split: option.splits)
  from Cons.IH [OF rest] obtain rs where "list_all2 (\<lambda>t r. receipt_for (fi_chapter_receipts inp) t = Some r \<and> receipt_valid sha inp t r) ts rs"
    "a' = a + rc_allocated_fact_count r + receipt_facts rs" "c' = c + rc_covered_fact_count r + receipt_facts rs"
    "hs' = (hs @ [rc_receipt_hash r]) @ map rc_receipt_hash rs" by auto
  with r show ?case
    by (intro exI [of _ "r # rs"]) (auto simp: receipt_facts_def receipt_valid_def)
qed

definition facts_accounted :: "finalization_input \<Rightarrow> chapter_receipt list \<Rightarrow> bool" where
  "facts_accounted inp rs \<longleftrightarrow> (case fi_idm_accounting inp of
       None \<Rightarrow> receipt_facts rs = fi_admitted_fact_count inp
     | Some a \<Rightarrow> receipt_facts rs = ac_course a + ac_reference_job_aid a
         \<and> receipt_facts rs + excluded_facts a = fi_admitted_fact_count inp \<and> 0 \<le> excluded_facts a)"

definition is_review :: "course_finalization \<Rightarrow> bool" where
  "is_review f \<longleftrightarrow> (case f of Review_course _ _ _ _ \<Rightarrow> True | Ready_course _ _ _ _ \<Rightarrow> False)"

definition receipt_hashes :: "course_finalization \<Rightarrow> string list" where
  "receipt_hashes f = (case f of Review_course _ hs _ _ \<Rightarrow> hs | Ready_course _ hs _ _ \<Rightarrow> hs)"

lemma seal_artifact_Inr: "seal_artifact sha base k = Inr f \<Longrightarrow> \<exists>h. f = k h"
  by (auto simp: seal_artifact_def)

lemma review_course_Inr:
  "review_course sha inp m a c hs opens = Inr f \<Longrightarrow> is_review f \<and> receipt_hashes f = hs"
  by (auto simp: review_course_def Let_def is_review_def receipt_hashes_def dest!: seal_artifact_Inr)

lemma ready_course_Inr: "ready_course sha inp m a c hs = Inr f \<Longrightarrow> \<not> is_review f \<and> receipt_hashes f = hs"
  by (auto simp: ready_course_def Let_def is_review_def receipt_hashes_def dest!: seal_artifact_Inr)

lemma count_facts_Inr:
  assumes "count_facts sha inp = Inr (a, c, hs)"
  obtains rs where "list_all2 (\<lambda>t r. receipt_for (fi_chapter_receipts inp) t = Some r \<and> receipt_valid sha inp t r) (chapter_rows inp) rs"
    "hs = map rc_receipt_hash rs" "a = fi_admitted_fact_count inp \<Longrightarrow> facts_accounted inp rs"
proof -
  from assms obtain a0 c0 where z: "add_receipts sha inp (chapter_rows inp) 0 0 [] = Inr (a0, c0, hs)"
    and acc: "case fi_idm_accounting inp of None \<Rightarrow> a = a0
      | Some x \<Rightarrow> accounting_valid x a0 \<and> a = a0 + excluded_facts x"
    by (auto simp: count_facts_def split: option.splits)
  from add_receipts_Inr [OF z] obtain rs where rs:
    "list_all2 (\<lambda>t r. receipt_for (fi_chapter_receipts inp) t = Some r \<and> receipt_valid sha inp t r) (chapter_rows inp) rs"
    "a0 = receipt_facts rs" "hs = map rc_receipt_hash rs" by auto
  show ?thesis
    by (rule that [OF rs(1,3)]) (use acc rs(2) in \<open>auto simp: facts_accounted_def accounting_valid_def excluded_facts_def split: option.splits\<close>)
qed


section \<open>A finalized course\<close>

lemma finHash_plain: "plain v \<Longrightarrow> finHash sha v = Inr (sha (canon v))"
  by (simp add: finHash_def hash_plain)

lemma artifact_fits: "2 * json_bound (JObj base) \<le> MAX_ARTIFACT_BYTES \<Longrightarrow> \<not> utf8_length (json_text (JObj base)) > MAX_ARTIFACT_BYTES"
  using utf8_length_bound [of "json_text (JObj base)"] json_text_length [of "JObj base"] by linarith

lemma seal_artifact_ok:
  "plain (JObj base) \<Longrightarrow> 2 * json_bound (JObj base) \<le> MAX_ARTIFACT_BYTES \<Longrightarrow> ok (seal_artifact sha base k)"
  using artifact_fits [of base] by (simp add: seal_artifact_def finHash_plain del: json_text.simps plain.simps json_bound.simps)

definition settled_task :: "persisted_task \<Rightarrow> finalization_task" where
  "settled_task t = persisted_task.extend t (finalization_task.fields
     (if pt_kind t = Finalize_course then Task_running else Task_succeeded)
     (if pt_kind t = Validate_chapter then Some (replicate 64 (CHR ''d'')) else None)
     (if pt_kind t = Validate_chapter then Some CHAPTER_CONTRACT else None))"

definition example_receipt :: chapter_receipt where
  "example_receipt = \<lparr>rc_contract = CHAPTER_CONTRACT, rc_source_snapshot_hash = replicate 64 (CHR ''a''),
     rc_assembly_hash = replicate 64 (CHR ''b''), rc_inventory_hash = replicate 64 (CHR ''c''),
     rc_chapter_key = ''ch1'', rc_chapter_node_id = ''00000000-0000-0000-0000-000000000001'', rc_unit_count = 1,
     rc_component_count = 2, rc_admitted_fact_count = 5, rc_allocated_fact_count = 5, rc_covered_fact_count = 5,
     rc_duplicate_fact_count = 0, rc_unresolved_fact_count = 0, rc_unit_artifact_hashes = [],
     rc_fact_set_hash = replicate 64 (CHR ''c''), rc_baseline_set_hash = replicate 64 (CHR ''c''),
     rc_receipt_hash = replicate 64 (CHR ''d'')\<rparr>"

definition example_finalization :: finalization_input where
  "example_finalization = \<lparr>fi_source_snapshot_hash = replicate 64 (CHR ''a''),
     fi_expected_manifest_hash = replicate 64 (CHR ''d''), fi_admitted_fact_count = 5,
     fi_assembly_hash = replicate 64 (CHR ''b''), fi_inventory_hash = replicate 64 (CHR ''c''),
     fi_tasks = map settled_task example_rows, fi_chapter_receipts = [example_receipt],
     fi_assessment_obligations = [], fi_idm_accounting = None, fi_idm_unit_origins = None\<rparr>"

lemma settled_task_sel [simp]:
  "pt_kind (settled_task t) = pt_kind t" "pt_chapter_key (settled_task t) = pt_chapter_key t"
  "pt_node_id (settled_task t) = pt_node_id t" "persisted_task.truncate (settled_task t) = t"
  "ft_status (settled_task t) = (if pt_kind t = Finalize_course then Task_running else Task_succeeded)"
  "ft_result_hash (settled_task t) = (if pt_kind t = Validate_chapter then Some (replicate 64 (CHR ''d'')) else None)"
  "ft_validation_contract (settled_task t) = (if pt_kind t = Validate_chapter then Some CHAPTER_CONTRACT else None)"
  by (simp_all add: settled_task_def persisted_task.defs finalization_task.defs)

lemma filter_settled: "filter (\<lambda>t. pt_kind t = k) (map settled_task ts) = map settled_task (by_kind k ts)"
  by (induction ts) (auto simp: by_kind_def)

lemma example_by_kind:
  "\<exists>f. by_kind Finalize_course example_rows = [f] \<and> pt_kind f = Finalize_course"
  "\<exists>v. by_kind Validate_chapter example_rows = [v] \<and> pt_kind v = Validate_chapter \<and> pt_chapter_key v = Some ''ch1''
     \<and> pt_node_id v = Some ''00000000-0000-0000-0000-000000000001''"
proof -
  note k = by_kind_planned [of _ "\<lambda>t. None" "\<lambda>t. 0" "\<lambda>t. 1" example_sha _ _ example_plan, folded example_rows_def]
  have "map pt_kind (by_kind Finalize_course example_rows) = [Finalize_course]"
    by (subst k [where g = en_kind]) (simp_all add: entries_of_def plan_entries_def content_by_kind filter_concat
        comp_def single_entry_def blueprint_entry_def filter_empty_conv contents_by_kind blueprint_by_kind)
  then show "\<exists>f. by_kind Finalize_course example_rows = [f] \<and> pt_kind f = Finalize_course" by auto
  have "map (\<lambda>t. (pt_kind t, pt_chapter_key t, pt_node_id t)) (by_kind Validate_chapter example_rows)
      = [(Validate_chapter, Some ''ch1'', Some ''00000000-0000-0000-0000-000000000001'')]"
    by (subst k [where g = "\<lambda>e. (en_kind e, en_chapter_key e, en_node_id e)"])
      (simp_all add: entries_of_simps example_plan_def)
  then show "\<exists>v. by_kind Validate_chapter example_rows = [v] \<and> pt_kind v = Validate_chapter \<and> pt_chapter_key v = Some ''ch1''
     \<and> pt_node_id v = Some ''00000000-0000-0000-0000-000000000001''" by auto
qed

lemma example_counts: "int_text 0 = ''0''" "int_text 1 = ''1''" "int_text 5 = ''5''" "int_text 8 = ''8''"
  by code_simp+

lemma example_finalized: "ok (finalizeOrchestrationV2Course example_sha example_finalization)"
proof -
  from example_by_kind obtain f v where f: "by_kind Finalize_course example_rows = [f]" "pt_kind f = Finalize_course"
    and v: "by_kind Validate_chapter example_rows = [v]" "pt_kind v = Validate_chapter" "pt_chapter_key v = Some ''ch1''"
      "pt_node_id v = Some ''00000000-0000-0000-0000-000000000001''" by auto
  have len: "length example_rows = 8"
    by (simp add: example_rows_def planned_rows_def plan_entries_def example_plan_def content_entries_def
        unit_entries_def)
  let ?m = "sealed_manifest example_sha (replicate 64 (CHR ''a'')) example_rows"
  have m: "mf_hash ?m = replicate 64 (CHR ''d'')" "length (mf_tasks ?m) = 8"
    by (simp_all add: sealed_manifest_def example_sha_def len Let_def del: replicate.simps)
  have rows: "chapter_rows example_finalization = [settled_task v]"
    by (simp add: chapter_rows_def example_finalization_def filter_settled v del: filter_map)
  have "run_settled example_finalization"
    unfolding run_settled_def rows
    by (simp add: example_finalization_def filter_settled f list_ex_iff del: filter_map)
  moreover have "count_facts example_sha example_finalization = Inr (5, 5, [replicate 64 (CHR ''d'')])"
    unfolding count_facts_def rows
    by (simp add: receipt_for_def example_finalization_def v js_map_get_def example_receipt_def receipt_valid_def
        example_patterns receipt_base_json_def hash_plain example_sha_def isSafeInteger_def manifest_limits
        del: replicate.simps)
  moreover have "ok (ready_course example_sha example_finalization ?m 5 5 [replicate 64 (CHR ''d'')])"
    unfolding ready_course_def Let_def
    by (subst finHash_plain, simp add: course_fields_def pass_checks_def)
      (simp del: json_bound.simps plain.simps replicate.simps, rule seal_artifact_ok,
        simp_all add: accounting_json_def example_finalization_def course_fields_def pass_checks_def m
          example_counts example_sha_def MAX_ARTIFACT_BYTES_def)
  ultimately show ?thesis
    using example_sealed m
    by (simp add: finalizeOrchestrationV2Course_def example_finalization_def example_patterns comp_def
        isSafeInteger_def manifest_limits check_origins_def open_obligations_def Let_def del: replicate.simps)
qed


end
