(* ===== verification/Recovery.thy ===== *)
theory Recovery
  imports Canonical_Json Task_Graph Manifest
begin

text \<open>
  Author recovery of a stopped run
  (ai-id/orchestration/recovery/lesson-author-orchestration-v2-recovery.logic.ts): when a run can be
  reopened, which tasks one request reopens, and the view of what the author can do. The task kinds and
  the failure code pattern are those of \<open>Manifest\<close> and \<open>Landa_Prelude\<close>.
\<close>

section \<open>Data\<close>

datatype run_status = Planning | Executing | Finalizing | Ready | Needs_action | Canceled_run

datatype task_status = Blocked | Queued | Running | Succeeded | Failed | Timed_out | Outcome_unknown | Canceled

datatype scope_kind = Unit_scope | Lesson_scope | Chapter_scope | Course_scope

datatype recovery_error =
    E_RECOVERY_DISABLED | E_RECOVERY_FORBIDDEN | E_RECOVERY_INPUT_INVALID | E_RECOVERY_NOT_FOUND
  | E_RECOVERY_STATE_CHANGED | E_RECOVERY_UNIT_HAS_CONTENT | E_RECOVERY_NOTHING_TO_DO
  | E_RECOVERY_LIMIT_REACHED | E_RECOVERY_RUNTIME_CHANGED | E_RECOVERY_OTHER_RUN_ACTIVE
  | E_RECOVERY_IDEMPOTENCY_CONFLICT | E_RUN_STOP_NOT_ACTIVE | E_AI_CREDIT_INSUFFICIENT_FOR_RECOVERY
  | E_RECOVERY_UNAVAILABLE | E_RECOVERY_SOURCE_DOCUMENT_MISSING

datatype reason = RECOVERY_DISABLED | RECOVERY_NOT_SUPPORTED | RECOVERY_RUN_ACTIVE | RECOVERY_DRAINING
  | RECOVERY_RUN_COMPLETE | RECOVERY_REVIEW_REQUIRED | RECOVERY_PLANNING_INCOMPLETE
  | RECOVERY_RUNTIME_CHANGED | RECOVERY_UNIT_HAS_CONTENT | RECOVERY_NOTHING_TO_DO
  | RECOVERY_LIMIT_REACHED | RECOVERY_UNAVAILABLE | RUN_STOP_NOT_ACTIVE | RECOVERY_SOURCE_DOCUMENT_MISSING

record recovery_run =
  ru_run_id :: string
  ru_status :: run_status
  ru_failure_code :: "string option"
  ru_finished_at :: "string option"
  ru_manifest_sealed :: bool
  ru_completion_receipt :: bool
  ru_review_receipt :: bool
  ru_workspace_status :: string
  ru_event_head :: int

record recovery_task =
  rt_task_id :: string
  rt_ordinal :: int
  rt_kind :: task_kind
  rt_status :: task_status
  rt_failure_code :: "string option"
  rt_attempt_count :: int
  rt_max_attempts :: int
  rt_dispatch_epoch :: int
  rt_chapter_key :: "string option"
  rt_node_id :: "string option"
  rt_node_path :: "string option"
  rt_node_has_content :: bool
  rt_ai_reservation_id :: "string option"
  rt_accounting_state :: string
  rt_reservation_status :: "string option"
  rt_generation :: int
  rt_depends_on :: "string list"

record scope =
  sc_node_id :: string
  sc_kind :: scope_kind
  sc_path :: string

datatype request = Resume | Regenerate scope

record plan_item =
  it_task_id :: string
  it_ordinal :: int
  it_kind :: task_kind
  it_generation :: int
  it_prior_status :: task_status
  it_prior_failure_code :: string
  it_prior_attempt_count :: int
  it_prior_dispatch_epoch :: int
  it_reopen_epoch :: int
  it_reopened_status :: task_status
  it_prior_ai_reservation_id :: "string option"
  it_needs_reconcile :: bool

record recovery_plan =
  rp_request :: request
  rp_items :: "plan_item list"
  rp_ai_unit_count :: nat

definition UNIT_REWRITE_LIMIT :: int where "UNIT_REWRITE_LIMIT = 3"
definition DETERMINISTIC_REOPEN_LIMIT :: int where "DETERMINISTIC_REOPEN_LIMIT = 10"
definition MAX_DISPATCH_EPOCH :: int where "MAX_DISPATCH_EPOCH = 100"

lemmas recovery_limits = UNIT_REWRITE_LIMIT_def DETERMINISTIC_REOPEN_LIMIT_def MAX_DISPATCH_EPOCH_def

definition active_run :: "run_status \<Rightarrow> bool" where
  "active_run s \<longleftrightarrow> s \<in> {Planning, Executing, Finalizing}"

definition reopenable :: "task_status \<Rightarrow> bool" where
  "reopenable s \<longleftrightarrow> s \<in> {Failed, Timed_out, Outcome_unknown, Canceled}"

definition live :: "task_status \<Rightarrow> bool" where
  "live s \<longleftrightarrow> s \<in> {Blocked, Queued, Running}"

definition deterministic_kind :: "task_kind \<Rightarrow> bool" where
  "deterministic_kind k \<longleftrightarrow> k \<in> {Validate_chapter, Finalize_course}"

section \<open>When a run can be reopened\<close>

definition orchestrationV2RecoveryRunBlocker :: "recovery_run option \<Rightarrow> recovery_task list \<Rightarrow> reason option" where
  "orchestrationV2RecoveryRunBlocker r tasks = (case r of
       None \<Rightarrow> Some RECOVERY_NOT_SUPPORTED
     | Some run \<Rightarrow>
         if active_run (ru_status run) then Some RECOVERY_RUN_ACTIVE
         else if ru_status run = Ready \<or> ru_completion_receipt run then Some RECOVERY_RUN_COMPLETE
         else if ru_status run \<noteq> Needs_action then Some RECOVERY_NOT_SUPPORTED
         else if ru_failure_code run = Some ''ASSESSMENT_REVIEW_REQUIRED'' \<or> ru_review_receipt run
           then Some RECOVERY_REVIEW_REQUIRED
         else if \<not> ru_manifest_sealed run then Some RECOVERY_PLANNING_INCOMPLETE
         else if \<not> truthy (ru_failure_code run) \<or> \<not> truthy (ru_finished_at run) then Some RECOVERY_NOT_SUPPORTED
         else if ru_workspace_status run \<noteq> ''needs_action'' \<or> list_ex (\<lambda>t. live (rt_status t)) tasks
           then Some RECOVERY_DRAINING
         else None)"

definition orchestrationV2StopReason :: "recovery_run option \<Rightarrow> reason option" where
  "orchestrationV2StopReason r = (case r of
       None \<Rightarrow> Some RECOVERY_NOT_SUPPORTED
     | Some run \<Rightarrow> if active_run (ru_status run) then None else Some RUN_STOP_NOT_ACTIVE)"

definition epochHeadroom :: "recovery_task \<Rightarrow> bool" where
  "epochHeadroom t \<longleftrightarrow> rt_dispatch_epoch t + 1 + rt_max_attempts t \<le> MAX_DISPATCH_EPOCH"

definition accountingReady :: "recovery_task \<Rightarrow> bool" where
  "accountingReady t \<longleftrightarrow> (if rt_status t = Outcome_unknown
     then rt_ai_reservation_id t \<noteq> None \<and> rt_accounting_state t = ''pending_reconciliation''
       \<and> (rt_reservation_status t = Some ''reserved'' \<or> rt_reservation_status t = Some ''finalized'')
     else rt_ai_reservation_id t = None \<and> rt_accounting_state t = ''not_required'')"

definition starts_with :: "string \<Rightarrow> string \<Rightarrow> bool" where
  "starts_with pre s \<longleftrightarrow> take (length pre) s = pre"

definition inScope :: "scope \<Rightarrow> recovery_task \<Rightarrow> bool" where
  "inScope sc t \<longleftrightarrow> rt_kind t = Generate_unit \<and>
     (case sc_kind sc of
        Course_scope \<Rightarrow> True
      | Unit_scope \<Rightarrow> rt_node_id t = Some (sc_node_id sc)
      | _ \<Rightarrow> (case rt_node_path t of None \<Rightarrow> False | Some p \<Rightarrow> starts_with (sc_path sc @ ''.'') p))"

section \<open>The planner\<close>

definition by_id :: "recovery_task list \<Rightarrow> string \<Rightarrow> recovery_task option" where
  "by_id tasks = js_map_get (map (\<lambda>t. (rt_task_id t, t)) tasks)"

definition dep_succeeded :: "recovery_task list \<Rightarrow> string \<Rightarrow> bool" where
  "dep_succeeded tasks d \<longleftrightarrow> map_option rt_status (by_id tasks d) = Some Succeeded"

fun choose_units :: "recovery_task list \<Rightarrow> recovery_task list \<Rightarrow> (string \<times> recovery_task) list
    \<Rightarrow> reason + (string \<times> recovery_task) list" where
  "choose_units tasks [] chosen = Inr chosen"
| "choose_units tasks (t # ts) chosen =
     ensure RECOVERY_UNAVAILABLE (reopenable (rt_status t) \<and> accountingReady t
         \<and> list_all (dep_succeeded tasks) (rt_depends_on t))
      (ensure RECOVERY_LIMIT_REACHED (\<not> (rt_generation t + 1 > UNIT_REWRITE_LIMIT \<or> \<not> epochHeadroom t))
        (choose_units tasks ts (js_map_set (rt_task_id t) t chosen)))"

definition reopens_deterministic :: "recovery_task list \<Rightarrow> (string \<times> recovery_task) list \<Rightarrow> recovery_task \<Rightarrow> bool" where
  "reopens_deterministic tasks chosen t \<longleftrightarrow>
     deterministic_kind (rt_kind t) \<and> reopenable (rt_status t) \<and> accountingReady t
     \<and> list_all (\<lambda>d. dep_succeeded tasks d \<or> d \<in> fst ` set chosen) (rt_depends_on t)
     \<and> \<not> rt_generation t + 1 > DETERMINISTIC_REOPEN_LIMIT \<and> epochHeadroom t"

fun choose_deterministic :: "recovery_task list \<Rightarrow> recovery_task list \<Rightarrow> (string \<times> recovery_task) list
    \<Rightarrow> (string \<times> recovery_task) list" where
  "choose_deterministic tasks [] chosen = chosen"
| "choose_deterministic tasks (t # ts) chosen = choose_deterministic tasks ts
     (if reopens_deterministic tasks chosen t then js_map_set (rt_task_id t) t chosen else chosen)"

definition item_of :: "recovery_task list \<Rightarrow> recovery_task \<Rightarrow> plan_item" where
  "item_of tasks t = \<lparr>it_task_id = rt_task_id t, it_ordinal = rt_ordinal t, it_kind = rt_kind t,
     it_generation = rt_generation t + 1, it_prior_status = rt_status t,
     it_prior_failure_code = (case rt_failure_code t of None \<Rightarrow> [] | Some c \<Rightarrow> c),
     it_prior_attempt_count = rt_attempt_count t, it_prior_dispatch_epoch = rt_dispatch_epoch t,
     it_reopen_epoch = rt_dispatch_epoch t + 1,
     it_reopened_status = (if list_all (dep_succeeded tasks) (rt_depends_on t) then Queued else Blocked),
     it_prior_ai_reservation_id = rt_ai_reservation_id t,
     it_needs_reconcile = (rt_status t = Outcome_unknown \<and> rt_reservation_status t = Some ''reserved'')\<rparr>"

definition missing_units :: "recovery_task list \<Rightarrow> recovery_task list" where
  "missing_units ts = filter (\<lambda>t. rt_status t \<noteq> Succeeded \<and> \<not> rt_node_has_content t) ts"

definition scope_choice :: "request \<Rightarrow> recovery_task list \<Rightarrow> reason + (string \<times> recovery_task) list" where
  "scope_choice req tasks = (case req of
       Resume \<Rightarrow> Inr []
     | Regenerate sc \<Rightarrow> (let scoped = filter (inScope sc) tasks in
         ensure (if sc_kind sc = Unit_scope \<and> length scoped = 1 then RECOVERY_UNIT_HAS_CONTENT else RECOVERY_NOTHING_TO_DO)
           (missing_units scoped \<noteq> [])
           (choose_units tasks (missing_units scoped) [])))"

definition planOrchestrationV2Recovery :: "recovery_run option \<Rightarrow> recovery_task list \<Rightarrow> request \<Rightarrow> reason + recovery_plan" where
  "planOrchestrationV2Recovery run input req = (case orchestrationV2RecoveryRunBlocker run input of
       Some r \<Rightarrow> Inl r
     | None \<Rightarrow>
         (let tasks = sort_key rt_ordinal input in
          bindE (scope_choice req tasks) (\<lambda>chosen1.
            let chosen = choose_deterministic tasks tasks chosen1;
                items = map (item_of tasks) (sort_key rt_ordinal (map snd chosen)) in
            ensure RECOVERY_NOTHING_TO_DO (chosen \<noteq> [])
             (ensure RECOVERY_UNAVAILABLE (\<not> list_ex (\<lambda>i. \<not> is_failure_code (it_prior_failure_code i)) items)
               (Inr \<lparr>rp_request = req, rp_items = items,
                     rp_ai_unit_count = length (filter (\<lambda>i. it_kind i = Generate_unit) items)\<rparr>)))))"

fun orchestrationV2RecoveryErrorFor :: "reason \<Rightarrow> recovery_error" where
  "orchestrationV2RecoveryErrorFor RECOVERY_UNIT_HAS_CONTENT = E_RECOVERY_UNIT_HAS_CONTENT"
| "orchestrationV2RecoveryErrorFor RECOVERY_LIMIT_REACHED = E_RECOVERY_LIMIT_REACHED"
| "orchestrationV2RecoveryErrorFor RECOVERY_RUNTIME_CHANGED = E_RECOVERY_RUNTIME_CHANGED"
| "orchestrationV2RecoveryErrorFor RECOVERY_DISABLED = E_RECOVERY_DISABLED"
| "orchestrationV2RecoveryErrorFor RECOVERY_UNAVAILABLE = E_RECOVERY_UNAVAILABLE"
| "orchestrationV2RecoveryErrorFor RECOVERY_SOURCE_DOCUMENT_MISSING = E_RECOVERY_SOURCE_DOCUMENT_MISSING"
| "orchestrationV2RecoveryErrorFor RECOVERY_RUN_ACTIVE = E_RECOVERY_STATE_CHANGED"
| "orchestrationV2RecoveryErrorFor RECOVERY_DRAINING = E_RECOVERY_STATE_CHANGED"
| "orchestrationV2RecoveryErrorFor RUN_STOP_NOT_ACTIVE = E_RECOVERY_STATE_CHANGED"
| "orchestrationV2RecoveryErrorFor RECOVERY_NOT_SUPPORTED = E_RECOVERY_NOTHING_TO_DO"
| "orchestrationV2RecoveryErrorFor RECOVERY_RUN_COMPLETE = E_RECOVERY_NOTHING_TO_DO"
| "orchestrationV2RecoveryErrorFor RECOVERY_REVIEW_REQUIRED = E_RECOVERY_NOTHING_TO_DO"
| "orchestrationV2RecoveryErrorFor RECOVERY_PLANNING_INCOMPLETE = E_RECOVERY_NOTHING_TO_DO"
| "orchestrationV2RecoveryErrorFor RECOVERY_NOTHING_TO_DO = E_RECOVERY_NOTHING_TO_DO"

text \<open>The text that is hashed: JSON.stringify of an object literal, keys in written order.\<close>

definition orchestrationV2RecoveryRequestHash ::
    "(string \<Rightarrow> string) \<Rightarrow> bool \<Rightarrow> string option \<Rightarrow> int \<Rightarrow> string" where
  "orchestrationV2RecoveryRequestHash sha regenerate node revision =
     sha (CHR ''{'' # comma_join
       [json_string ''v'' @ '':1'',
        json_string ''action'' @ '':'' @ json_string (if regenerate then ''regenerate'' else ''resume''),
        json_string ''node_id'' @ '':'' @ (case node of None \<Rightarrow> ''null'' | Some n \<Rightarrow> json_string (to_lower n)),
        json_string ''expected_workspace_revision'' @ '':'' @ int_text revision] @ ''}'')"

section \<open>The view\<close>

record option_view =
  ov_available :: bool
  ov_reason :: "reason option"

record chapter_view = option_view +
  cv_node_id :: string
  cv_chapter_key :: string
  cv_unit_count :: nat

record unit_view = option_view +
  uv_node_id :: string
  uv_chapter_node_id :: "string option"
  uv_rewrites_used :: int

record course_view = option_view +
  co_node_id :: string
  co_unit_count :: nat

record recovery_view =
  rv_run_id :: "string option"
  rv_run_status :: "run_status option"
  rv_workspace_status :: string
  rv_failure_code :: "string option"
  rv_event_head :: int
  rv_draining :: bool
  rv_stop :: option_view
  rv_resume :: option_view
  rv_resume_task_count :: nat
  rv_regenerate :: option_view
  rv_max_rewrites_per_lesson :: int
  rv_missing_unit_count :: nat
  rv_course :: "course_view option"
  rv_chapters :: "chapter_view list"
  rv_units :: "unit_view list"

record describe_input =
  di_run :: "recovery_run option"
  di_workspace_status :: string
  di_event_head :: int
  di_tasks :: "recovery_task list"
  di_course_node :: "(string \<times> string) option"
  di_stop_enabled :: bool
  di_recovery_enabled :: bool
  di_runtime_changed :: bool
  di_sources_available :: "bool option"

definition gate :: "describe_input \<Rightarrow> reason option \<Rightarrow> option_view" where
  "gate inp r = (let effective = (if \<not> di_recovery_enabled inp then Some RECOVERY_DISABLED
       else (case r of Some x \<Rightarrow> Some x | None \<Rightarrow> if di_runtime_changed inp then Some RECOVERY_RUNTIME_CHANGED else None))
     in \<lparr>ov_available = (effective = None), ov_reason = effective\<rparr>)"

definition plan_result :: "describe_input \<Rightarrow> request \<Rightarrow> reason + recovery_plan" where
  "plan_result inp req = planOrchestrationV2Recovery (di_run inp) (di_tasks inp) req"

definition option_for :: "describe_input \<Rightarrow> request \<Rightarrow> option_view" where
  "option_for inp req = (case plan_result inp req of
       Inl r \<Rightarrow> gate inp (Some r)
     | Inr p \<Rightarrow> gate inp (if req \<noteq> Resume \<and> di_sources_available inp = Some False
                   then Some RECOVERY_SOURCE_DOCUMENT_MISSING else None))"

definition ai_units :: "describe_input \<Rightarrow> request \<Rightarrow> nat" where
  "ai_units inp req = (case plan_result inp req of Inl r \<Rightarrow> 0 | Inr p \<Rightarrow> rp_ai_unit_count p)"

definition open_units :: "recovery_task list \<Rightarrow> recovery_task list" where
  "open_units tasks = sort_key rt_ordinal (filter (\<lambda>t. rt_kind t = Generate_unit \<and> truthy (rt_node_id t)
     \<and> rt_status t \<noteq> Succeeded \<and> \<not> rt_node_has_content t) tasks)"

definition chapter_nodes :: "recovery_task list \<Rightarrow> recovery_task list" where
  "chapter_nodes tasks = sort_key rt_ordinal (filter (\<lambda>t. rt_kind t = Validate_chapter \<and> truthy (rt_node_id t)
     \<and> truthy (rt_node_path t) \<and> truthy (rt_chapter_key t)) tasks)"

definition text_of :: "string option \<Rightarrow> string" where
  "text_of x = (case x of None \<Rightarrow> [] | Some s \<Rightarrow> s)"

definition unit_request :: "recovery_task \<Rightarrow> request" where
  "unit_request u = Regenerate \<lparr>sc_node_id = text_of (rt_node_id u), sc_kind = Unit_scope, sc_path = text_of (rt_node_path u)\<rparr>"

definition chapter_request :: "recovery_task \<Rightarrow> request" where
  "chapter_request c = Regenerate \<lparr>sc_node_id = text_of (rt_node_id c), sc_kind = Chapter_scope, sc_path = text_of (rt_node_path c)\<rparr>"

definition course_request :: "string \<times> string \<Rightarrow> request" where
  "course_request n = Regenerate \<lparr>sc_node_id = fst n, sc_kind = Course_scope, sc_path = snd n\<rparr>"

definition chapter_option :: "describe_input \<Rightarrow> recovery_task \<Rightarrow> chapter_view" where
  "chapter_option inp c = option_view.extend (option_for inp (chapter_request c))
     (chapter_view.fields (text_of (rt_node_id c)) (text_of (rt_chapter_key c)) (ai_units inp (chapter_request c)))"

definition unit_option :: "describe_input \<Rightarrow> recovery_task list \<Rightarrow> recovery_task \<Rightarrow> unit_view" where
  "unit_option inp chapters u = option_view.extend (option_for inp (unit_request u))
     (unit_view.fields (text_of (rt_node_id u))
        (case List.find (\<lambda>c. rt_chapter_key c = rt_chapter_key u) chapters of None \<Rightarrow> None | Some c \<Rightarrow> rt_node_id c)
        (rt_generation u))"

definition describeOrchestrationV2Recovery :: "describe_input \<Rightarrow> recovery_view" where
  "describeOrchestrationV2Recovery inp = (let
      run = di_run inp; tasks = di_tasks inp;
      blocker = orchestrationV2RecoveryRunBlocker run tasks;
      stop_reason = (if di_stop_enabled inp then orchestrationV2StopReason run else Some RECOVERY_DISABLED);
      units = open_units tasks;
      chapters = chapter_nodes tasks;
      course = (if units = [] then None else di_course_node inp)
    in \<lparr>rv_run_id = map_option ru_run_id run, rv_run_status = map_option ru_status run,
       rv_workspace_status = di_workspace_status inp,
       rv_failure_code = (case run of None \<Rightarrow> None | Some r \<Rightarrow> ru_failure_code r),
       rv_event_head = di_event_head inp, rv_draining = (blocker = Some RECOVERY_DRAINING),
       rv_stop = \<lparr>ov_available = (stop_reason = None), ov_reason = stop_reason\<rparr>,
       rv_resume = option_for inp Resume,
       rv_resume_task_count = (case plan_result inp Resume of Inl r \<Rightarrow> 0 | Inr p \<Rightarrow> length (rp_items p)),
       rv_regenerate = (case course of
            Some n \<Rightarrow> option_for inp (course_request n)
          | None \<Rightarrow> gate inp (case blocker of Some r \<Rightarrow> Some r | None \<Rightarrow> Some RECOVERY_NOTHING_TO_DO)),
       rv_max_rewrites_per_lesson = UNIT_REWRITE_LIMIT,
       rv_missing_unit_count = length units,
       rv_course = (case course of None \<Rightarrow> None
          | Some n \<Rightarrow> Some (option_view.extend (option_for inp (course_request n))
              (course_view.fields (fst n) (ai_units inp (course_request n))))),
       rv_chapters = map (chapter_option inp)
          (filter (\<lambda>c. list_ex (\<lambda>u. rt_chapter_key u = rt_chapter_key c) units) chapters),
       rv_units = map (unit_option inp chapters) units\<rparr>)"

section \<open>The chosen tasks\<close>

text \<open>What every chosen task satisfies, whichever request chose it.\<close>

definition reopen_limit :: "task_kind \<Rightarrow> int" where
  "reopen_limit k = (if k = Generate_unit then UNIT_REWRITE_LIMIT else DETERMINISTIC_REOPEN_LIMIT)"

definition may_reopen :: "recovery_task \<Rightarrow> bool" where
  "may_reopen t \<longleftrightarrow> (rt_kind t = Generate_unit \<or> deterministic_kind (rt_kind t)) \<and> reopenable (rt_status t)
     \<and> accountingReady t \<and> rt_generation t + 1 \<le> reopen_limit (rt_kind t) \<and> epochHeadroom t"

definition sound_choice :: "recovery_task list \<Rightarrow> (string \<times> recovery_task) list \<Rightarrow> bool" where
  "sound_choice tasks chosen \<longleftrightarrow> distinct (map fst chosen) \<and>
     (\<forall>(k, t) \<in> set chosen. k = rt_task_id t \<and> t \<in> set tasks \<and> may_reopen t
        \<and> (\<forall>d \<in> set (rt_depends_on t). dep_succeeded tasks d \<or> d \<in> fst ` set chosen))"

lemma sound_choice_insert:
  assumes "sound_choice tasks chosen" "t \<in> set tasks" "may_reopen t"
    and "\<forall>d \<in> set (rt_depends_on t). dep_succeeded tasks d \<or> d \<in> fst ` set chosen"
  shows "sound_choice tasks (js_map_set (rt_task_id t) t chosen)"
proof -
  let ?c = "js_map_set (rt_task_id t) t chosen"
  have "distinct (map fst ?c)" using assms(1) by (simp add: sound_choice_def distinct_js_map_set)
  moreover have "k = rt_task_id u \<and> u \<in> set tasks \<and> may_reopen u
      \<and> (\<forall>d \<in> set (rt_depends_on u). dep_succeeded tasks d \<or> d \<in> fst ` set ?c)"
    if "(k, u) \<in> set ?c" for k u
  proof -
    from that set_js_map_set have "(k, u) = (rt_task_id t, t) \<or> (k, u) \<in> set chosen" by fast
    then show ?thesis
    proof
      assume "(k, u) = (rt_task_id t, t)"
      then show ?thesis using assms(2-) by (simp add: fst_js_map_set) metis
    next
      assume "(k, u) \<in> set chosen"
      then show ?thesis using assms(1) by (simp add: sound_choice_def fst_js_map_set) blast
    qed
  qed
  ultimately show ?thesis by (auto simp: sound_choice_def)
qed

lemma choose_units_sound:
  assumes "choose_units tasks ts chosen = Inr chosen'" "sound_choice tasks chosen"
    and "set ts \<subseteq> set tasks" "\<forall>t \<in> set ts. rt_kind t = Generate_unit"
  shows "sound_choice tasks chosen' \<and> fst ` set chosen' = fst ` set chosen \<union> rt_task_id ` set ts"
  using assms
proof (induction ts arbitrary: chosen)
  case (Cons t ts)
  then have t: "may_reopen t" "list_all (dep_succeeded tasks) (rt_depends_on t)"
    by (auto simp: may_reopen_def reopen_limit_def)
  then have "sound_choice tasks (js_map_set (rt_task_id t) t chosen)"
    using Cons.prems by (intro sound_choice_insert) (auto simp: list_all_iff)
  with Cons.IH [of "js_map_set (rt_task_id t) t chosen"] Cons.prems show ?case
    by (auto simp: fst_js_map_set)
qed simp

lemma choose_deterministic_sound:
  assumes "sound_choice tasks chosen" "set ts \<subseteq> set tasks"
  shows "sound_choice tasks (choose_deterministic tasks ts chosen)
    \<and> fst ` set chosen \<subseteq> fst ` set (choose_deterministic tasks ts chosen)"
  using assms
proof (induction ts arbitrary: chosen)
  case (Cons t ts)
  show ?case
  proof (cases "reopens_deterministic tasks chosen t")
    case True
    then have "sound_choice tasks (js_map_set (rt_task_id t) t chosen)"
      using Cons.prems by (intro sound_choice_insert)
        (auto simp: reopens_deterministic_def may_reopen_def reopen_limit_def deterministic_kind_def list_all_iff)
    with Cons.IH [of "js_map_set (rt_task_id t) t chosen"] Cons.prems True show ?thesis
      by (auto simp: fst_js_map_set)
  qed (use Cons in auto)
qed simp

lemma scope_choice_sound:
  assumes "scope_choice req tasks = Inr chosen"
  shows "sound_choice tasks chosen"
proof (cases req)
  case Resume
  then show ?thesis using assms by (simp add: scope_choice_def sound_choice_def)
next
  case (Regenerate sc)
  with assms have "choose_units tasks (missing_units (filter (inScope sc) tasks)) [] = Inr chosen"
    by (simp add: scope_choice_def Let_def)
  then show ?thesis
    by (rule choose_units_sound [THEN conjunct1]) (auto simp: missing_units_def inScope_def sound_choice_def)
qed

lemma choose_deterministic_kind:
  "snd ` set (choose_deterministic tasks ts chosen) \<subseteq> snd ` set chosen \<union> {t. deterministic_kind (rt_kind t)}"
proof (induction ts arbitrary: chosen)
  case (Cons t ts)
  show ?case
  proof (cases "reopens_deterministic tasks chosen t")
    case True
    then have "deterministic_kind (rt_kind t)" by (simp add: reopens_deterministic_def)
    moreover have "snd ` set (js_map_set (rt_task_id t) t chosen) \<subseteq> insert t (snd ` set chosen)"
      using image_mono [OF set_js_map_set, of snd "rt_task_id t" t chosen] by simp
    ultimately show ?thesis
      using True Cons.IH [of "js_map_set (rt_task_id t) t chosen"] by simp blast
  qed (use Cons.IH [of chosen] in simp)
qed auto

lemma planned_recovery:
  assumes "planOrchestrationV2Recovery run input req = Inr p"
  obtains chosen1 chosen where "orchestrationV2RecoveryRunBlocker run input = None"
    "scope_choice req (sort_key rt_ordinal input) = Inr chosen1"
    "chosen = choose_deterministic (sort_key rt_ordinal input) (sort_key rt_ordinal input) chosen1" "chosen \<noteq> []"
    "rp_request p = req"
    "rp_items p = map (item_of (sort_key rt_ordinal input)) (sort_key rt_ordinal (map snd chosen))"
    "list_all (\<lambda>i. is_failure_code (it_prior_failure_code i)) (rp_items p)"
    "rp_ai_unit_count p = length (filter (\<lambda>i. it_kind i = Generate_unit) (rp_items p))"
    "sound_choice (sort_key rt_ordinal input) chosen"
proof -
  let ?ts = "sort_key rt_ordinal input"
  from assms have b: "orchestrationV2RecoveryRunBlocker run input = None"
    by (auto simp: planOrchestrationV2Recovery_def split: option.splits)
  with assms obtain chosen1 where c: "scope_choice req ?ts = Inr chosen1"
    and ne: "choose_deterministic ?ts ?ts chosen1 \<noteq> []"
    and codes: "\<not> list_ex (\<lambda>i. \<not> is_failure_code (it_prior_failure_code i)) (map (item_of ?ts) (sort_key rt_ordinal (map snd (choose_deterministic ?ts ?ts chosen1))))"
    and p: "p = \<lparr>rp_request = req, rp_items = map (item_of ?ts) (sort_key rt_ordinal (map snd (choose_deterministic ?ts ?ts chosen1))),
        rp_ai_unit_count = length (filter (\<lambda>i. it_kind i = Generate_unit) (map (item_of ?ts) (sort_key rt_ordinal (map snd (choose_deterministic ?ts ?ts chosen1)))))\<rparr>"
    by (auto simp: planOrchestrationV2Recovery_def Let_def)
  have s: "sound_choice ?ts (choose_deterministic ?ts ?ts chosen1)"
    by (rule choose_deterministic_sound [THEN conjunct1, OF scope_choice_sound [OF c]]) simp
  show ?thesis
    by (rule that [OF b c refl ne _ _ _ _ s]) (use codes in \<open>auto simp: p list_all_iff list_ex_iff\<close>)
qed

lemma chosen_ids:
  assumes "sound_choice tasks chosen"
  shows "rt_task_id ` set (sort_key f (map snd chosen)) = fst ` set chosen"
proof -
  have "rt_task_id (snd q) = fst q" if "q \<in> set chosen" for q
    using assms that by (auto simp: sound_choice_def)
  then show ?thesis by (simp add: image_image)
qed

lemma dep_succeeded_iff:
  assumes "distinct (map rt_task_id tasks)"
  shows "dep_succeeded tasks d \<longleftrightarrow> (\<exists>t \<in> set tasks. rt_task_id t = d \<and> rt_status t = Succeeded)"
proof -
  have d: "distinct (map fst (map (\<lambda>t. (rt_task_id t, t)) tasks))" using assms by (simp add: comp_def)
  show ?thesis
    unfolding dep_succeeded_def by_id_def js_map_get_distinct [OF d] map_option_eq_Some map_of_eq_Some_iff [OF d]
    by auto
qed

definition succeeded_ids :: "recovery_task list \<Rightarrow> string set" where
  "succeeded_ids tasks = rt_task_id ` {t \<in> set tasks. rt_status t = Succeeded}"

text \<open>The run's graph: distinct task ids, and every dependency is a task with a smaller ordinal.\<close>

definition run_graph :: "recovery_task list \<Rightarrow> bool" where
  "run_graph tasks \<longleftrightarrow> distinct (map rt_task_id tasks) \<and> list_all (\<lambda>t. list_all (\<lambda>d.
     list_ex (\<lambda>u. rt_task_id u = d \<and> rt_ordinal u < rt_ordinal t) tasks) (rt_depends_on t)) tasks"

definition reopened_tasks :: "recovery_task list \<times> recovery_plan \<Rightarrow> recovery_task list" where
  "reopened_tasks m = filter (\<lambda>t. rt_task_id t \<in> it_task_id ` set (rp_items (snd m))) (fst m)"

definition reopened_run :: "recovery_task list \<times> recovery_plan \<Rightarrow> bool" where
  "reopened_run m \<longleftrightarrow> run_graph (fst m) \<and> (\<exists>run req. planOrchestrationV2Recovery run (fst m) req = Inr (snd m))"

lemma item_of_id [simp]: "it_task_id (item_of tasks t) = rt_task_id t"
  by (simp add: item_of_def)

lemma reopened_dependency:
  assumes "reopened_run m" "t \<in> set (reopened_tasks m)" "d \<in> set (rt_depends_on t)"
  shows "d \<in> succeeded_ids (fst m) \<or> (\<exists>u \<in> set (reopened_tasks m). rt_task_id u = d \<and> rt_ordinal u < rt_ordinal t)"
proof -
  obtain input p where m: "m = (input, p)" by (cases m)
  from assms(1) m obtain run req where plan: "planOrchestrationV2Recovery run input req = Inr p"
    and g: "run_graph input" by (auto simp: reopened_run_def)
  let ?ts = "sort_key rt_ordinal input"
  from plan obtain chosen where items: "rp_items p = map (item_of ?ts) (sort_key rt_ordinal (map snd chosen))"
    and s: "sound_choice ?ts chosen" by (rule planned_recovery)
  have ids: "it_task_id ` set (rp_items p) = fst ` set chosen"
    using chosen_ids [OF s, of rt_ordinal] by (simp add: items image_image)
  have dist: "distinct (map rt_task_id input)" using g by (simp add: run_graph_def)
  then have dist': "distinct (map rt_task_id ?ts)"
    by (metis distinct_map distinct_sort set_sort)
  from assms(2) m ids have t: "t \<in> set input" "rt_task_id t \<in> fst ` set chosen" by (auto simp: reopened_tasks_def)
  then obtain t' where t': "(rt_task_id t, t') \<in> set chosen" by auto
  with s have "t' \<in> set ?ts" "rt_task_id t' = rt_task_id t" by (auto simp: sound_choice_def)
  with t dist have "t' = t" by (auto simp: distinct_map dest: inj_onD)
  with t' s assms(3) have d: "dep_succeeded ?ts d \<or> d \<in> fst ` set chosen" by (auto simp: sound_choice_def)
  from g t assms(3) obtain u where u: "u \<in> set input" "rt_task_id u = d" "rt_ordinal u < rt_ordinal t"
    by (fastforce simp: run_graph_def list_all_iff list_ex_iff)
  from d show ?thesis
  proof
    assume "dep_succeeded ?ts d"
    then show ?thesis by (auto simp: dep_succeeded_iff [OF dist'] succeeded_ids_def m)
  next
    assume "d \<in> fst ` set chosen"
    with u ids show ?thesis by (auto simp: reopened_tasks_def m)
  qed
qed

interpretation reopening: dependency_order reopened_run reopened_tasks "\<lambda>m. succeeded_ids (fst m)"
    rt_task_id rt_ordinal rt_depends_on
  by unfold_locales (rule reopened_dependency)

section \<open>A stopped run\<close>

definition example_run :: recovery_run where
  "example_run = \<lparr>ru_run_id = ''r'', ru_status = Needs_action, ru_failure_code = Some ''RUN_STOPPED_BY_AUTHOR'',
     ru_finished_at = Some ''t'', ru_manifest_sealed = True, ru_completion_receipt = False,
     ru_review_receipt = False, ru_workspace_status = ''needs_action'', ru_event_head = 7\<rparr>"

definition example_task :: "string \<Rightarrow> int \<Rightarrow> task_kind \<Rightarrow> task_status \<Rightarrow> string list \<Rightarrow> recovery_task" where
  "example_task i n kind st deps = \<lparr>rt_task_id = i, rt_ordinal = n, rt_kind = kind, rt_status = st,
     rt_failure_code = (if st = Succeeded then None else Some ''TASK_FAILED''), rt_attempt_count = 1,
     rt_max_attempts = 2, rt_dispatch_epoch = 1, rt_chapter_key = Some ''ch1'', rt_node_id = Some i,
     rt_node_path = Some ''c.x'', rt_node_has_content = False, rt_ai_reservation_id = None,
     rt_accounting_state = ''not_required'', rt_reservation_status = None, rt_generation = 0,
     rt_depends_on = deps\<rparr>"

definition example_tasks :: "recovery_task list" where
  "example_tasks = [example_task ''f'' 3 Finalize_course Canceled [''v''],
     example_task ''i'' 0 Publish_inventory Succeeded [],
     example_task ''u'' 1 Generate_unit Failed [''i''],
     example_task ''v'' 2 Validate_chapter Canceled [''u'']]"

definition example_request :: request where
  "example_request = Regenerate \<lparr>sc_node_id = ''u'', sc_kind = Unit_scope, sc_path = []\<rparr>"

definition example_plan_result :: recovery_plan where
  "example_plan_result = projr (planOrchestrationV2Recovery (Some example_run) example_tasks example_request)"

lemma example_recovery: "planOrchestrationV2Recovery (Some example_run) example_tasks example_request = Inr example_plan_result"
proof -
  have "ok (planOrchestrationV2Recovery (Some example_run) example_tasks example_request)" by code_simp
  then show ?thesis by (auto simp: ok_iff example_plan_result_def)
qed

lemma example_run_graph: "run_graph example_tasks"
  by code_simp

section \<open>Properties\<close>

lemma image_of_selected: "I \<subseteq> f ` A \<Longrightarrow> f ` {x \<in> A. f x \<in> I} = I"
  by blast

text \<open>
  C26: a reopened task never waits on a task nobody will run: in a run whose dependencies have smaller
  ordinals, from the tasks that have succeeded, letting runnable tasks of the run succeed one after the
  other finishes every task a recovery plan reopens.
\<close>

theorem reopened_tasks_can_finish:
  assumes "planOrchestrationV2Recovery run tasks req = Inr p" and "run_graph tasks"
  shows "runs rt_task_id rt_depends_on tasks (succeeded_ids tasks)
     (succeeded_ids tasks \<union> it_task_id ` set (rp_items p))"
proof -
  let ?m = "(tasks, p)"
  have wf: "reopened_run ?m" using assms by (auto simp: reopened_run_def)
  have "runs rt_task_id rt_depends_on (reopened_tasks ?m) (succeeded_ids tasks)
      (succeeded_ids tasks \<union> rt_task_id ` set (reopened_tasks ?m))"
    using reopening.runs_to_completion [OF wf, of "succeeded_ids tasks"] by simp
  then have r: "runs rt_task_id rt_depends_on tasks (succeeded_ids tasks)
      (succeeded_ids tasks \<union> rt_task_id ` set (reopened_tasks ?m))"
    by (rule runs_mono) (simp add: reopened_tasks_def)
  from assms(1) obtain chosen where items: "rp_items p = map (item_of (sort_key rt_ordinal tasks)) (sort_key rt_ordinal (map snd chosen))"
    and s: "sound_choice (sort_key rt_ordinal tasks) chosen" by (rule planned_recovery)
  have "it_task_id ` set (rp_items p) \<subseteq> rt_task_id ` set tasks"
    using s by (auto simp: items sound_choice_def)
  then have "rt_task_id ` set (reopened_tasks ?m) = it_task_id ` set (rp_items p)"
    by (simp only: reopened_tasks_def fst_conv snd_conv set_filter) (rule image_of_selected)
  with r show ?thesis by simp
qed

theorem reopened_tasks_can_finish_witness:
  "runs rt_task_id rt_depends_on example_tasks (succeeded_ids example_tasks)
     (succeeded_ids example_tasks \<union> it_task_id ` set (rp_items example_plan_result))
   \<and> map it_task_id (rp_items example_plan_result) = [''u'', ''v'', ''f'']"
proof
  show "map it_task_id (rp_items example_plan_result) = [''u'', ''v'', ''f'']" by code_simp
qed (rule reopened_tasks_can_finish [OF example_recovery example_run_graph])

lemma rewrite_reopens_unit:
  assumes c1: "scope_choice req ts = Inr chosen1" and c: "chosen = choose_deterministic ts ts chosen1"
    and s: "sound_choice ts chosen" and req: "req \<noteq> Resume" "distinct (map rt_task_id ts)"
  shows "\<exists>t \<in> snd ` set chosen. rt_kind t = Generate_unit"
proof (cases req)
  case (Regenerate sc)
  let ?ms = "missing_units (filter (inScope sc) ts)"
  from Regenerate c1 have m: "?ms \<noteq> []" and u: "choose_units ts ?ms [] = Inr chosen1"
    by (auto simp: scope_choice_def Let_def)
  from m obtain t where t: "t \<in> set ?ms" by (cases ?ms) auto
  have sub: "set ?ms \<subseteq> set ts" and gen: "\<forall>t \<in> set ?ms. rt_kind t = Generate_unit"
    by (auto simp: missing_units_def inScope_def)
  have "sound_choice ts []" by (simp add: sound_choice_def)
  from choose_units_sound [OF u this sub gen] have "fst ` set chosen1 = rt_task_id ` set ?ms" "sound_choice ts chosen1"
    by simp_all
  with choose_deterministic_sound [of ts chosen1 ts] t have "rt_task_id t \<in> fst ` set chosen" by (auto simp: c)
  then obtain t' where t': "(rt_task_id t, t') \<in> set chosen" by auto
  with s have "t' \<in> set ts" "rt_task_id t' = rt_task_id t" by (auto simp: sound_choice_def)
  with t sub req(2) have "t' = t" by (auto simp: distinct_map dest: inj_onD)
  with t t' gen show ?thesis by force
qed (use req in simp)



lemma option_for_available: "ov_available (option_for inp req) \<longleftrightarrow>
    ok (plan_result inp req) \<and> di_recovery_enabled inp \<and> \<not> di_runtime_changed inp
    \<and> (req = Resume \<or> di_sources_available inp \<noteq> Some False)"
  by (cases "plan_result inp req") (auto simp: option_for_def gate_def Let_def split: if_splits)

lemma option_view_extend [simp]:
  "ov_available (option_view.extend v x) = ov_available v" "ov_reason (option_view.extend v x) = ov_reason v"
  by (simp_all add: option_view.defs)

lemma view_parts:
  "rv_resume (describeOrchestrationV2Recovery inp) = option_for inp Resume"
  "rv_units (describeOrchestrationV2Recovery inp)
     = map (unit_option inp (chapter_nodes (di_tasks inp))) (open_units (di_tasks inp))"
  "rv_chapters (describeOrchestrationV2Recovery inp)
     = map (chapter_option inp) (filter (\<lambda>c. list_ex (\<lambda>u. rt_chapter_key u = rt_chapter_key c) (open_units (di_tasks inp)))
         (chapter_nodes (di_tasks inp)))"
  "ov_available (rv_stop (describeOrchestrationV2Recovery inp))
     \<longleftrightarrow> di_stop_enabled inp \<and> orchestrationV2StopReason (di_run inp) = None"
  by (simp_all add: describeOrchestrationV2Recovery_def Let_def)

lemma stop_excludes_plan: "orchestrationV2StopReason run = None \<Longrightarrow> \<not> ok (planOrchestrationV2Recovery run tasks req)"
  by (auto simp: orchestrationV2StopReason_def planOrchestrationV2Recovery_def orchestrationV2RecoveryRunBlocker_def
      split: option.splits if_splits)

lemma blocker_reasons: "orchestrationV2RecoveryRunBlocker run tasks \<noteq> Some RUN_STOP_NOT_ACTIVE"
  by (auto simp: orchestrationV2RecoveryRunBlocker_def split: option.splits)

text \<open>What the author may do now: the switches allow it and the planner accepts the request.\<close>

definition offers :: "describe_input \<Rightarrow> request \<Rightarrow> bool" where
  "offers inp req \<longleftrightarrow> di_recovery_enabled inp \<and> \<not> di_runtime_changed inp
     \<and> (req = Resume \<or> di_sources_available inp \<noteq> Some False)
     \<and> ok (planOrchestrationV2Recovery (di_run inp) (di_tasks inp) req)"

definition shown_chapters :: "recovery_task list \<Rightarrow> recovery_task list" where
  "shown_chapters ts = filter (\<lambda>c. list_ex (\<lambda>u. rt_chapter_key u = rt_chapter_key c) (open_units ts)) (chapter_nodes ts)"

lemma available_offers: "ov_available (option_for inp req) = offers inp req"
  by (auto simp: option_for_available offers_def plan_result_def)

text \<open>
  C27: the view offers exactly what the planner would do. Resume, each unit rewrite and each chapter
  rewrite is offered iff recovery is enabled, the runtime is unchanged, no source document is missing
  (rewrites only) and the planner accepts that very request; and stop is never offered together with
  resume or any rewrite.
\<close>

theorem view_agrees_with_planner:
  "ov_available (rv_resume (describeOrchestrationV2Recovery inp)) = offers inp Resume
    \<and> map ov_available (rv_units (describeOrchestrationV2Recovery inp))
        = map (\<lambda>u. offers inp (unit_request u)) (open_units (di_tasks inp))
    \<and> map ov_available (rv_chapters (describeOrchestrationV2Recovery inp))
        = map (\<lambda>c. offers inp (chapter_request c)) (shown_chapters (di_tasks inp))
    \<and> \<not> (ov_available (rv_stop (describeOrchestrationV2Recovery inp)) \<and> (\<exists>req. offers inp req))"
  by (auto simp: view_parts available_offers unit_option_def chapter_option_def shown_chapters_def
      offers_def stop_excludes_plan)

end
