(* ===== verification/Planning.thy ===== *)
theory Planning
  imports Manifest
begin

text \<open>
  Planning of the architecture tasks
  (ai-id/orchestration/lesson-author-orchestration-v2-planning.logic.ts): the skeleton and inventory
  tasks, and the packing of every chapter's source scopes into shards of bounded size. Fields of the
  skeleton that planning never reads (titles, outcomes) are left out of its record.
\<close>

section \<open>Data\<close>

definition V2_MAX_SHARD_SOURCE_CHARS :: int where "V2_MAX_SHARD_SOURCE_CHARS = 400000"
definition V3_MAX_SHARD_SOURCE_CHARS :: int where "V3_MAX_SHARD_SOURCE_CHARS = 60000"

record planning_budgets =
  pb_skeleton :: budget
  pb_chapter :: budget
  pb_architecture_validation_ms :: int
  pb_inventory_publish_ms :: int

record shard_plan =
  sp_chapter_key :: string
  sp_order :: int
  sp_shard_index :: nat
  sp_shard_count :: nat
  sp_source_scope_ids :: "string list"
  sp_source_fact_count :: int
  sp_source_content_chars :: int

record planning_task =
  pk_task_key :: string
  pk_kind :: task_kind
  pk_chapter_key :: "string option"
  pk_contract_hash :: string
  pk_input_context_hash :: string
  pk_budget :: budget
  pk_shard_plan :: "shard_plan option"

record source_scope =
  ss_scope_key :: string
  ss_fact_count :: int
  ss_content_chars :: int

record skeleton_chapter =
  sk_chapter_key :: string
  sk_order :: int
  sk_source_scope_ids :: "string list"

record skeleton =
  sk_source_snapshot_hash :: string
  sk_chapters :: "skeleton_chapter list"

datatype planning_error = Planning_invalid | Scope_exceeds_shard | Planning_hash_error manifest_error

definition planHash :: "(string \<Rightarrow> string) \<Rightarrow> jsval \<Rightarrow> planning_error + string" where
  "planHash sha v = (case orchestrationV2Hash sha v of Inl e \<Rightarrow> Inl (Planning_hash_error e) | Inr h \<Rightarrow> Inr h)"

definition provider_within :: "budget \<Rightarrow> bool" where
  "provider_within b \<longleftrightarrow> safeInteger (input_tokens b) 1 2000000 \<and> safeInteger (embedding_tokens b) 0 2000000
     \<and> safeInteger (max_output_tokens b) 1 65536 \<and> safeInteger (max_provider_attempts b) 1 2
     \<and> safeInteger (execution_budget_ms b) 1 600000"

definition providerBudget :: "budget \<Rightarrow> planning_error + budget" where
  "providerBudget b = ensure Planning_invalid (provider_within b) (Inr b)"

definition idle_budget :: "int \<Rightarrow> budget" where
  "idle_budget ms = \<lparr>input_tokens = 0, embedding_tokens = 0, max_output_tokens = 0,
     max_provider_attempts = 0, execution_budget_ms = ms\<rparr>"

section \<open>The skeleton and inventory tasks\<close>

definition buildOrchestrationV2SkeletonTask ::
    "(string \<Rightarrow> string) \<Rightarrow> string \<Rightarrow> string \<Rightarrow> budget \<Rightarrow> planning_error + planning_task" where
  "buildOrchestrationV2SkeletonTask sha src catalog b =
     ensure Planning_invalid (is_hash src \<and> is_hash catalog)
      (bindE (providerBudget b) (\<lambda>b.
       bindE (planHash sha (JObj [(''contract_version'', JInt 2), (''task_key'', JStr ''architecture:course''),
         (''kind'', JStr (kind_text Course_skeleton)), (''source_snapshot_hash'', JStr src),
         (''source_catalog_hash'', JStr catalog), (''budget'', budget_json b)])) (\<lambda>h.
       Inr \<lparr>pk_task_key = ''architecture:course'', pk_kind = Course_skeleton, pk_chapter_key = None,
         pk_contract_hash = h, pk_input_context_hash = catalog, pk_budget = b, pk_shard_plan = None\<rparr>)))"

definition buildOrchestrationV2InventoryTask ::
    "(string \<Rightarrow> string) \<Rightarrow> string \<Rightarrow> int \<Rightarrow> planning_error + planning_task" where
  "buildOrchestrationV2InventoryTask sha assembly ms =
     ensure Planning_invalid (is_hash assembly \<and> safeInteger ms 1 600000)
      (bindE (planHash sha (JObj [(''contract_version'', JInt 2), (''task_key'', JStr ''inventory:publish''),
         (''kind'', JStr (kind_text Publish_inventory)), (''architecture_assembly_hash'', JStr assembly),
         (''budget'', budget_json (idle_budget ms))])) (\<lambda>h.
       Inr \<lparr>pk_task_key = ''inventory:publish'', pk_kind = Publish_inventory, pk_chapter_key = None,
         pk_contract_hash = h, pk_input_context_hash = assembly, pk_budget = idle_budget ms,
         pk_shard_plan = None\<rparr>))"

section \<open>Packing scopes into shards\<close>

definition shard_limit :: "skeleton_chapter \<Rightarrow> int" where
  "shard_limit c = (if list_all (\<lambda>s. take 7 s = ''scope3_'') (sk_source_scope_ids c)
     then V3_MAX_SHARD_SOURCE_CHARS else V2_MAX_SHARD_SOURCE_CHARS)"

text \<open>\<open>current\<close> and \<open>chars\<close> are the group being filled and its size.\<close>

fun shard_groups :: "int \<Rightarrow> (string \<Rightarrow> source_scope option) \<Rightarrow> source_scope list \<Rightarrow> int \<Rightarrow> string list
    \<Rightarrow> planning_error + source_scope list list" where
  "shard_groups limit by_scope current chars [] = Inr (if current = [] then [] else [current])"
| "shard_groups limit by_scope current chars (k # ks) = (case by_scope k of
       None \<Rightarrow> Inl Planning_invalid
     | Some s \<Rightarrow> ensure Scope_exceeds_shard (\<not> ss_content_chars s > limit)
         (if current \<noteq> [] \<and> chars + ss_content_chars s > limit
          then bindE (shard_groups limit by_scope [s] (ss_content_chars s) ks) (\<lambda>gs. Inr (current # gs))
          else shard_groups limit by_scope (current @ [s]) (chars + ss_content_chars s) ks))"

definition shard_plan_json :: "shard_plan \<Rightarrow> jsval" where
  "shard_plan_json p = JObj [(''chapter_key'', JStr (sp_chapter_key p)), (''order'', JInt (sp_order p)),
     (''shard_index'', JInt (int (sp_shard_index p))), (''shard_count'', JInt (int (sp_shard_count p))),
     (''source_scope_ids'', JArr (map JStr (sp_source_scope_ids p))),
     (''source_fact_count'', JInt (sp_source_fact_count p)),
     (''source_content_chars'', JInt (sp_source_content_chars p))]"

definition shard_of :: "skeleton_chapter \<Rightarrow> nat \<Rightarrow> nat \<times> source_scope list \<Rightarrow> shard_plan" where
  "shard_of c n ig = \<lparr>sp_chapter_key = sk_chapter_key c, sp_order = sk_order c, sp_shard_index = fst ig,
     sp_shard_count = n, sp_source_scope_ids = map ss_scope_key (snd ig),
     sp_source_fact_count = sum_list (map ss_fact_count (snd ig)),
     sp_source_content_chars = sum_list (map ss_content_chars (snd ig))\<rparr>"

definition shard_task :: "(string \<Rightarrow> string) \<Rightarrow> skeleton \<Rightarrow> string \<Rightarrow> budget \<Rightarrow> skeleton_chapter \<Rightarrow> nat
    \<Rightarrow> nat \<times> source_scope list \<Rightarrow> planning_error + planning_task" where
  "shard_task sha sk artifact b c n ig = (let p = shard_of c n ig;
       key = ''architecture:chapter:'' @ sk_chapter_key c @ '':shard:'' @ nat_text (Suc (fst ig)) in
     ensure Planning_invalid (is_key key)
      (bindE (planHash sha (JObj [(''contract_version'', JInt 2), (''task_key'', JStr key),
         (''kind'', JStr (kind_text Chapter_blueprint)), (''source_snapshot_hash'', JStr (sk_source_snapshot_hash sk)),
         (''skeleton_artifact_hash'', JStr artifact), (''shard_plan'', shard_plan_json p),
         (''budget'', budget_json b)])) (\<lambda>h.
       Inr \<lparr>pk_task_key = key, pk_kind = Chapter_blueprint, pk_chapter_key = Some (sk_chapter_key c),
         pk_contract_hash = h, pk_input_context_hash = artifact, pk_budget = b, pk_shard_plan = Some p\<rparr>)))"

definition chapter_tasks :: "(string \<Rightarrow> string) \<Rightarrow> skeleton \<Rightarrow> (string \<Rightarrow> source_scope option) \<Rightarrow> string \<Rightarrow> budget
    \<Rightarrow> skeleton_chapter \<Rightarrow> planning_error + planning_task list" where
  "chapter_tasks sha sk by_scope artifact b c =
     bindE (shard_groups (shard_limit c) by_scope [] 0 (sk_source_scope_ids c)) (\<lambda>groups.
       mapE (shard_task sha sk artifact b c (length groups)) (enumerate 0 groups))"

definition planOrchestrationV2ChapterShards :: "(string \<Rightarrow> string) \<Rightarrow> skeleton \<Rightarrow> source_scope list
    \<Rightarrow> planning_budgets \<Rightarrow> string \<Rightarrow> planning_error + planning_task list \<times> planning_task" where
  "planOrchestrationV2ChapterShards sha sk scopes budgets artifact =
     ensure Planning_invalid (is_hash (sk_source_snapshot_hash sk) \<and> is_hash artifact
         \<and> scopes \<noteq> [] \<and> length scopes \<le> 4096
         \<and> safeInteger (pb_architecture_validation_ms budgets) 1 600000
         \<and> safeInteger (pb_inventory_publish_ms budgets) 1 600000)
      (bindE (providerBudget (pb_chapter budgets)) (\<lambda>chapter_budget.
       bindE (providerBudget (pb_skeleton budgets)) (\<lambda>_.
       let owned = concat (map sk_source_scope_ids (sk_chapters sk)) in
       ensure Planning_invalid (distinct (map ss_scope_key scopes))
        (ensure Planning_invalid (distinct owned \<and> length owned = length scopes
            \<and> set owned \<subseteq> set (map ss_scope_key scopes))
         (bindE (mapE (chapter_tasks sha sk (js_map_get (map (\<lambda>s. (ss_scope_key s, s)) scopes)) artifact chapter_budget)
            (sort_key sk_order (sk_chapters sk))) (\<lambda>tss.
          let tasks = concat tss in
          ensure Planning_invalid (tasks \<noteq> [] \<and> length tasks \<le> 4096)
           (bindE (planHash sha (JObj [(''contract_version'', JInt 2), (''task_key'', JStr ''architecture:validate''),
              (''kind'', JStr (kind_text Validate_architecture)),
              (''source_snapshot_hash'', JStr (sk_source_snapshot_hash sk)),
              (''skeleton_artifact_hash'', JStr artifact),
              (''chapter_contract_hashes'', JArr (map (\<lambda>t. JStr (pk_contract_hash t)) tasks)),
              (''execution_budget_ms'', JInt (pb_architecture_validation_ms budgets))])) (\<lambda>h.
            Inr (tasks, \<lparr>pk_task_key = ''architecture:validate'', pk_kind = Validate_architecture,
              pk_chapter_key = None, pk_contract_hash = h, pk_input_context_hash = artifact,
              pk_budget = idle_budget (pb_architecture_validation_ms budgets), pk_shard_plan = None\<rparr>)))))))))"

section \<open>The packing\<close>

definition group_chars :: "source_scope list \<Rightarrow> int" where
  "group_chars g = sum_list (map ss_content_chars g)"

text \<open>Each group is full: the first scope of the next group would not have fitted.\<close>

fun greedy :: "int \<Rightarrow> source_scope list list \<Rightarrow> bool" where
  "greedy limit (g # h # gs) = (group_chars g + ss_content_chars (hd h) > limit \<and> greedy limit (h # gs))"
| "greedy limit gs = True"

lemma shard_groups_first:
  "shard_groups limit by_scope current chars ks = Inr (g # gs) \<Longrightarrow> current \<noteq> [] \<Longrightarrow> hd g = hd current"
proof (induction ks arbitrary: current chars g gs)
  case (Cons k ks)
  then show ?case
    by (auto split: option.splits if_splits)
qed auto

lemma shard_groups_correct:
  assumes "shard_groups limit by_scope current chars ks = Inr gs"
    and "chars = group_chars current" "chars \<le> limit \<or> current = []" "0 \<le> limit"
    and "\<And>k s. by_scope k = Some s \<Longrightarrow> ss_scope_key s = k"
  shows "map ss_scope_key (concat gs) = map ss_scope_key current @ ks
    \<and> (\<forall>g \<in> set gs. g \<noteq> [] \<and> group_chars g \<le> limit) \<and> greedy limit gs"
  using assms(1-3)
proof (induction ks arbitrary: current chars gs)
  case Nil
  then show ?case by (auto split: if_splits)
next
  case (Cons k ks)
  then obtain s where s: "by_scope k = Some s" "ss_content_chars s \<le> limit"
    by (auto split: option.splits)
  have key: "ss_scope_key s = k" using s(1) by (rule assms(5))
  show ?case
  proof (cases "current \<noteq> [] \<and> chars + ss_content_chars s > limit")
    case True
    with Cons.prems s obtain gs' where gs': "shard_groups limit by_scope [s] (ss_content_chars s) ks = Inr gs'"
      "gs = current # gs'" by auto
    have IH: "map ss_scope_key (concat gs') = map ss_scope_key [s] @ ks
        \<and> (\<forall>g \<in> set gs'. g \<noteq> [] \<and> group_chars g \<le> limit) \<and> greedy limit gs'"
      by (rule Cons.IH [OF gs'(1)]) (use s in \<open>simp_all add: group_chars_def\<close>)
    have "greedy limit gs"
      using shard_groups_first [of limit by_scope "[s]" "ss_content_chars s" ks] gs' IH True Cons.prems(2)
      by (cases gs') auto
    with IH gs' True Cons.prems key show ?thesis by auto
  next
    case False
    with Cons.prems s have "shard_groups limit by_scope (current @ [s]) (chars + ss_content_chars s) ks = Inr gs"
      using Cons.prems(1) by (auto split: if_splits)
    then have "map ss_scope_key (concat gs) = map ss_scope_key (current @ [s]) @ ks
        \<and> (\<forall>g \<in> set gs. g \<noteq> [] \<and> group_chars g \<le> limit) \<and> greedy limit gs"
      by (rule Cons.IH) (use False s Cons.prems in \<open>auto simp: group_chars_def\<close>)
    with key show ?thesis by simp
  qed
qed

lemma concat_map_concat: "concat (map f (concat xss)) = concat (map (\<lambda>xs. concat (map f xs)) xss)"
  by (induction xss) auto

definition shard_ids :: "planning_task \<Rightarrow> string list" where
  "shard_ids t = (case pk_shard_plan t of None \<Rightarrow> [] | Some p \<Rightarrow> sp_source_scope_ids p)"

definition shard_size_ok :: "planning_task \<Rightarrow> bool" where
  "shard_size_ok t \<longleftrightarrow> (case pk_shard_plan t of None \<Rightarrow> False
     | Some p \<Rightarrow> sp_source_scope_ids p \<noteq> [] \<and> sp_source_content_chars p \<le> V2_MAX_SHARD_SOURCE_CHARS
         \<and> sp_shard_index p < sp_shard_count p)"

lemma shard_task_Inr:
  "shard_task sha sk artifact b c n ig = Inr t \<Longrightarrow> pk_shard_plan t = Some (shard_of c n ig)"
  by (auto simp: shard_task_def Let_def)

lemma chapter_tasks_correct:
  assumes "chapter_tasks sha sk by_scope artifact b c = Inr ts"
    and key: "\<And>k s. by_scope k = Some s \<Longrightarrow> ss_scope_key s = k"
  shows "concat (map shard_ids ts) = sk_source_scope_ids c \<and> (\<forall>t \<in> set ts. shard_size_ok t)"
proof -
  from assms(1) obtain gs where gs: "shard_groups (shard_limit c) by_scope [] 0 (sk_source_scope_ids c) = Inr gs"
    and ts: "mapE (shard_task sha sk artifact b c (length gs)) (enumerate 0 gs) = Inr ts"
    by (auto simp: chapter_tasks_def)
  have g: "map ss_scope_key (concat gs) = sk_source_scope_ids c
      \<and> (\<forall>g \<in> set gs. g \<noteq> [] \<and> group_chars g \<le> shard_limit c)"
    using shard_groups_correct [OF gs _ _ _ key]
    by (simp add: group_chars_def shard_limit_def V2_MAX_SHARD_SOURCE_CHARS_def V3_MAX_SHARD_SOURCE_CHARS_def)
  have len: "length ts = length gs" using mapE_Inr_length [OF ts] by simp
  have nth: "pk_shard_plan (ts ! i) = Some (shard_of c (length gs) (i, gs ! i))" if "i < length gs" for i
    using mapE_Inr_nth [OF ts, of i] that shard_task_Inr by (simp add: nth_enumerate_eq)
  have "map shard_ids ts = map (map ss_scope_key) gs"
    by (rule nth_equalityI) (auto simp: len nth shard_ids_def shard_of_def)
  then have "concat (map shard_ids ts) = sk_source_scope_ids c" using g by (simp add: map_concat)
  moreover have "shard_size_ok (ts ! i)" if i: "i < length gs" for i
  proof -
    have "gs ! i \<noteq> [] \<and> group_chars (gs ! i) \<le> shard_limit c" using g i by auto
    moreover have "shard_limit c \<le> V2_MAX_SHARD_SOURCE_CHARS"
      by (simp add: shard_limit_def V2_MAX_SHARD_SOURCE_CHARS_def V3_MAX_SHARD_SOURCE_CHARS_def)
    ultimately show ?thesis using i by (simp add: shard_size_ok_def nth shard_of_def group_chars_def)
  qed
  ultimately show ?thesis using len by (auto simp: in_set_conv_nth)
qed

lemma plan_shards_Inr:
  assumes "planOrchestrationV2ChapterShards sha sk scopes budgets artifact = Inr (tasks, v)"
  obtains tss where "mapE (chapter_tasks sha sk (js_map_get (map (\<lambda>s. (ss_scope_key s, s)) scopes)) artifact (pb_chapter budgets))
      (sort_key sk_order (sk_chapters sk)) = Inr tss" "tasks = concat tss"
    "distinct (concat (map sk_source_scope_ids (sk_chapters sk)))"
    "length (concat (map sk_source_scope_ids (sk_chapters sk))) = length scopes"
    "set (concat (map sk_source_scope_ids (sk_chapters sk))) \<subseteq> ss_scope_key ` set scopes"
    "distinct (map ss_scope_key scopes)"
  using assms by (auto simp: planOrchestrationV2ChapterShards_def Let_def providerBudget_def)

section \<open>Properties\<close>


lemma planHash_plain: "plain v \<Longrightarrow> planHash sha v = Inr (sha (canon v))"
  by (simp add: planHash_def hash_plain)

definition example_skeleton :: skeleton where
  "example_skeleton = \<lparr>sk_source_snapshot_hash = replicate 64 (CHR ''a''),
     sk_chapters = [\<lparr>sk_chapter_key = ''ch1'', sk_order = 1, sk_source_scope_ids = [''scope3_a'', ''scope3_b'']\<rparr>]\<rparr>"

definition example_scopes :: "source_scope list" where
  "example_scopes = [\<lparr>ss_scope_key = ''scope3_b'', ss_fact_count = 3, ss_content_chars = 40000\<rparr>,
     \<lparr>ss_scope_key = ''scope3_a'', ss_fact_count = 2, ss_content_chars = 50000\<rparr>]"

definition example_planning_budgets :: planning_budgets where
  "example_planning_budgets = \<lparr>pb_skeleton = example_budget, pb_chapter = example_budget,
     pb_architecture_validation_ms = 1000, pb_inventory_publish_ms = 1000\<rparr>"

lemma example_shard_keys:
  "is_key ''architecture:chapter:ch1:shard:1''" "is_key ''architecture:chapter:ch1:shard:2''"
  "nat_text (Suc 0) = ''1''" "nat_text (Suc (Suc 0)) = ''2''"
  by code_simp+

lemma example_provider: "provider_within example_budget"
  by (simp add: provider_within_def example_budget_def safeInteger_def isSafeInteger_def manifest_limits)

lemma example_shards: "ok (planOrchestrationV2ChapterShards example_sha example_skeleton example_scopes
    example_planning_budgets (replicate 64 (CHR ''b'')))"
  by (simp add: planOrchestrationV2ChapterShards_def example_skeleton_def example_scopes_def
      example_planning_budgets_def example_patterns example_provider providerBudget_def safeInteger_def
      isSafeInteger_def manifest_limits chapter_tasks_def shard_limit_def V3_MAX_SHARD_SOURCE_CHARS_def
      js_map_get_def shard_task_def shard_of_def shard_plan_json_def planHash_plain example_shard_keys
      enumerate_eq_zip Let_def del: replicate.simps)


end
