(* ===== verification/Dispatch.thy ===== *)
theory Dispatch
  imports Canonical_Json Manifest "HOL-Library.Word"
begin

text \<open>
  Task delivery (ai-id/orchestration/dispatch/lesson-author-orchestration-v2-dispatch.logic.ts) and
  the worker's limits and delays (ai-id/orchestration/lesson-author-orchestration-v2-worker.logic.ts).
  A broker body is parsed JSON, a plain value. \<open>UUID_PATTERN.test\<close> converts its argument to a string
  first (\<open>js_to_string\<close>), so the identifiers of an envelope stay JSON values.
\<close>

section \<open>Runtime roles\<close>

datatype runtime_role = Role_disabled | Role_dispatcher | Role_worker

record runtime_isolation =
  is_enabled :: bool
  is_role :: runtime_role
  is_lane_count :: int
  is_lane_index :: int

datatype dispatch_error = Runtime_role_invalid | Dispatch_identity_invalid

definition assertOrchestrationV2RuntimeIsolation :: "runtime_isolation \<Rightarrow> dispatch_error + runtime_isolation" where
  "assertOrchestrationV2RuntimeIsolation i =
     ensure Runtime_role_invalid (safeInteger (is_lane_count i) 1 4096
         \<and> safeInteger (is_lane_index i) 0 (is_lane_count i - 1)
         \<and> \<not> (is_enabled i \<and> is_role i = Role_disabled) \<and> \<not> (\<not> is_enabled i \<and> is_role i \<noteq> Role_disabled))
       (Inr i)"

section \<open>Envelopes\<close>

record dispatch_identity =
  de_outbox_id :: jsval
  de_run_id :: jsval
  de_task_id :: jsval
  de_dispatch_epoch :: jsval
  de_routing_shard :: jsval

text \<open>String(v) of a plain value; an array joins its elements, null among them as nothing.\<close>

primrec js_to_string :: "jsval \<Rightarrow> string option" where
  "js_to_string JUndefined = Some ''undefined''"
| "js_to_string JNull = Some ''null''"
| "js_to_string (JBool b) = Some (if b then ''true'' else ''false'')"
| "js_to_string (JInt i) = Some (int_text i)"
| "js_to_string JNonFinite = None"
| "js_to_string (JStr s) = Some s"
| "js_to_string JFunction = None"
| "js_to_string JSymbol = None"
| "js_to_string JBigInt = None"
| "js_to_string JHole = None"
| "js_to_string JBack = None"
| "js_to_string (JExotic own j) = None"
| "js_to_string (JArr xs) = (let ts = map (\<lambda>p. if fst p = JNull then Some [] else snd p) (zip xs (map js_to_string xs)) in
     if None \<in> set ts then None else Some (comma_join (map the ts)))"
| "js_to_string (JObj ps) = Some ''[object Object]''"

definition uuid_test :: "jsval \<Rightarrow> bool" where
  "uuid_test v \<longleftrightarrow> (case js_to_string v of None \<Rightarrow> False | Some s \<Rightarrow> isUuid s)"

definition int_test :: "jsval \<Rightarrow> int \<Rightarrow> int \<Rightarrow> bool" where
  "int_test v lo hi \<longleftrightarrow> (case v of JInt i \<Rightarrow> safeInteger i lo hi | _ \<Rightarrow> False)"

definition orchestrationV2DispatchEnvelope :: "dispatch_identity \<Rightarrow> dispatch_error + dispatch_identity" where
  "orchestrationV2DispatchEnvelope i =
     ensure Dispatch_identity_invalid (uuid_test (de_outbox_id i) \<and> uuid_test (de_run_id i) \<and> uuid_test (de_task_id i)
         \<and> int_test (de_dispatch_epoch i) 0 100 \<and> int_test (de_routing_shard i) 0 4095)
       (Inr i)"

definition envelope_keys :: "string list" where
  "envelope_keys = [''contract_version'', ''outbox_id'', ''run_id'', ''task_id'', ''dispatch_epoch'', ''routing_shard'']"

definition field_of :: "(string \<times> jsval) list \<Rightarrow> string \<Rightarrow> jsval" where
  "field_of ps k = (case map_of ps k of None \<Rightarrow> JUndefined | Some v \<Rightarrow> v)"

definition identity_of :: "(string \<times> jsval) list \<Rightarrow> dispatch_identity" where
  "identity_of ps = \<lparr>de_outbox_id = field_of ps ''outbox_id'', de_run_id = field_of ps ''run_id'',
     de_task_id = field_of ps ''task_id'', de_dispatch_epoch = field_of ps ''dispatch_epoch'',
     de_routing_shard = field_of ps ''routing_shard''\<rparr>"

definition readOrchestrationV2DispatchEnvelope :: "jsval \<Rightarrow> dispatch_error + dispatch_identity" where
  "readOrchestrationV2DispatchEnvelope v = (case v of
       JObj ps \<Rightarrow> ensure Dispatch_identity_invalid (field_of ps ''contract_version'' = JInt 2
           \<and> \<not> list_ex (\<lambda>k. k \<notin> set envelope_keys) (map fst ps) \<and> length ps = length envelope_keys)
         (orchestrationV2DispatchEnvelope (identity_of ps))
     | _ \<Rightarrow> Inl Dispatch_identity_invalid)"

text \<open>The published body of an envelope.\<close>

definition envelope_json :: "dispatch_identity \<Rightarrow> jsval" where
  "envelope_json i = JObj [(''contract_version'', JInt 2), (''outbox_id'', de_outbox_id i),
     (''run_id'', de_run_id i), (''task_id'', de_task_id i), (''dispatch_epoch'', de_dispatch_epoch i),
     (''routing_shard'', de_routing_shard i)]"

section \<open>Delays and limits\<close>

definition orchestrationV2RetryDelayMs :: "int \<Rightarrow> int \<Rightarrow> int \<Rightarrow> dispatch_error + int" where
  "orchestrationV2RetryDelayMs attempts base maximum =
     ensure Dispatch_identity_invalid (safeInteger attempts 1 100 \<and> safeInteger base 1 3600000
         \<and> safeInteger maximum base 86400000)
       (Inr (min maximum (base * 2 ^ nat (min (attempts - 1) 20))))"

record worker_limits =
  wl_global_concurrency_limit :: int
  wl_provider_concurrency_limit :: int
  wl_lease_seconds :: int

datatype worker_error = Worker_config_invalid | Worker_payload_invalid

definition assertOrchestrationV2WorkerLimits :: "worker_limits \<Rightarrow> worker_error + worker_limits" where
  "assertOrchestrationV2WorkerLimits l =
     ensure Worker_config_invalid (safeInteger (wl_global_concurrency_limit l) 1 4096
         \<and> safeInteger (wl_provider_concurrency_limit l) 1 (wl_global_concurrency_limit l)
         \<and> safeInteger (wl_lease_seconds l) 5 45)
       (Inr l)"

definition isOrchestrationV2ProviderTask :: "task_kind \<Rightarrow> bool" where
  "isOrchestrationV2ProviderTask k \<longleftrightarrow> k \<in> {Course_skeleton, Chapter_blueprint, Generate_unit}"

definition usage_keys :: "string list" where
  "usage_keys = [''inputTokens'', ''outputTokens'', ''embeddingTokens'', ''totalTokens'', ''cachedInputTokens'']"

definition usage_entry :: "string \<times> jsval \<Rightarrow> worker_error + string \<times> int" where
  "usage_entry p = (case snd p of
       JInt i \<Rightarrow> ensure Worker_payload_invalid (fst p \<in> set usage_keys \<and> safeInteger i 0 MAX_SAFE_INTEGER) (Inr (fst p, i))
     | _ \<Rightarrow> Inl Worker_payload_invalid)"

definition orchestrationV2ObservedUsage :: "jsval \<Rightarrow> worker_error + (string \<times> int) list" where
  "orchestrationV2ObservedUsage v = (case v of JObj ps \<Rightarrow> mapE usage_entry ps | _ \<Rightarrow> Inl Worker_payload_invalid)"

definition QUOTA_EXHAUSTED :: string where "QUOTA_EXHAUSTED = ''AI_PROVIDER_QUOTA_EXHAUSTED''"
definition RATE_LIMITED :: string where "RATE_LIMITED = ''AI_PROVIDER_RATE_LIMITED''"

definition run_stopping_failure :: "string \<Rightarrow> bool" where
  "run_stopping_failure c \<longleftrightarrow> c \<in> {''AI_PROVIDER_AUTH_REJECTED'', QUOTA_EXHAUSTED}"

definition RATE_LIMIT_REQUEUE_BASE_MS :: int where "RATE_LIMIT_REQUEUE_BASE_MS = 60000"
definition RATE_LIMIT_REQUEUE_MAX_MS :: int where "RATE_LIMIT_REQUEUE_MAX_MS = 120000"

text \<open>\<open>>>> 0\<close> keeps the low 32 bits; the exact double before it is below 2 to the 53.\<close>

definition jitter_hash :: "string \<Rightarrow> 32 word" where
  "jitter_hash seed = foldl (\<lambda>h c. h * 31 + of_nat (of_char c)) 0 seed"

definition orchestrationV2StableJitterMs :: "string \<Rightarrow> int" where
  "orchestrationV2StableJitterMs seed = uint (jitter_hash seed) mod 5000"

definition orchestrationV2RateLimitRequeueDelayMs :: "string \<Rightarrow> string \<Rightarrow> int \<Rightarrow> int \<Rightarrow> int" where
  "orchestrationV2RateLimitRequeueDelayMs kind failure attempt_count jitter =
     (if failure \<noteq> RATE_LIMITED \<or> (kind \<noteq> ''course_skeleton'' \<and> kind \<noteq> ''chapter_blueprint'') then 0
      else (let attempts = (if isSafeInteger attempt_count \<and> attempt_count > 0 then attempt_count else 1) in
        min RATE_LIMIT_REQUEUE_MAX_MS (RATE_LIMIT_REQUEUE_BASE_MS * attempts + max 0 jitter)))"

section \<open>Properties\<close>

lemma int_test_iff: "int_test v lo hi \<longleftrightarrow> (\<exists>i. v = JInt i \<and> safeInteger i lo hi)"
  by (cases v) (auto simp: int_test_def)

lemma envelope_fields:
  assumes "distinct (map fst ps)" "\<not> list_ex (\<lambda>k. k \<notin> set envelope_keys) (map fst ps)" "length ps = length envelope_keys"
  shows "fst ` set ps = set envelope_keys"
proof (rule card_subset_eq)
  show "fst ` set ps \<subseteq> set envelope_keys" using assms(2) by (auto simp: list_ex_iff)
  have "card (fst ` set ps) = length ps" using assms(1) by (metis distinct_card length_map set_map)
  moreover have "card (set envelope_keys) = length envelope_keys"
    by (rule distinct_card) (simp add: envelope_keys_def)
  ultimately show "card (fst ` set ps) = card (set envelope_keys)" using assms(3) by simp
qed simp

lemma length_six: "length ps = 6 \<Longrightarrow> length ps = length envelope_keys"
  by (simp add: envelope_keys_def)

text \<open>The body as an order-free set of properties.\<close>

definition is_envelope_body :: "(string \<times> jsval) list \<Rightarrow> dispatch_identity \<Rightarrow> bool" where
  "is_envelope_body ps i \<longleftrightarrow> map_of ps = map_of [(''contract_version'', JInt 2), (''outbox_id'', de_outbox_id i),
     (''run_id'', de_run_id i), (''task_id'', de_task_id i), (''dispatch_epoch'', de_dispatch_epoch i),
     (''routing_shard'', de_routing_shard i)]"

lemma field_of_Some: "map_of ps k = Some v \<Longrightarrow> field_of ps k = v"
  by (simp add: field_of_def)

lemma body_of_keys:
  assumes "fst ` set ps = set envelope_keys" "field_of ps ''contract_version'' = JInt 2"
  shows "is_envelope_body ps (identity_of ps)"
  unfolding is_envelope_body_def
proof
  fix k
  have dom: "map_of ps k \<noteq> None \<longleftrightarrow> k \<in> set envelope_keys" using assms(1) by (simp add: map_of_eq_None_iff)
  show "map_of ps k = map_of [(''contract_version'', JInt 2), (''outbox_id'', de_outbox_id (identity_of ps)),
     (''run_id'', de_run_id (identity_of ps)), (''task_id'', de_task_id (identity_of ps)),
     (''dispatch_epoch'', de_dispatch_epoch (identity_of ps)), (''routing_shard'', de_routing_shard (identity_of ps))] k"
  proof (cases "map_of ps k")
    case None
    then have "k \<notin> set envelope_keys" using dom by blast
    with None show ?thesis by (simp add: envelope_keys_def)
  next
    case (Some v)
    then have "k \<in> set envelope_keys" "field_of ps k = v" using dom by (auto simp: field_of_def)
    with Some assms(2) show ?thesis by (auto simp: envelope_keys_def identity_of_def)
  qed
qed


definition example_identity :: dispatch_identity where
  "example_identity = \<lparr>de_outbox_id = JStr ''00000000-0000-0000-0000-000000000001'',
     de_run_id = JStr ''00000000-0000-0000-0000-000000000002'', de_task_id = JStr ''00000000-0000-0000-0000-000000000002'',
     de_dispatch_epoch = JInt 3, de_routing_shard = JInt 17\<rparr>"

lemma example_envelope: "orchestrationV2DispatchEnvelope example_identity = Inr example_identity"
  by (simp add: orchestrationV2DispatchEnvelope_def example_identity_def uuid_test_def example_patterns int_test_def
      safeInteger_def isSafeInteger_def MAX_SAFE_INTEGER_def)


text \<open>A one-element array of a UUID passes the pattern and stays an array.\<close>

lemma array_identifier_accepted:
  "readOrchestrationV2DispatchEnvelope (envelope_json (example_identity\<lparr>de_run_id :=
      JArr [JStr ''00000000-0000-0000-0000-000000000002'']\<rparr>))
    = Inr (example_identity\<lparr>de_run_id := JArr [JStr ''00000000-0000-0000-0000-000000000002'']\<rparr>)"
  by (simp add: readOrchestrationV2DispatchEnvelope_def orchestrationV2DispatchEnvelope_def envelope_json_def
      envelope_keys_def identity_of_def field_of_def example_identity_def uuid_test_def example_patterns int_test_def
      safeInteger_def isSafeInteger_def MAX_SAFE_INTEGER_def)

text \<open>
  Retries back off safely: an accepted retry waits between its base delay and its maximum, never
  less than the attempt before it, and the number computed is a safe integer; a rate-limited planning
  task waits at least the base and at most the 120 second bound of the outbox for any positive jitter of
  the stable jitter function, and every other failure is not delayed.
\<close>

theorem delays_are_bounded:
  assumes "orchestrationV2RetryDelayMs n base maximum = Inr d"
  shows "base \<le> d \<and> d \<le> maximum \<and> isSafeInteger (base * 2 ^ nat (min (n - 1) 20))
    \<and> (n < 100 \<longrightarrow> (\<exists>d'. orchestrationV2RetryDelayMs (n + 1) base maximum = Inr d' \<and> d \<le> d'))
    \<and> orchestrationV2StableJitterMs seed \<in> {0..4999}
    \<and> orchestrationV2RateLimitRequeueDelayMs kind code k (orchestrationV2StableJitterMs seed)
        \<in> (if code = RATE_LIMITED \<and> kind \<in> {''course_skeleton'', ''chapter_blueprint''} then {60000..120000} else {0})"
proof -
  from assms have n: "1 \<le> n" "n \<le> 100" and b: "1 \<le> base" "base \<le> 3600000" and m: "base \<le> maximum" "maximum \<le> 86400000"
    and d: "d = min maximum (base * 2 ^ nat (min (n - 1) 20))"
    by (auto simp: orchestrationV2RetryDelayMs_def safeInteger_def)
  let ?p = "\<lambda>n :: int. (2 :: int) ^ nat (min (n - 1) 20)"
  have p1: "1 \<le> ?p n" by simp
  have p2: "?p n \<le> 2 ^ 20" by (intro power_increasing) auto
  have up: "base * ?p n \<le> 3600000 * 2 ^ 20" using b p1 p2 by (intro mult_mono) auto
  have low: "base \<le> base * ?p n" using b p1 by (simp add: mult_le_cancel_left1)
  have "base * ?p n \<le> 3774873600000" using up by simp
  then have "isSafeInteger (base * ?p n)"
    unfolding isSafeInteger_def MAX_SAFE_INTEGER_def using low b by linarith
  moreover have "\<exists>d'. orchestrationV2RetryDelayMs (n + 1) base maximum = Inr d' \<and> d \<le> d'" if "n < 100"
  proof -
    have "?p n \<le> ?p (n + 1)" by (intro power_increasing) auto
    then have "base * ?p n \<le> base * ?p (n + 1)" using b by (intro mult_left_mono) auto
    moreover have "orchestrationV2RetryDelayMs (n + 1) base maximum = Inr (min maximum (base * ?p (n + 1)))"
      using that n b m by (simp add: orchestrationV2RetryDelayMs_def safeInteger_def isSafeInteger_def MAX_SAFE_INTEGER_def)
    ultimately show ?thesis unfolding d by (auto simp: min_def)
  qed
  moreover have "orchestrationV2StableJitterMs seed \<in> {0..4999}"
    using pos_mod_bound [of 5000 "uint (jitter_hash seed)"] by (simp add: orchestrationV2StableJitterMs_def)
  moreover have "orchestrationV2RateLimitRequeueDelayMs kind code k (orchestrationV2StableJitterMs seed)
        \<in> (if code = RATE_LIMITED \<and> kind \<in> {''course_skeleton'', ''chapter_blueprint''} then {60000..120000} else {0})"
    by (auto simp: orchestrationV2RateLimitRequeueDelayMs_def RATE_LIMIT_REQUEUE_BASE_MS_def
        RATE_LIMIT_REQUEUE_MAX_MS_def Let_def)
  ultimately show ?thesis using low m d by auto
qed

theorem delays_are_bounded_witness:
  "orchestrationV2RetryDelayMs 3 1000 60000 = Inr 4000 \<and> 1000 \<le> (4000 :: int) \<and> (4000 :: int) \<le> 60000"
proof -
  have "orchestrationV2RetryDelayMs 3 1000 60000 = Inr 4000"
    by (simp add: orchestrationV2RetryDelayMs_def safeInteger_def isSafeInteger_def MAX_SAFE_INTEGER_def)
  with delays_are_bounded [OF this] show ?thesis by blast
qed

end
