(* ===== verification/Event_System.thy ===== *)
theory Event_System
  imports Landa_Prelude
begin

text \<open>
  The contract of a component that only changes by events: an invariant that every step keeps. A run is a
  list of events in the order in which the process handles them. Interpreted by the concurrency gates, the
  single-flight guard, the chat stream, the cluster bus and the primary of the in-app cluster.
\<close>

locale event_system =
  fixes step :: "'s \<Rightarrow> 'e \<Rightarrow> 's" and inv :: "'s \<Rightarrow> bool"
  assumes inv_step: "inv s \<Longrightarrow> inv (step s e)"
begin

lemma inv_run: "inv s \<Longrightarrow> inv (foldl step s es)"
  by (induction es arbitrary: s) (auto intro: inv_step)

lemma run_keeps:
  assumes "\<And>s e. inv s \<Longrightarrow> P s \<Longrightarrow> P (step s e)" "inv s" "P s"
  shows "P (foldl step s es)"
  using assms(2,3) by (induction es arbitrary: s) (auto intro: inv_step assms(1))

lemma run_constant:
  assumes "\<And>s e. inv s \<Longrightarrow> f (step s e) = f s" "inv s"
  shows "f (foldl step s es) = f s"
  using run_keeps [of "\<lambda>t. f t = f s" s es] assms by simp

end

text \<open>What held at some moment of a run, the first and the last included.\<close>

definition once :: "('s \<Rightarrow> 'e \<Rightarrow> 's) \<Rightarrow> 's \<Rightarrow> 'e list \<Rightarrow> ('s \<Rightarrow> bool) \<Rightarrow> bool" where
  "once step s es P \<longleftrightarrow> (\<exists>n \<le> length es. P (foldl step s (take n es)))"

lemma once_now: "P (foldl step s es) \<Longrightarrow> once step s es P"
  unfolding once_def by (intro exI [of _ "length es"]) simp

lemma once_later: "once step s es P \<Longrightarrow> once step s (es @ es') P"
proof -
  assume "once step s es P"
  then obtain n where "n \<le> length es" "P (foldl step s (take n es))" by (auto simp: once_def)
  then show ?thesis unfolding once_def by (intro exI [of _ n]) simp
qed

lemma once_mono: "once step s es P \<Longrightarrow> (\<And>t. P t \<Longrightarrow> Q t) \<Longrightarrow> once step s es Q"
  unfolding once_def by blast

end
