(* ===== verification/Slots.thy ===== *)
theory Slots
  imports Event_System
begin

text \<open>
  The in-process concurrency gates: report aggregates wait for a slot
  (modules/reports/report-admission.logic.ts), AI chat turns are refused at once
  (modules/ai-chatbot/ai-platform/ai-chat-admission.logic.ts). JavaScript runs each call to its end, so
  an execution is a sequence of events. A release function is the index of its slot in \<open>sl_slots\<close>,
  whose flag is its \<open>released\<close> variable; a waiter is identified by the number of its request.
\<close>

section \<open>The waiting gate\<close>

record limits =
  li_per_key :: int
  li_total :: int

record gate_state =
  sl_per_key :: "string \<rightharpoonup> int"
  sl_total :: int
  sl_slots :: "(string \<times> bool) list"

record waiting_gate = gate_state +
  sl_waiters :: "(nat \<times> string) list"
  sl_requests :: nat
  sl_granted :: "(nat \<times> nat) list"

definition new_gate :: waiting_gate where
  "new_gate = \<lparr>sl_per_key = Map.empty, sl_total = 0, sl_slots = [], sl_waiters = [], sl_requests = 0, sl_granted = []\<rparr>"

definition count_of :: "'a gate_state_scheme \<Rightarrow> string \<Rightarrow> int" where
  "count_of g k = (case sl_per_key g k of None \<Rightarrow> 0 | Some n \<Rightarrow> n)"

definition fits :: "limits \<Rightarrow> 'a gate_state_scheme \<Rightarrow> string \<Rightarrow> bool" where
  "fits l g k \<longleftrightarrow> sl_total g < li_total l \<and> count_of g k < li_per_key l"

text \<open>\<open>take\<close>: the new slot's index is the old length of \<open>sl_slots\<close>.\<close>

definition take_slot :: "string \<Rightarrow> 'a gate_state_scheme \<Rightarrow> 'a gate_state_scheme" where
  "take_slot k g = g\<lparr>sl_per_key := (sl_per_key g)(k \<mapsto> count_of g k + 1), sl_total := sl_total g + 1,
     sl_slots := sl_slots g @ [(k, False)]\<rparr>"

text \<open>\<open>grantWaiters\<close> over the waiters from the current index on; \<open>skipped\<close> are those before it.\<close>

fun grant_waiters :: "limits \<Rightarrow> (nat \<times> string) list \<Rightarrow> (nat \<times> string) list \<Rightarrow> waiting_gate \<Rightarrow> waiting_gate" where
  "grant_waiters l skipped [] g = g\<lparr>sl_waiters := skipped\<rparr>"
| "grant_waiters l skipped (w # ws) g =
     (if \<not> sl_total g < li_total l then g\<lparr>sl_waiters := skipped @ w # ws\<rparr>
      else if \<not> fits l g (snd w) then grant_waiters l (skipped @ [w]) ws g
      else grant_waiters l skipped ws
        ((take_slot (snd w) g)\<lparr>sl_granted := sl_granted g @ [(fst w, length (sl_slots g))]\<rparr>))"

text \<open>The bookkeeping of the first call of a release function; later calls do nothing.\<close>

definition free_slot :: "nat \<Rightarrow> string \<Rightarrow> 'a gate_state_scheme \<Rightarrow> 'a gate_state_scheme" where
  "free_slot i k g = (let left = (case sl_per_key g k of None \<Rightarrow> 1 | Some n \<Rightarrow> n) - 1 in
     g\<lparr>sl_slots := (sl_slots g)[i := (k, True)], sl_total := sl_total g - 1,
       sl_per_key := (sl_per_key g)(k := if left > 0 then Some left else None)\<rparr>)"

definition release_slot :: "limits \<Rightarrow> nat \<Rightarrow> waiting_gate \<Rightarrow> waiting_gate" where
  "release_slot l i g = (if i < length (sl_slots g) \<and> \<not> snd (sl_slots g ! i)
     then (let g' = free_slot i (fst (sl_slots g ! i)) g in grant_waiters l [] (sl_waiters g') g')
     else g)"

datatype acquired = Slot nat | Refused | Waiting nat

definition acquire :: "limits \<Rightarrow> string \<Rightarrow> int \<Rightarrow> waiting_gate \<Rightarrow> acquired \<times> waiting_gate" where
  "acquire l k maxWaitMs g = (if fits l g k then (Slot (length (sl_slots g)), take_slot k g)
     else if maxWaitMs \<le> 0 then (Refused, g)
     else (Waiting (sl_requests g), g\<lparr>sl_waiters := sl_waiters g @ [(sl_requests g, k)], sl_requests := sl_requests g + 1\<rparr>))"

definition time_out :: "nat \<Rightarrow> waiting_gate \<Rightarrow> waiting_gate" where
  "time_out n g = g\<lparr>sl_waiters := filter (\<lambda>w. fst w \<noteq> n) (sl_waiters g)\<rparr>"

datatype gate_event = Acquire string int | Release nat | Time_out nat

fun gate_step :: "limits \<Rightarrow> waiting_gate \<Rightarrow> gate_event \<Rightarrow> waiting_gate" where
  "gate_step l g (Acquire k ms) = snd (acquire l k ms g)"
| "gate_step l g (Release i) = release_slot l i g"
| "gate_step l g (Time_out n) = time_out n g"

definition active :: "'a gate_state_scheme \<Rightarrow> string option \<Rightarrow> int" where
  "active g k = (case k of None \<Rightarrow> sl_total g | Some k \<Rightarrow> count_of g k)"

definition waiting :: "waiting_gate \<Rightarrow> nat" where
  "waiting g = length (sl_waiters g)"

section \<open>The gate without a queue\<close>

definition try_acquire :: "limits \<Rightarrow> string \<Rightarrow> gate_state \<Rightarrow> nat option \<times> gate_state" where
  "try_acquire l k g = (let current = count_of g k in
     if sl_total g \<ge> li_total l \<or> current \<ge> li_per_key l then (None, g)
     else (Some (length (sl_slots g)), take_slot k g))"

definition release_chat :: "nat \<Rightarrow> gate_state \<Rightarrow> gate_state" where
  "release_chat i g = (if i < length (sl_slots g) \<and> \<not> snd (sl_slots g ! i)
     then free_slot i (fst (sl_slots g ! i)) g else g)"

definition new_chat_gate :: gate_state where
  "new_chat_gate = \<lparr>sl_per_key = Map.empty, sl_total = 0, sl_slots = []\<rparr>"

datatype chat_event = Try_acquire string | Release_chat nat

fun chat_step :: "limits \<Rightarrow> gate_state \<Rightarrow> chat_event \<Rightarrow> gate_state" where
  "chat_step l g (Try_acquire k) = snd (try_acquire l k g)"
| "chat_step l g (Release_chat i) = release_chat i g"

section \<open>The contract of a gate\<close>

text \<open>The slots held by key \<open>k\<close>, and all held slots.\<close>

definition held :: "(string \<times> bool) list \<Rightarrow> string \<Rightarrow> int" where
  "held slots k = int (length (filter (\<lambda>s. fst s = k \<and> \<not> snd s) slots))"

definition held_total :: "(string \<times> bool) list \<Rightarrow> int" where
  "held_total slots = int (length (filter (\<lambda>s. \<not> snd s) slots))"

locale concurrency_gate = event_system step inv
  for l :: limits and step :: "'s \<Rightarrow> 'e \<Rightarrow> 's" and initial :: 's and inv :: "'s \<Rightarrow> bool" +
  fixes slots :: "'s \<Rightarrow> (string \<times> bool) list" and counter :: "'s \<Rightarrow> string option \<Rightarrow> int"
  assumes inv_initial: "inv initial"
    and counter_key: "inv s \<Longrightarrow> counter s (Some k) = held (slots s) k"
    and counter_total: "inv s \<Longrightarrow> counter s None = held_total (slots s)"
    and key_limit: "inv s \<Longrightarrow> held (slots s) k \<le> max 0 (li_per_key l)"
    and total_limit: "inv s \<Longrightarrow> held_total (slots s) \<le> max 0 (li_total l)"
begin

lemma run_counts:
  "counter (foldl step initial es) (Some k) = held (slots (foldl step initial es)) k
   \<and> counter (foldl step initial es) None = held_total (slots (foldl step initial es))
   \<and> held (slots (foldl step initial es)) k \<le> max 0 (li_per_key l)
   \<and> held_total (slots (foldl step initial es)) \<le> max 0 (li_total l)"
  using inv_run [OF inv_initial, of es] counter_key counter_total key_limit total_limit by blast

end

section \<open>Bookkeeping\<close>

definition counted :: "'a gate_state_scheme \<Rightarrow> bool" where
  "counted g \<longleftrightarrow> sl_total g = held_total (sl_slots g)
     \<and> (\<forall>k. sl_per_key g k = (if held (sl_slots g) k = 0 then None else Some (held (sl_slots g) k)))"

definition limited :: "limits \<Rightarrow> 'a gate_state_scheme \<Rightarrow> bool" where
  "limited l g \<longleftrightarrow> sl_total g \<le> max 0 (li_total l) \<and> (\<forall>k. count_of g k \<le> max 0 (li_per_key l))"

lemma held_nonneg: "0 \<le> held s k" by (simp add: held_def)

lemma count_of_counted: "counted g \<Longrightarrow> count_of g k = held (sl_slots g) k"
  by (simp add: counted_def count_of_def)

lemma take_slot_sel [simp]:
  "sl_total (take_slot k g) = sl_total g + 1" "sl_slots (take_slot k g) = sl_slots g @ [(k, False)]"
  "count_of (take_slot k g) k' = (if k' = k then count_of g k + 1 else count_of g k')"
  by (simp_all add: take_slot_def count_of_def)

lemma take_slot_waiters [simp]: "sl_waiters (take_slot k g) = sl_waiters g"
  by (simp add: take_slot_def)

lemma held_snoc: "held (s @ [(k, False)]) k' = held s k' + (if k' = k then 1 else 0)"
  "held_total (s @ [(k, False)]) = held_total s + 1"
  by (simp_all add: held_def held_total_def)

lemma counted_take: "counted g \<Longrightarrow> counted (take_slot k g)"
  using held_nonneg [of "sl_slots g" k]
  by (auto simp: counted_def held_snoc take_slot_def count_of_counted [unfolded counted_def])

lemma limited_take: "limited l g \<Longrightarrow> fits l g k \<Longrightarrow> limited l (take_slot k g)"
  by (auto simp: limited_def fits_def)

lemma filter_update_length:
  "i < length s \<Longrightarrow> P (s ! i) \<Longrightarrow> \<not> P x \<Longrightarrow> Suc (length (filter P (s[i := x]))) = length (filter P s)"
proof (induction s arbitrary: i)
  case (Cons a s)
  then show ?case by (cases i) auto
qed simp

lemma filter_update_same:
  "i < length s \<Longrightarrow> \<not> P (s ! i) \<Longrightarrow> \<not> P x \<Longrightarrow> filter P (s[i := x]) = filter P s"
proof (induction s arbitrary: i)
  case (Cons a s)
  then show ?case by (cases i) auto
qed simp

lemma held_free:
  assumes "i < length s" "s ! i = (k, False)"
  shows "held (s[i := (k, True)]) k' = held s k' - (if k' = k then 1 else 0)"
    and "held_total (s[i := (k, True)]) = held_total s - 1" and "0 < held s k"
proof -
  have k: "Suc (length (filter (\<lambda>x. fst x = k \<and> \<not> snd x) (s[i := (k, True)])))
      = length (filter (\<lambda>x. fst x = k \<and> \<not> snd x) s)"
    using assms by (intro filter_update_length) auto
  from arg_cong [OF this, of int] show "0 < held s k" unfolding held_def by linarith
  show "held (s[i := (k, True)]) k' = held s k' - (if k' = k then 1 else 0)"
  proof (cases "k' = k")
    case True
    then show ?thesis using arg_cong [OF k, of int] by (simp add: held_def)
  next
    case False
    then show ?thesis
      using filter_update_same [OF assms(1), of "\<lambda>x. fst x = k' \<and> \<not> snd x" "(k, True)"] assms(2)
      by (simp add: held_def)
  qed
  have "Suc (length (filter (\<lambda>x. \<not> snd x) (s[i := (k, True)]))) = length (filter (\<lambda>x. \<not> snd x) s)"
    using assms by (intro filter_update_length) auto
  from arg_cong [OF this, of int] show "held_total (s[i := (k, True)]) = held_total s - 1"
    by (simp add: held_total_def)
qed

lemma free_slot_sel [simp]:
  "sl_total (free_slot i k g) = sl_total g - 1" "sl_slots (free_slot i k g) = (sl_slots g)[i := (k, True)]"
  by (simp_all add: free_slot_def Let_def)

lemma counted_free:
  assumes "counted g" "i < length (sl_slots g)" "sl_slots g ! i = (k, False)"
  shows "counted (free_slot i k g)"
    and "count_of (free_slot i k g) k' = count_of g k' - (if k' = k then 1 else 0)"
proof -
  note h = held_free [OF assms(2,3)]
  show c: "counted (free_slot i k g)"
    using assms(1) h by (auto simp: counted_def free_slot_def Let_def)
  show "count_of (free_slot i k g) k' = count_of g k' - (if k' = k then 1 else 0)"
    using count_of_counted [OF c] count_of_counted [OF assms(1)] h(1) by simp
qed

lemma limited_free:
  assumes "counted g" "limited l g" "i < length (sl_slots g)" "sl_slots g ! i = (k, False)"
  shows "limited l (free_slot i k g)"
  using assms(2) counted_free(2) [OF assms(1,3,4)] by (auto simp: limited_def) (smt (verit, best))

section \<open>The waiting gate keeps its promises\<close>

definition none_fits :: "limits \<Rightarrow> waiting_gate \<Rightarrow> bool" where
  "none_fits l g \<longleftrightarrow> (\<forall>w \<in> set (sl_waiters g). \<not> fits l g (snd w))"

definition gate_inv :: "limits \<Rightarrow> waiting_gate \<Rightarrow> bool" where
  "gate_inv l g \<longleftrightarrow> counted g \<and> limited l g \<and> none_fits l g"

lemma gate_update_simps [simp]:
  "counted (g\<lparr>sl_waiters := x\<rparr>) = counted g" "counted (g\<lparr>sl_granted := y\<rparr>) = counted g"
  "counted (g\<lparr>sl_requests := z\<rparr>) = counted g"
  "limited l (g\<lparr>sl_waiters := x\<rparr>) = limited l g" "limited l (g\<lparr>sl_granted := y\<rparr>) = limited l g"
  "limited l (g\<lparr>sl_requests := z\<rparr>) = limited l g"
  "fits l (g\<lparr>sl_waiters := x\<rparr>) k = fits l g k" "fits l (g\<lparr>sl_granted := y\<rparr>) k = fits l g k"
  "fits l (g\<lparr>sl_requests := z\<rparr>) k = fits l g k"
  "count_of (g\<lparr>sl_granted := y\<rparr>) k = count_of g k"
  by (simp_all add: counted_def limited_def fits_def count_of_def)

lemma fits_take: "fits l (take_slot k g) k' \<Longrightarrow> fits l g k'"
  by (auto simp: fits_def split: if_splits)

lemma grant_waiters_inv:
  assumes "counted g" "limited l g" "\<forall>w \<in> set skipped. \<not> fits l g (snd w)"
  shows "gate_inv l (grant_waiters l skipped ws g)"
  using assms
proof (induction l skipped ws g rule: grant_waiters.induct)
  case (1 l skipped g)
  then show ?case by (simp add: gate_inv_def none_fits_def)
next
  case (2 l skipped w ws g)
  consider (full) "\<not> sl_total g < li_total l"
    | (skip) "sl_total g < li_total l" "\<not> fits l g (snd w)"
    | (grant) "sl_total g < li_total l" "fits l g (snd w)" by blast
  then show ?case
  proof cases
    case full
    with 2 show ?thesis by (simp add: gate_inv_def none_fits_def) (simp add: fits_def)
  next
    case skip
    with 2 show ?thesis by simp
  next
    case grant
    then have "gate_inv l (grant_waiters l skipped ws
        ((take_slot (snd w) g)\<lparr>sl_granted := sl_granted g @ [(fst w, length (sl_slots g))]\<rparr>))"
      using 2 by (intro "2.IH"(2)) (auto simp: counted_take limited_take dest: fits_take)
    with grant show ?thesis by simp
  qed
qed

lemma gate_step_inv:
  assumes "gate_inv l g"
  shows "gate_inv l (gate_step l g e)"
proof (cases e)
  case (Acquire k ms)
  then show ?thesis
    using assms by (auto simp: acquire_def gate_inv_def none_fits_def counted_take limited_take dest: fits_take)
next
  case (Release i)
  show ?thesis
  proof (cases "i < length (sl_slots g) \<and> \<not> snd (sl_slots g ! i)")
    case True
    then have s: "i < length (sl_slots g)" "sl_slots g ! i = (fst (sl_slots g ! i), False)"
      by (auto simp: prod_eq_iff)
    have "counted (free_slot i (fst (sl_slots g ! i)) g)" "limited l (free_slot i (fst (sl_slots g ! i)) g)"
      using assms counted_free(1) [OF _ s] limited_free [OF _ _ s] by (auto simp: gate_inv_def)
    then show ?thesis
      using True Release by (simp add: release_slot_def Let_def grant_waiters_inv)
  qed (use assms Release in \<open>auto simp: release_slot_def\<close>)
next
  case (Time_out n)
  then show ?thesis using assms by (auto simp: time_out_def gate_inv_def none_fits_def)
qed

lemma gate_inv_new: "gate_inv l new_gate"
  by (simp add: gate_inv_def counted_def limited_def none_fits_def new_gate_def held_def held_total_def count_of_def)

lemma counted_active:
  "counted g \<Longrightarrow> active g (Some k) = held (sl_slots g) k" "counted g \<Longrightarrow> active g None = held_total (sl_slots g)"
  by (simp_all add: active_def count_of_counted) (simp add: counted_def)

lemma limited_held:
  assumes "counted g" "limited l g"
  shows "held (sl_slots g) k \<le> max 0 (li_per_key l)" "held_total (sl_slots g) \<le> max 0 (li_total l)"
proof -
  show "held (sl_slots g) k \<le> max 0 (li_per_key l)"
    unfolding count_of_counted [OF assms(1), symmetric] using assms(2) unfolding limited_def by blast
  show "held_total (sl_slots g) \<le> max 0 (li_total l)"
    unfolding counted_active(2) [OF assms(1), symmetric] using assms(2) by (simp add: limited_def active_def)
qed

interpretation report_gate: concurrency_gate l "gate_step l" new_gate "gate_inv l" sl_slots active for l
proof
  fix g :: waiting_gate and k e
  show "gate_inv l new_gate" by (rule gate_inv_new)
  assume g: "gate_inv l g"
  then show "gate_inv l (gate_step l g e)" by (rule gate_step_inv)
  from g have c: "counted g" "limited l g" by (simp_all add: gate_inv_def)
  show "active g (Some k) = held (sl_slots g) k" "active g None = held_total (sl_slots g)"
    by (rule counted_active [OF c(1)])+
  show "held (sl_slots g) k \<le> max 0 (li_per_key l)" "held_total (sl_slots g) \<le> max 0 (li_total l)"
    by (rule limited_held [OF c])+
qed

definition chat_inv :: "limits \<Rightarrow> gate_state \<Rightarrow> bool" where
  "chat_inv l g \<longleftrightarrow> counted g \<and> limited l g"

lemma chat_step_inv:
  assumes "chat_inv l g"
  shows "chat_inv l (chat_step l g e)"
proof (cases e)
  case (Try_acquire k)
  then show ?thesis using assms
    by (auto simp: try_acquire_def Let_def chat_inv_def counted_take limited_take fits_def)
next
  case (Release_chat i)
  show ?thesis
  proof (cases "i < length (sl_slots g) \<and> \<not> snd (sl_slots g ! i)")
    case True
    then have s: "i < length (sl_slots g)" "sl_slots g ! i = (fst (sl_slots g ! i), False)"
      by (auto simp: prod_eq_iff)
    show ?thesis
      using assms counted_free(1) [OF _ s] limited_free [OF _ _ s] True Release_chat
      by (auto simp: chat_inv_def release_chat_def)
  qed (use assms Release_chat in \<open>auto simp: release_chat_def\<close>)
qed

lemma chat_inv_new: "chat_inv l new_chat_gate"
  by (simp add: chat_inv_def counted_def limited_def new_chat_gate_def held_def held_total_def count_of_def)

interpretation chat_gate: concurrency_gate l "chat_step l" new_chat_gate "chat_inv l" sl_slots active for l
proof
  fix g :: gate_state and k e
  show "chat_inv l new_chat_gate" by (rule chat_inv_new)
  assume g: "chat_inv l g"
  then show "chat_inv l (chat_step l g e)" by (rule chat_step_inv)
  from g have c: "counted g" "limited l g" by (simp_all add: chat_inv_def)
  show "active g (Some k) = held (sl_slots g) k" "active g None = held_total (sl_slots g)"
    by (rule counted_active [OF c(1)])+
  show "held (sl_slots g) k \<le> max 0 (li_per_key l)" "held_total (sl_slots g) \<le> max 0 (li_total l)"
    by (rule limited_held [OF c])+
qed

section \<open>Properties\<close>

text \<open>
  C6: whatever requests, releases (repeated ones included) and timeouts happen in whatever order, the
  report gate's counters are exactly the slots held, no tenant and no process exceeds its limit, and no
  request waits that could run: every freed slot has been given away before the next event.
\<close>

theorem report_gate_safe:
  "active (foldl (gate_step l) new_gate es) (Some k) = held (sl_slots (foldl (gate_step l) new_gate es)) k
   \<and> active (foldl (gate_step l) new_gate es) None = held_total (sl_slots (foldl (gate_step l) new_gate es))
   \<and> held (sl_slots (foldl (gate_step l) new_gate es)) k \<le> max 0 (li_per_key l)
   \<and> held_total (sl_slots (foldl (gate_step l) new_gate es)) \<le> max 0 (li_total l)
   \<and> list_all (\<lambda>w. \<not> fits l (foldl (gate_step l) new_gate es) (snd w))
       (sl_waiters (foldl (gate_step l) new_gate es))"
  using report_gate.run_counts [of l es k] report_gate.inv_run [OF report_gate.inv_initial, of l es]
  by (auto simp: gate_inv_def none_fits_def list_all_iff)

lemma grant_none: "\<forall>w \<in> set ws. \<not> fits l g (snd w) \<Longrightarrow> grant_waiters l skipped ws g = g\<lparr>sl_waiters := skipped @ ws\<rparr>"
  by (induction ws arbitrary: skipped) auto

lemma grant_full: "\<not> sl_total g < li_total l \<Longrightarrow> grant_waiters l skipped ws g = g\<lparr>sl_waiters := skipped @ ws\<rparr>"
  by (cases ws) auto

lemma grant_split:
  "\<forall>w \<in> set pre. \<not> fits l g (snd w) \<Longrightarrow> grant_waiters l skipped (pre @ w # ws) g
    = (if sl_total g < li_total l then grant_waiters l (skipped @ pre) (w # ws) g
       else g\<lparr>sl_waiters := skipped @ pre @ w # ws\<rparr>)"
  by (induction pre arbitrary: skipped) (auto simp: grant_full)

text \<open>
  C30: a release frees exactly one slot and gives it to the oldest waiter that fits. If some waiter fits
  the freed capacity, the first one in arrival order is granted a slot and leaves the queue, every other
  waiter keeps its place; if none fits, the queue is unchanged.
\<close>

theorem release_grants_oldest_fitting:
  assumes "gate_inv l g" and "i < length (sl_slots g)" and "\<not> snd (sl_slots g ! i)"
  shows "sl_granted (release_slot l i g) = sl_granted g
       @ (case List.find (\<lambda>w. fits l (free_slot i (fst (sl_slots g ! i)) g) (snd w)) (sl_waiters g) of
            None \<Rightarrow> [] | Some w \<Rightarrow> [(fst w, length (sl_slots g))])
    \<and> sl_waiters (release_slot l i g)
       = (case List.find (\<lambda>w. fits l (free_slot i (fst (sl_slots g ! i)) g) (snd w)) (sl_waiters g) of
            None \<Rightarrow> sl_waiters g | Some w \<Rightarrow> remove1 w (sl_waiters g))"
proof -
  let ?k = "fst (sl_slots g ! i)"
  let ?g = "free_slot i ?k g"
  have w: "sl_waiters ?g = sl_waiters g" "sl_granted ?g = sl_granted g" by (simp_all add: free_slot_def Let_def)
  have r: "release_slot l i g = grant_waiters l [] (sl_waiters g) ?g"
    using assms(2,3) by (simp add: release_slot_def Let_def w)
  show ?thesis
  proof (cases "List.find (\<lambda>w. fits l ?g (snd w)) (sl_waiters g)")
    case None
    then have "\<forall>w \<in> set (sl_waiters g). \<not> fits l ?g (snd w)" by (auto simp: find_None_iff)
    then show ?thesis using None by (simp add: r grant_none w)
  next
    case (Some x)
    then obtain n where n: "n < length (sl_waiters g)" "fits l ?g (snd (sl_waiters g ! n))" "x = sl_waiters g ! n"
      "\<forall>j < n. \<not> fits l ?g (snd (sl_waiters g ! j))" by (auto simp: find_Some_iff)
    let ?pre = "take n (sl_waiters g)" and ?post = "drop (Suc n) (sl_waiters g)"
    have split: "sl_waiters g = ?pre @ x # ?post" using n by (simp add: id_take_nth_drop)
    have pre: "\<forall>w \<in> set ?pre. \<not> fits l ?g (snd w)" using n(1,4) by (auto simp: in_set_conv_nth) (metis snd_conv)
    have s: "sl_slots g ! i = (?k, False)" using assms(3) by (simp add: prod_eq_iff)
    have c: "counted g" "none_fits l g" using assms(1) by (auto simp: gate_inv_def)
    let ?g' = "(take_slot (snd x) ?g)\<lparr>sl_granted := sl_granted ?g @ [(fst x, length (sl_slots ?g))]\<rparr>"
    have total: "sl_total ?g < li_total l" using n(2,3) by (simp add: fits_def)
    have "\<not> fits l ?g' (snd u)" if u: "u \<in> set ?post" for u
    proof
      assume f: "fits l ?g' (snd u)"
      have "u \<in> set (sl_waiters g)" using u by (meson in_set_dropD)
      then have "\<not> fits l g (snd u)" using c(2) by (simp add: none_fits_def)
      moreover have "x \<in> set (sl_waiters g)" using n by simp
      then have "\<not> fits l g (snd x)" using c(2) by (simp add: none_fits_def)
      ultimately show False
        using f n(2,3) counted_free(2) [OF c(1) assms(2) s]
        by (auto simp: fits_def split: if_splits)
    qed
    then have "grant_waiters l ?pre ?post ?g' = ?g'\<lparr>sl_waiters := ?pre @ ?post\<rparr>" by (intro grant_none) blast
    then have "grant_waiters l [] (?pre @ x # ?post) ?g = ?g'\<lparr>sl_waiters := ?pre @ ?post\<rparr>"
      using grant_split [OF pre, of "[]" x ?post] total n(2,3) by simp
    then have "grant_waiters l [] (sl_waiters g) ?g = ?g'\<lparr>sl_waiters := ?pre @ ?post\<rparr>"
      by (simp only: split [symmetric])
    moreover have "remove1 x (sl_waiters g) = ?pre @ ?post"
    proof -
      have "x \<notin> set ?pre" using pre n(2,3) by auto
      then show ?thesis by (subst split) (simp add: remove1_append)
    qed
    ultimately show ?thesis using Some by (simp add: r w)
  qed
qed

text \<open>A chat execution as a report execution whose requests never wait.\<close>

definition no_wait :: "chat_event \<Rightarrow> gate_event" where
  "no_wait e = (case e of Try_acquire k \<Rightarrow> Acquire k 0 | Release_chat i \<Rightarrow> Release i)"

definition same_slots :: "gate_state \<Rightarrow> waiting_gate \<Rightarrow> bool" where
  "same_slots c g \<longleftrightarrow> sl_per_key c = sl_per_key g \<and> sl_total c = sl_total g \<and> sl_slots c = sl_slots g \<and> sl_waiters g = []"

lemma same_slots_step: "same_slots c g \<Longrightarrow> same_slots (chat_step l c e) (gate_step l g (no_wait e))"
  by (cases e) (auto simp: same_slots_def no_wait_def try_acquire_def acquire_def fits_def count_of_def take_slot_def
      release_chat_def release_slot_def free_slot_def Let_def)

text \<open>
  C31: the chat gate is the report gate with no waiting: over every sequence of requests and releases
  both hold the same slots and counters, and after it a chat turn is admitted exactly when a report
  request would get a slot at once. So the chat gate inherits the limits of the report gate.
\<close>

theorem chat_gate_refines_report_gate:
  "same_slots (foldl (chat_step l) new_chat_gate es) (foldl (gate_step l) new_gate (map no_wait es))
   \<and> ((fst (try_acquire l k (foldl (chat_step l) new_chat_gate es)) \<noteq> None)
        = fits l (foldl (gate_step l) new_gate (map no_wait es)) k)
   \<and> active (foldl (chat_step l) new_chat_gate es) (Some k) \<le> max 0 (li_per_key l)
   \<and> active (foldl (chat_step l) new_chat_gate es) None \<le> max 0 (li_total l)"
proof -
  have run: "same_slots c g \<Longrightarrow> same_slots (foldl (chat_step l) c es) (foldl (gate_step l) g (map no_wait es))" for c g
    by (induction es arbitrary: c g) (auto intro: same_slots_step)
  have s: "same_slots (foldl (chat_step l) new_chat_gate es) (foldl (gate_step l) new_gate (map no_wait es))"
    by (rule run) (simp add: same_slots_def new_chat_gate_def new_gate_def)
  then show ?thesis
    using chat_gate.run_counts [of l es k]
    by (auto simp: same_slots_def try_acquire_def fits_def count_of_def Let_def)
qed

theorem release_grants_oldest_fitting_witness:
  "sl_granted (release_slot \<lparr>li_per_key = 1, li_total = 2\<rparr> 0
     (foldl (gate_step \<lparr>li_per_key = 1, li_total = 2\<rparr>) new_gate
       [Acquire ''a'' 5, Acquire ''a'' 5, Acquire ''b'' 5, Acquire ''c'' 5, Acquire ''a'' 5])) = [(0, 2)]"
proof -
  let ?l = "\<lparr>li_per_key = 1, li_total = 2\<rparr>"
  let ?g = "foldl (gate_step ?l) new_gate [Acquire ''a'' 5, Acquire ''a'' 5, Acquire ''b'' 5, Acquire ''c'' 5, Acquire ''a'' 5]"
  have "gate_inv ?l ?g" by (rule report_gate.inv_run [OF report_gate.inv_initial])
  moreover have g: "sl_slots ?g = [(''a'', False), (''b'', False)]" "sl_waiters ?g = [(0, ''a''), (1, ''c''), (2, ''a'')]"
    "sl_granted ?g = []" "sl_total ?g = 2" "sl_per_key ?g = [''a'' \<mapsto> 1, ''b'' \<mapsto> 1]"
    by (auto simp: new_gate_def acquire_def fits_def count_of_def take_slot_def)
  ultimately show ?thesis
    using release_grants_oldest_fitting [of ?l ?g 0]
    by (simp add: g fits_def count_of_def free_slot_def Let_def)
qed

end
