(* ===== verification/Job_Runner.thy ===== *)
theory Job_Runner
  imports Event_System
begin

text \<open>
  The durable-job runner (platform/job-runner): single-flight polling and bounded concurrency
  (drain.ts), leases and backoff (lease.ts), sliced jobs (sliced-job.ts) and RabbitMQ wake-ups
  (wake-up-consumer.ts). Promises interleave only where the code awaits, so a run is a sequence of
  steps; the job's own work, the broker and the timers are parameters or events.
\<close>

section \<open>Single flight\<close>

record single_flight =
  sf_in_flight :: bool
  sf_running :: nat
  sf_started :: nat

datatype flight_event = Call | Work_settled

text \<open>\<open>Work_settled\<close>: the pending \<open>work\<close> resolves or rejects; \<open>finally\<close> clears the flag.\<close>

fun flight_step :: "single_flight \<Rightarrow> flight_event \<Rightarrow> single_flight" where
  "flight_step s Call = (if sf_in_flight s then s
     else s\<lparr>sf_in_flight := True, sf_running := sf_running s + 1, sf_started := sf_started s + 1\<rparr>)"
| "flight_step s Work_settled = (if sf_running s = 0 then s
     else s\<lparr>sf_running := sf_running s - 1, sf_in_flight := False\<rparr>)"

definition new_flight :: single_flight where
  "new_flight = \<lparr>sf_in_flight = False, sf_running = 0, sf_started = 0\<rparr>"

section \<open>Bounded concurrency\<close>

datatype worker = Idle | Busy nat | Stopped | Crashed nat

record drain =
  dr_workers :: "worker list"
  dr_next :: nat
  dr_started :: "nat list"
  dr_finished :: "nat list"

definition drain_start :: "int \<Rightarrow> nat \<Rightarrow> drain" where
  "drain_start limit n = \<lparr>dr_workers = replicate (nat (min limit (int n))) Idle, dr_next = 0,
     dr_started = [], dr_finished = []\<rparr>"

text \<open>
  One worker of \<open>runWithConcurrency\<close> over \<open>n\<close> items: it takes the next item, its \<open>run\<close> resolves or
  rejects, or it finds no item left and ends.
\<close>

inductive drain_step :: "nat \<Rightarrow> drain \<Rightarrow> drain \<Rightarrow> bool" for n where
  take_item: "w < length (dr_workers d) \<Longrightarrow> dr_workers d ! w = Idle \<Longrightarrow> dr_next d < n
    \<Longrightarrow> drain_step n d (d\<lparr>dr_workers := (dr_workers d)[w := Busy (dr_next d)],
          dr_started := dr_started d @ [dr_next d], dr_next := dr_next d + 1\<rparr>)"
| item_done: "w < length (dr_workers d) \<Longrightarrow> dr_workers d ! w = Busy i
    \<Longrightarrow> drain_step n d (d\<lparr>dr_workers := (dr_workers d)[w := Idle], dr_finished := dr_finished d @ [i]\<rparr>)"
| item_failed: "w < length (dr_workers d) \<Longrightarrow> dr_workers d ! w = Busy i
    \<Longrightarrow> drain_step n d (d\<lparr>dr_workers := (dr_workers d)[w := Crashed i]\<rparr>)"
| no_item: "w < length (dr_workers d) \<Longrightarrow> dr_workers d ! w = Idle \<Longrightarrow> \<not> dr_next d < n
    \<Longrightarrow> drain_step n d (d\<lparr>dr_workers := (dr_workers d)[w := Stopped]\<rparr>)"

inductive_cases drain_stepE: "drain_step n d d'"

inductive drains :: "nat \<Rightarrow> drain \<Rightarrow> drain \<Rightarrow> bool" for n where
  drains_refl: "drains n d d"
| drains_step: "drains n d d' \<Longrightarrow> drain_step n d' d'' \<Longrightarrow> drains n d d''"

definition items_busy :: "worker list \<Rightarrow> nat list" where
  "items_busy ws = List.map_filter (\<lambda>w. case w of Busy i \<Rightarrow> Some i | _ \<Rightarrow> None) ws"

definition items_crashed :: "worker list \<Rightarrow> nat list" where
  "items_crashed ws = List.map_filter (\<lambda>w. case w of Crashed i \<Rightarrow> Some i | _ \<Rightarrow> None) ws"

section \<open>Leases\<close>

definition leaseRenewIntervalMs :: "int \<Rightarrow> int" where
  "leaseRenewIntervalMs lease_seconds = max 1000 ((lease_seconds * 1000) div 3)"

definition cappedExponentialBackoffSeconds :: "int \<Rightarrow> int \<Rightarrow> int \<Rightarrow> nat \<Rightarrow> int" where
  "cappedExponentialBackoffSeconds attempt base maximum max_exponent =
     min maximum (base * 2 ^ nat (min (max (attempt - 1) 0) (int max_exponent)))"

record heartbeat =
  hb_lost :: bool
  hb_stopped :: bool

datatype renewal = Renewed | Not_renewed | Renew_rejected

datatype heartbeat_event = Renew_settled renewal | Stop_heartbeat

text \<open>A renewal in progress when \<open>stop\<close> clears the timer still settles and still marks the lease.\<close>

fun heartbeat_step :: "heartbeat \<Rightarrow> heartbeat_event \<Rightarrow> heartbeat" where
  "heartbeat_step h (Renew_settled Renewed) = h"
| "heartbeat_step h (Renew_settled Not_renewed) = h\<lparr>hb_lost := True\<rparr>"
| "heartbeat_step h (Renew_settled Renew_rejected) = h\<lparr>hb_lost := True\<rparr>"
| "heartbeat_step h Stop_heartbeat = h\<lparr>hb_stopped := True\<rparr>"

section \<open>Sliced jobs\<close>

datatype slice_outcome = More | Slices_done

datatype sliced_outcome = Not_claimed | Completed | Yielded

text \<open>The steps of a job over its durable state \<open>'s\<close>; each may throw \<open>'e\<close> after changing the state.\<close>

record ('s, 'j, 'e) sliced_job =
  sj_claim :: "'s \<Rightarrow> ('e + 'j option) \<times> 's"
  sj_run_slice :: "'j \<Rightarrow> 's \<Rightarrow> ('e + slice_outcome) \<times> 's"
  sj_complete :: "'j \<Rightarrow> 's \<Rightarrow> ('e + unit) \<times> 's"
  sj_yield_turn :: "'j \<Rightarrow> 's \<Rightarrow> ('e + unit) \<times> 's"

definition finish_with :: "sliced_outcome \<Rightarrow> ('e + unit) \<times> 's \<Rightarrow> ('e + sliced_outcome) \<times> 's" where
  "finish_with out r = (bindE (fst r) (\<lambda>_. Inr out), snd r)"

fun run_slices :: "('s, 'j, 'e) sliced_job \<Rightarrow> 'j \<Rightarrow> nat \<Rightarrow> 's \<Rightarrow> ('e + sliced_outcome) \<times> 's" where
  "run_slices steps j 0 s = finish_with Yielded (sj_yield_turn steps j s)"
| "run_slices steps j (Suc k) s = (case sj_run_slice steps j s of
       (Inl e, s') \<Rightarrow> (Inl e, s')
     | (Inr Slices_done, s') \<Rightarrow> finish_with Completed (sj_complete steps j s')
     | (Inr More, s') \<Rightarrow> run_slices steps j k s')"

definition runSlicedJob :: "('s, 'j, 'e) sliced_job \<Rightarrow> int \<Rightarrow> 's \<Rightarrow> ('e + sliced_outcome) \<times> 's" where
  "runSlicedJob steps max_slices s = (case sj_claim steps s of
       (Inl e, s') \<Rightarrow> (Inl e, s')
     | (Inr None, s') \<Rightarrow> (Inr Not_claimed, s')
     | (Inr (Some j), s') \<Rightarrow> run_slices steps j (nat max_slices) s')"

section \<open>Wake-ups\<close>

text \<open>\<open>None\<close>: the property is missing or not a string.\<close>

definition readJobId :: "string option \<Rightarrow> string option" where
  "readJobId x = (case x of None \<Rightarrow> None | Some s \<Rightarrow> if trim s \<noteq> [] then Some (trim s) else None)"

datatype 'e wake_error = Missing_job_id | Run_error 'e | Run_failed_error 'e | Exhausted_error 'e

datatype 'e wake_effect = Warn_ignored | Ran string | Run_failed string 'e | Retries_exhausted string
  | Exhausted_reported "'e wake_error"

text \<open>
  The message handler: \<open>run\<close> and \<open>on_failed\<close> give the error they throw, if any. The result is the
  error that goes back to the broker's consumer, with the effects in order.
\<close>

definition wake_up :: "bool \<Rightarrow> (string \<Rightarrow> 'e option) \<Rightarrow> (string \<Rightarrow> 'e \<Rightarrow> 'e option) \<Rightarrow> string option
    \<Rightarrow> 'e wake_error option \<times> 'e wake_effect list" where
  "wake_up required run on_failed msg = (case readJobId msg of
       None \<Rightarrow> if required then (Some Missing_job_id, []) else (None, [Warn_ignored])
     | Some j \<Rightarrow> (case run j of
         None \<Rightarrow> (None, [Ran j])
       | Some e \<Rightarrow> (case on_failed j e of
           None \<Rightarrow> (Some (Run_error e), [Ran j, Run_failed j e])
         | Some e' \<Rightarrow> (Some (Run_failed_error e'), [Ran j, Run_failed j e]))))"

text \<open>After the last retry; \<open>raw\<close> is None when the raw message is not JSON.\<close>

definition retries_exhausted :: "bool \<Rightarrow> (string \<Rightarrow> 'e option) \<Rightarrow> 'e \<Rightarrow> string option option
    \<Rightarrow> 'e wake_error option \<times> 'e wake_effect list" where
  "retries_exhausted required on_exhausted parse_error raw = (if required then
      (case raw of
         None \<Rightarrow> (None, [Exhausted_reported (Exhausted_error parse_error)])
       | Some m \<Rightarrow> (case readJobId m of
           None \<Rightarrow> (None, [Exhausted_reported Missing_job_id])
         | Some j \<Rightarrow> (case on_exhausted j of
             None \<Rightarrow> (None, [Retries_exhausted j])
           | Some e \<Rightarrow> (None, [Retries_exhausted j, Exhausted_reported (Exhausted_error e)]))))
    else
      (case raw of
         None \<Rightarrow> (None, [])
       | Some m \<Rightarrow> (case readJobId m of
           None \<Rightarrow> (None, [])
         | Some j \<Rightarrow> (map_option Exhausted_error (on_exhausted j), [Retries_exhausted j]))))"

section \<open>Properties\<close>

lemma flight_inv: "sf_running s = (if sf_in_flight s then 1 else 0)
    \<Longrightarrow> sf_running (flight_step s e) = (if sf_in_flight (flight_step s e) then 1 else 0)"
  by (cases e) auto

interpretation flight: event_system flight_step "\<lambda>s. sf_running s = (if sf_in_flight s then 1 else 0)"
  by unfold_locales (rule flight_inv)

lemma map_filter_update:
  assumes "w < length ws"
  shows "mset (List.map_filter f (ws[w := x])) + mset (case f (ws ! w) of None \<Rightarrow> [] | Some y \<Rightarrow> [y])
    = mset (List.map_filter f ws) + mset (case f x of None \<Rightarrow> [] | Some y \<Rightarrow> [y])"
  using assms
proof (induction ws arbitrary: w)
  case (Cons a ws)
  then show ?case
    by (cases w) (auto simp: List.map_filter_simps split: option.splits)
qed simp

lemma busy_update:
  "w < length ws \<Longrightarrow> mset (items_busy (ws[w := x])) + mset (case ws ! w of Busy i \<Rightarrow> [i] | _ \<Rightarrow> [])
    = mset (items_busy ws) + mset (case x of Busy i \<Rightarrow> [i] | _ \<Rightarrow> [])"
  using map_filter_update [of w ws "\<lambda>w. case w of Busy i \<Rightarrow> Some i | _ \<Rightarrow> None" x]
  by (cases "ws ! w"; cases x) (auto simp: items_busy_def)

lemma crashed_update:
  "w < length ws \<Longrightarrow> mset (items_crashed (ws[w := x])) + mset (case ws ! w of Crashed i \<Rightarrow> [i] | _ \<Rightarrow> [])
    = mset (items_crashed ws) + mset (case x of Crashed i \<Rightarrow> [i] | _ \<Rightarrow> [])"
  using map_filter_update [of w ws "\<lambda>w. case w of Crashed i \<Rightarrow> Some i | _ \<Rightarrow> None" x]
  by (cases "ws ! w"; cases x) (auto simp: items_crashed_def)

definition drain_inv :: "nat \<Rightarrow> nat \<Rightarrow> drain \<Rightarrow> bool" where
  "drain_inv k n d \<longleftrightarrow> length (dr_workers d) = k \<and> dr_next d \<le> n \<and> dr_started d = [0..<dr_next d]
     \<and> mset (dr_started d) = mset (items_busy (dr_workers d)) + mset (items_crashed (dr_workers d)) + mset (dr_finished d)
     \<and> (Stopped \<in> set (dr_workers d) \<longrightarrow> dr_next d = n)"

lemma items_replicate [simp]: "items_busy (replicate k Idle) = []" "items_crashed (replicate k Idle) = []"
  by (induction k) (simp_all add: items_busy_def items_crashed_def List.map_filter_simps)

lemma drain_inv_start: "drain_inv (nat (min limit (int n))) n (drain_start limit n)"
  by (auto simp: drain_inv_def drain_start_def)

lemma drain_inv_step: "drain_step n d d' \<Longrightarrow> drain_inv k n d \<Longrightarrow> drain_inv k n d'"
proof (induction rule: drain_step.induct)
  case (take_item w d)
  then show ?case
    using busy_update [of w "dr_workers d" "Busy (dr_next d)"] crashed_update [of w "dr_workers d" "Busy (dr_next d)"]
    by (auto simp: drain_inv_def dest!: set_update_subset_insert [THEN subsetD])
next
  case (item_done w d i)
  then show ?case
    using busy_update [of w "dr_workers d" Idle] crashed_update [of w "dr_workers d" Idle]
    by (auto simp: drain_inv_def dest!: set_update_subset_insert [THEN subsetD])
next
  case (item_failed w d i)
  then show ?case
    using busy_update [of w "dr_workers d" "Crashed i"] crashed_update [of w "dr_workers d" "Crashed i"]
    by (auto simp: drain_inv_def dest!: set_update_subset_insert [THEN subsetD])
next
  case (no_item w d)
  then show ?case
    using busy_update [of w "dr_workers d" Stopped] crashed_update [of w "dr_workers d" Stopped]
    by (auto simp: drain_inv_def dest!: set_update_subset_insert [THEN subsetD])
qed

lemma drain_inv_run: "drains n d d' \<Longrightarrow> drain_inv k n d \<Longrightarrow> drain_inv k n d'"
  by (induction rule: drains.induct) (auto dest: drain_inv_step)

lemma map_filter_length: "length (List.map_filter f xs) \<le> length xs"
  by (induction xs) (auto simp: List.map_filter_simps split: option.splits)

lemma no_step_workers:
  assumes "\<nexists>d'. drain_step n d d'" "w \<in> set (dr_workers d)"
  shows "w = Stopped \<or> (\<exists>i. w = Crashed i)"
proof -
  obtain k where k: "k < length (dr_workers d)" "dr_workers d ! k = w" using assms(2) by (auto simp: in_set_conv_nth)
  then show ?thesis using assms(1) drain_step.intros [of k d] by (cases w) blast+
qed

text \<open>
  C20: bounded concurrency. In every interleaving items start in order, each at most once, never more
  than the limit run at the same time, and every started item is running, finished or failed; and when
  nothing can move any more, with a positive limit and no failed item, every item has been run exactly
  once.
\<close>

theorem concurrency_is_bounded_and_complete:
  assumes "drains n (drain_start limit n) d"
  shows "dr_started d = [0..<dr_next d] \<and> dr_next d \<le> n
    \<and> int (length (items_busy (dr_workers d))) \<le> max 0 limit
    \<and> mset (dr_started d) = mset (items_busy (dr_workers d)) + mset (items_crashed (dr_workers d)) + mset (dr_finished d)
    \<and> ((\<nexists>d'. drain_step n d d') \<and> 1 \<le> limit \<and> items_crashed (dr_workers d) = []
         \<longrightarrow> mset (dr_finished d) = mset [0..<n])"
proof -
  from drain_inv_run [OF assms drain_inv_start] have inv: "drain_inv (nat (min limit (int n))) n d" .
  then have len: "length (dr_workers d) = nat (min limit (int n))" by (simp add: drain_inv_def)
  have "int (length (items_busy (dr_workers d))) \<le> max 0 limit"
  proof -
    have "length (items_busy (dr_workers d)) \<le> nat (min limit (int n))"
      unfolding items_busy_def using map_filter_length len by metis
    then have "int (length (items_busy (dr_workers d))) \<le> int (nat (min limit (int n)))" by (rule of_nat_mono)
    moreover have "int (nat (min limit (int n))) \<le> max 0 limit" by simp
    ultimately show ?thesis by linarith
  qed
  moreover have "mset (dr_finished d) = mset [0..<n]"
    if stuck: "\<nexists>d'. drain_step n d d'" and limit: "1 \<le> limit" and ok: "items_crashed (dr_workers d) = []"
  proof (cases "n = 0")
    case True
    then show ?thesis using inv by (auto simp: drain_inv_def)
  next
    case False
    have stopped: "w = Stopped" if "w \<in> set (dr_workers d)" for w
      using no_step_workers [OF stuck that] ok that
      by (auto simp: items_crashed_def List.map_filter_def filter_empty_conv)
    have "dr_workers d \<noteq> []" using len limit False by auto
    then have "Stopped \<in> set (dr_workers d)" using stopped by (metis last_in_set)
    then have "dr_next d = n" using inv by (simp add: drain_inv_def)
    moreover have "items_busy (dr_workers d) = []"
      unfolding items_busy_def List.map_filter_def using stopped by (fastforce simp: filter_empty_conv)
    ultimately have "mset (dr_started d) = mset (dr_finished d)" "dr_started d = [0..<n]"
      using inv ok by (auto simp: drain_inv_def)
    then show ?thesis by metis
  qed
  ultimately show ?thesis using inv by (auto simp: drain_inv_def)
qed

theorem concurrency_is_bounded_and_complete_witness:
  "[0] = [0..<1] \<and> drains 3 (drain_start 2 3) ((drain_start 2 3)\<lparr>dr_workers := [Busy 0, Idle], dr_next := 1, dr_started := [0]\<rparr>)
   \<and> int (length (items_busy [Busy 0, Idle])) \<le> max 0 2"
proof -
  have "drain_step 3 (drain_start 2 3) ((drain_start 2 3)\<lparr>dr_workers := [Busy 0, Idle], dr_next := 1, dr_started := [0]\<rparr>)"
    using take_item [of 0 "drain_start 2 3" 3] by (simp add: drain_start_def numeral_2_eq_2)
  then have d: "drains 3 (drain_start 2 3) ((drain_start 2 3)\<lparr>dr_workers := [Busy 0, Idle], dr_next := 1, dr_started := [0]\<rparr>)"
    by (rule drains_step [OF drains_refl])
  with concurrency_is_bounded_and_complete [OF d] show ?thesis by simp
qed

text \<open>
  A failed item does not stop the other workers: they go on to items that had not been started.
\<close>

lemma failure_does_not_stop_the_rest:
  "\<exists>d d'. drains 3 (drain_start 2 3) d \<and> items_crashed (dr_workers d) = [0] \<and> dr_started d = [0, 1]
     \<and> drain_step 3 d d' \<and> dr_started d' = [0, 1, 2]"
proof -
  let ?d = "\<lambda>ws n st fin. \<lparr>dr_workers = ws, dr_next = n, dr_started = st, dr_finished = fin\<rparr>"
  have s: "drain_start 2 3 = ?d [Idle, Idle] 0 [] []" by (simp add: drain_start_def numeral_2_eq_2)
  have "drain_step 3 (?d [Idle, Idle] 0 [] []) (?d [Busy 0, Idle] 1 [0] [])"
    using take_item [of 0 "?d [Idle, Idle] 0 [] []" 3] by simp
  moreover have "drain_step 3 (?d [Busy 0, Idle] 1 [0] []) (?d [Busy 0, Busy 1] 2 [0, 1] [])"
    using take_item [of 1 "?d [Busy 0, Idle] 1 [0] []" 3] by (simp add: numeral_2_eq_2)
  moreover have "drain_step 3 (?d [Busy 0, Busy 1] 2 [0, 1] []) (?d [Crashed 0, Busy 1] 2 [0, 1] [])"
    using item_failed [of 0 "?d [Busy 0, Busy 1] 2 [0, 1] []" 0 3] by simp
  moreover have "drain_step 3 (?d [Crashed 0, Busy 1] 2 [0, 1] []) (?d [Crashed 0, Idle] 2 [0, 1] [1])"
    using item_done [of 1 "?d [Crashed 0, Busy 1] 2 [0, 1] []" 1 3] by simp
  ultimately have run: "drains 3 (drain_start 2 3) (?d [Crashed 0, Idle] 2 [0, 1] [1])"
    unfolding s by (meson drains_refl drains_step)
  have "drain_step 3 (?d [Crashed 0, Idle] 2 [0, 1] [1]) (?d [Crashed 0, Busy 2] 3 [0, 1, 2] [1])"
    using take_item [of 1 "?d [Crashed 0, Idle] 2 [0, 1] [1]" 3] by (simp add: numeral_3_eq_3)
  with run show ?thesis
    by (intro exI [of _ "?d [Crashed 0, Idle] 2 [0, 1] [1]"] exI [of _ "?d [Crashed 0, Busy 2] 3 [0, 1, 2] [1]"])
      (simp add: items_crashed_def List.map_filter_simps)
qed

lemma flight_run: "sf_running (foldl flight_step new_flight es) \<le> 1"
  using flight.inv_run [of new_flight es] by (simp add: new_flight_def)

text \<open>The state after \<open>k\<close> slices that all left work.\<close>

fun after_slices :: "('s, 'j, 'e) sliced_job \<Rightarrow> 'j \<Rightarrow> nat \<Rightarrow> 's \<Rightarrow> 's option" where
  "after_slices steps j 0 s = Some s"
| "after_slices steps j (Suc k) s = (case sj_run_slice steps j s of
       (Inr More, s') \<Rightarrow> after_slices steps j k s' | _ \<Rightarrow> None)"

definition turn_ends :: "('s, 'j, 'e) sliced_job \<Rightarrow> 'j \<Rightarrow> nat \<Rightarrow> nat \<Rightarrow> 's \<Rightarrow> ('e + sliced_outcome) \<times> 's \<Rightarrow> bool" where
  "turn_ends steps j limit k s r \<longleftrightarrow>
     (if k = limit then r = finish_with Yielded (sj_yield_turn steps j s)
      else (case sj_run_slice steps j s of
          (Inl e, s') \<Rightarrow> r = (Inl e, s')
        | (Inr Slices_done, s') \<Rightarrow> r = finish_with Completed (sj_complete steps j s')
        | (Inr More, s') \<Rightarrow> False))"

lemma run_slices_ends:
  "\<exists>k s'. k \<le> limit \<and> after_slices steps j k s = Some s' \<and> turn_ends steps j limit k s' (run_slices steps j limit s)"
proof (induction limit arbitrary: s)
  case 0
  show ?case by (intro exI [of _ 0]) (simp add: turn_ends_def)
next
  case (Suc limit)
  obtain r s1 where r: "sj_run_slice steps j s = (r, s1)" by (cases "sj_run_slice steps j s")
  show ?case
  proof (cases "r = Inr More")
    case True
    from Suc.IH [of s1] obtain k s' where "k \<le> limit" "after_slices steps j k s1 = Some s'"
      "turn_ends steps j limit k s' (run_slices steps j limit s1)" by blast
    with r True show ?thesis by (intro exI [of _ "Suc k"] exI [of _ s']) (auto simp: turn_ends_def)
  next
    case False
    with r show ?thesis
      by (intro exI [of _ 0] exI [of _ s]) (auto simp: turn_ends_def split: sum.splits slice_outcome.splits)
  qed
qed

text \<open>
  One turn of a sliced job. A claimed job runs at most the slice budget, stops at the first slice
  that throws (nothing else is written), completes exactly when a slice reports that nothing is left,
  and yields exactly when the whole budget was used with work left; it never both completes and yields.
  A job that cannot be claimed is left alone.
\<close>

theorem sliced_job_turn:
  "(case sj_claim steps s of
      (Inl e, s0) \<Rightarrow> runSlicedJob steps budget s = (Inl e, s0)
    | (Inr None, s0) \<Rightarrow> runSlicedJob steps budget s = (Inr Not_claimed, s0)
    | (Inr (Some j), s0) \<Rightarrow> (\<exists>k s1. int k \<le> max 0 budget \<and> after_slices steps j k s0 = Some s1
         \<and> turn_ends steps j (nat budget) k s1 (runSlicedJob steps budget s)))"
proof -
  have "k \<le> nat budget \<Longrightarrow> int k \<le> max 0 budget" for k by linarith
  then show ?thesis
    using run_slices_ends [of "nat budget" steps]
    by (auto simp: runSlicedJob_def split: sum.splits option.splits) blast
qed

text \<open>
  C33: lease timing. A lease of at least three seconds is renewed three times before it expires, never
  more often than once a second; backoff starts at the base delay, never decreases with the attempt,
  doubles until its exponent stops and never exceeds its cap.
\<close>

theorem lease_and_backoff_bounds:
  assumes "0 \<le> base" and "base \<le> maximum"
  shows "1000 \<le> leaseRenewIntervalMs lease \<and> (3 \<le> lease \<longrightarrow> 3 * leaseRenewIntervalMs lease \<le> lease * 1000)
    \<and> cappedExponentialBackoffSeconds 1 base maximum m = base
    \<and> cappedExponentialBackoffSeconds n base maximum m \<le> cappedExponentialBackoffSeconds (n + 1) base maximum m
    \<and> cappedExponentialBackoffSeconds n base maximum m \<in> {base..maximum}
    \<and> (1 \<le> n \<and> n \<le> int m \<longrightarrow> cappedExponentialBackoffSeconds (n + 1) base maximum m
         = min maximum (2 * cappedExponentialBackoffSeconds n base maximum m))"
proof -
  let ?e = "\<lambda>n. nat (min (max (n - 1) 0) (int m))"
  have step: "base * 2 ^ ?e n \<le> base * 2 ^ ?e (n + 1)"
    using assms(1) by (intro mult_left_mono power_increasing) auto
  have low: "base \<le> base * 2 ^ ?e n"
    using assms(1) mult_left_mono [of 1 "2 ^ ?e n" base] by simp
  have "cappedExponentialBackoffSeconds (n + 1) base maximum m
         = min maximum (2 * cappedExponentialBackoffSeconds n base maximum m)" if "1 \<le> n \<and> n \<le> int m"
  proof -
    from that have "?e (n + 1) = Suc (?e n)" by (simp add: nat_eq_iff)
    then have "base * 2 ^ ?e (n + 1) = 2 * (base * 2 ^ ?e n)" by (simp only: power_Suc mult.left_commute)
    moreover have "min maximum (2 * x) = min maximum (2 * min maximum x)" if "0 \<le> x" for x :: int
      using that assms by (auto simp: min_def)
    ultimately show ?thesis
      unfolding cappedExponentialBackoffSeconds_def using low assms(1) by (metis order_trans)
  qed
  moreover have "1000 \<le> leaseRenewIntervalMs lease \<and> (3 \<le> lease \<longrightarrow> 3 * leaseRenewIntervalMs lease \<le> lease * 1000)"
    by (auto simp: leaseRenewIntervalMs_def max_def)
  moreover have "cappedExponentialBackoffSeconds n base maximum m \<le> cappedExponentialBackoffSeconds (n + 1) base maximum m"
    unfolding cappedExponentialBackoffSeconds_def using step by linarith
  moreover have "cappedExponentialBackoffSeconds n base maximum m \<in> {base..maximum}"
    using low assms(2) by (simp add: cappedExponentialBackoffSeconds_def)
  moreover have "cappedExponentialBackoffSeconds 1 base maximum m = base"
    using assms by (simp add: cappedExponentialBackoffSeconds_def)
  ultimately show ?thesis by blast
qed

theorem lease_and_backoff_bounds_witness:
  "cappedExponentialBackoffSeconds 3 30 3600 10 \<in> {30..3600} \<and> 3 * leaseRenewIntervalMs 30 \<le> 30000"
  using lease_and_backoff_bounds [of 30 3600 30 10 3] by simp

end
