(* ===== verification/Rate_Limit.thy ===== *)
theory Rate_Limit
  imports Landa_Prelude
begin

text \<open>
  The shared rate-limit store (middleware/rate-limit-store.ts). The Redis client, the MemoryStore of
  express-rate-limit and the wall clock are parameters: a Redis command gives its reply or an error
  (a failure or the deadline) and the new server state. The health breaker and the log are outside the
  model, apart from when a fallback line is written.
\<close>

section \<open>Parameters\<close>

record ('r, 'e) counter_client =
  cl_incr :: "string \<Rightarrow> 'r \<Rightarrow> ('e + int) \<times> 'r"
  cl_pExpire :: "string \<Rightarrow> int \<Rightarrow> 'r \<Rightarrow> ('e + unit) \<times> 'r"
  cl_pTTL :: "string \<Rightarrow> 'r \<Rightarrow> ('e + int) \<times> 'r"
  cl_decr :: "string \<Rightarrow> 'r \<Rightarrow> ('e + int) \<times> 'r"
  cl_del :: "string \<Rightarrow> 'r \<Rightarrow> ('e + unit) \<times> 'r"

record rate_info =
  ri_total_hits :: int
  ri_reset_time :: int

record 'm memory_store =
  ms_increment :: "string \<Rightarrow> 'm \<Rightarrow> rate_info \<times> 'm"
  ms_decrement :: "string \<Rightarrow> 'm \<Rightarrow> 'm"
  ms_reset :: "string \<Rightarrow> 'm \<Rightarrow> 'm"

section \<open>The store\<close>

definition FALLBACK_LOG_INTERVAL_MS :: int where "FALLBACK_LOG_INTERVAL_MS = 60000"

record ('r, 'm) rate_store =
  rs_redis :: 'r
  rs_memory :: 'm
  rs_window_ms :: int
  rs_last_fallback_log_at :: int
  rs_log_lines :: nat

type_synonym ('r, 'e) step_result = "('e + rate_info) \<times> 'r"

text \<open>Sequencing of awaited commands.\<close>

definition then_do :: "('e + 'a) \<times> 'r \<Rightarrow> ('a \<Rightarrow> 'r \<Rightarrow> ('e + 'b) \<times> 'r) \<Rightarrow> ('e + 'b) \<times> 'r" where
  "then_do x f = (case x of (Inl e, r) \<Rightarrow> (Inl e, r) | (Inr a, r) \<Rightarrow> f a r)"

definition incrementInRedis :: "('r, 'e) counter_client \<Rightarrow> int \<Rightarrow> int \<Rightarrow> string \<Rightarrow> 'r \<Rightarrow> ('r, 'e) step_result" where
  "incrementInRedis c window now key r =
     then_do (cl_incr c key r) (\<lambda>hits r1.
       then_do (if hits = 1 then (Inr (- 1), r1) else cl_pTTL c key r1) (\<lambda>ttl r2.
         if ttl < 0 then then_do (cl_pExpire c key window r2) (\<lambda>_ r3.
              (Inr \<lparr>ri_total_hits = hits, ri_reset_time = now + window\<rparr>, r3))
         else (Inr \<lparr>ri_total_hits = hits, ri_reset_time = now + ttl\<rparr>, r2)))"

definition decrementInRedis :: "('r, 'e) counter_client \<Rightarrow> string \<Rightarrow> 'r \<Rightarrow> ('e + unit) \<times> 'r" where
  "decrementInRedis c key r = then_do (cl_decr c key r) (\<lambda>n r1.
     if n \<le> 0 then cl_del c key r1 else (Inr (), r1))"

definition redisKey :: "(string \<Rightarrow> string \<Rightarrow> string \<Rightarrow> string) \<Rightarrow> string \<Rightarrow> string \<Rightarrow> string" where
  "redisKey cacheKey prefix key = cacheKey ''rate-limit'' prefix key"

definition reportFallback :: "int \<Rightarrow> ('r, 'm) rate_store \<Rightarrow> ('r, 'm) rate_store" where
  "reportFallback now s = (if now - rs_last_fallback_log_at s < FALLBACK_LOG_INTERVAL_MS then s
     else s\<lparr>rs_last_fallback_log_at := now, rs_log_lines := rs_log_lines s + 1\<rparr>)"

definition increment :: "('r, 'e) counter_client option \<Rightarrow> 'm memory_store \<Rightarrow> (string \<Rightarrow> string) \<Rightarrow> int \<Rightarrow> string
    \<Rightarrow> ('r, 'm) rate_store \<Rightarrow> rate_info \<times> ('r, 'm) rate_store" where
  "increment client mem rkey now key s =
     (let in_memory = (\<lambda>s. (let (info, m) = ms_increment mem key (rs_memory s) in (info, s\<lparr>rs_memory := m\<rparr>))) in
      (case client of
         None \<Rightarrow> in_memory s
       | Some c \<Rightarrow> (case incrementInRedis c (rs_window_ms s) now (rkey key) (rs_redis s) of
           (Inr info, r) \<Rightarrow> (info, s\<lparr>rs_redis := r\<rparr>)
         | (Inl e, r) \<Rightarrow> in_memory (reportFallback now (s\<lparr>rs_redis := r\<rparr>)))))"

definition decrement :: "('r, 'e) counter_client option \<Rightarrow> 'm memory_store \<Rightarrow> (string \<Rightarrow> string) \<Rightarrow> int \<Rightarrow> string
    \<Rightarrow> ('r, 'm) rate_store \<Rightarrow> ('r, 'm) rate_store" where
  "decrement client mem rkey now key s =
     (let in_memory = (\<lambda>s. s\<lparr>rs_memory := ms_decrement mem key (rs_memory s)\<rparr>) in
      (case client of
         None \<Rightarrow> in_memory s
       | Some c \<Rightarrow> (case decrementInRedis c (rkey key) (rs_redis s) of
           (Inr _, r) \<Rightarrow> s\<lparr>rs_redis := r\<rparr>
         | (Inl e, r) \<Rightarrow> in_memory (reportFallback now (s\<lparr>rs_redis := r\<rparr>)))))"

definition resetKey :: "('r, 'e) counter_client option \<Rightarrow> 'm memory_store \<Rightarrow> (string \<Rightarrow> string) \<Rightarrow> int \<Rightarrow> string
    \<Rightarrow> ('r, 'm) rate_store \<Rightarrow> ('r, 'm) rate_store" where
  "resetKey client mem rkey now key s =
     (let s' = (case client of
         None \<Rightarrow> s
       | Some c \<Rightarrow> (case cl_del c (rkey key) (rs_redis s) of
           (Inr _, r) \<Rightarrow> s\<lparr>rs_redis := r\<rparr>
         | (Inl e, r) \<Rightarrow> reportFallback now (s\<lparr>rs_redis := r\<rparr>)))
      in s'\<lparr>rs_memory := ms_reset mem key (rs_memory s')\<rparr>)"

section \<open>The documented behaviour of the Redis commands\<close>

text \<open>
  \<open>ttl r k\<close> is what PTTL reports of key \<open>k\<close>: \<open>- 2\<close> for a missing key, \<open>- 1\<close> for a key without
  expiry, else the milliseconds left. INCR and DECR create a missing key with 1 and \<open>- 1\<close> and no
  expiry and keep the expiry of an existing one; PEXPIRE with a positive time sets it; DEL removes the
  key.
\<close>

definition incr_law :: "('r, 'e) counter_client \<Rightarrow> ('r \<Rightarrow> string \<Rightarrow> int) \<Rightarrow> bool" where
  "incr_law c ttl \<longleftrightarrow> (\<forall>k r n r'. cl_incr c k r = (Inr n, r') \<longrightarrow>
     ttl r' k = (if ttl r k = - 2 then - 1 else ttl r k) \<and> (ttl r k = - 2 \<longrightarrow> n = 1))"

definition decr_law :: "('r, 'e) counter_client \<Rightarrow> ('r \<Rightarrow> string \<Rightarrow> int) \<Rightarrow> bool" where
  "decr_law c ttl \<longleftrightarrow> (\<forall>k r n r'. cl_decr c k r = (Inr n, r') \<longrightarrow>
     ttl r' k = (if ttl r k = - 2 then - 1 else ttl r k) \<and> (ttl r k = - 2 \<longrightarrow> n = - 1))"

definition pTTL_law :: "('r, 'e) counter_client \<Rightarrow> ('r \<Rightarrow> string \<Rightarrow> int) \<Rightarrow> bool" where
  "pTTL_law c ttl \<longleftrightarrow> (\<forall>k r n r'. cl_pTTL c k r = (Inr n, r') \<longrightarrow> n = ttl r k \<and> r' = r)"

definition pExpire_law :: "('r, 'e) counter_client \<Rightarrow> ('r \<Rightarrow> string \<Rightarrow> int) \<Rightarrow> bool" where
  "pExpire_law c ttl \<longleftrightarrow> (\<forall>k ms r r'.
     cl_pExpire c k ms r = (Inr (), r') \<and> 0 < ms \<and> ttl r k \<noteq> - 2 \<longrightarrow> ttl r' k = ms)"

definition del_law :: "('r, 'e) counter_client \<Rightarrow> ('r \<Rightarrow> string \<Rightarrow> int) \<Rightarrow> bool" where
  "del_law c ttl \<longleftrightarrow> (\<forall>k r r'. cl_del c k r = (Inr (), r') \<longrightarrow> ttl r' k = - 2)"

definition redis_commands :: "('r, 'e) counter_client \<Rightarrow> ('r \<Rightarrow> string \<Rightarrow> int) \<Rightarrow> bool" where
  "redis_commands c ttl \<longleftrightarrow> incr_law c ttl \<and> decr_law c ttl \<and> pTTL_law c ttl
     \<and> pExpire_law c ttl \<and> del_law c ttl"

section \<open>Properties\<close>

lemma then_do_Inr: "then_do x f = (Inr b, r') \<longleftrightarrow> (\<exists>a r. x = (Inr a, r) \<and> f a r = (Inr b, r'))"
  by (cases x; cases "fst x") (auto simp: then_do_def split: sum.splits)

lemma redis_incr:
  assumes "redis_commands c ttl" "cl_incr c k r = (Inr n, r')"
  shows "ttl r' k = (if ttl r k = - 2 then - 1 else ttl r k)" "ttl r k = - 2 \<Longrightarrow> n = 1"
  using assms by (simp_all add: redis_commands_def incr_law_def)

lemma redis_decr:
  assumes "redis_commands c ttl" "cl_decr c k r = (Inr n, r')"
  shows "ttl r' k = (if ttl r k = - 2 then - 1 else ttl r k)" "ttl r k = - 2 \<Longrightarrow> n = - 1"
  using assms by (simp_all add: redis_commands_def decr_law_def)

lemma redis_pTTL:
  assumes "redis_commands c ttl" "cl_pTTL c k r = (Inr n, r')"
  shows "n = ttl r k" "r' = r"
  using assms unfolding redis_commands_def pTTL_law_def by blast+

lemma redis_pExpire:
  assumes "redis_commands c ttl" "cl_pExpire c k ms r = (Inr u, r')" "0 < ms" "ttl r k \<noteq> - 2"
  shows "ttl r' k = ms"
  using assms unfolding redis_commands_def pExpire_law_def by (cases u) blast

lemma redis_del:
  assumes "redis_commands c ttl" "cl_del c k r = (Inr u, r')"
  shows "ttl r' k = - 2"
  using assms by (simp add: redis_commands_def del_law_def)

lemma incrementInRedis_ttl:
  assumes "redis_commands c ttl" "0 < window" "incrementInRedis c window now key r = (Inr info, r')"
  shows "0 \<le> ttl r' key \<and> ri_reset_time info = now + ttl r' key"
proof -
  from assms(3) obtain hits r1 where i: "cl_incr c key r = (Inr hits, r1)"
    and rest: "then_do (if hits = 1 then (Inr (- 1), r1) else cl_pTTL c key r1) (\<lambda>ttl r2.
         if ttl < 0 then then_do (cl_pExpire c key window r2) (\<lambda>_ r3.
              (Inr \<lparr>ri_total_hits = hits, ri_reset_time = now + window\<rparr>, r3))
         else (Inr \<lparr>ri_total_hits = hits, ri_reset_time = now + ttl\<rparr>, r2)) = (Inr info, r')"
    unfolding incrementInRedis_def then_do_Inr by blast
  have ttl1: "ttl r1 key \<noteq> - 2"
    using redis_incr(1) [OF assms(1) i] by (cases "ttl r key = - 2") simp_all
  from rest obtain t r2 where t: "(if hits = 1 then (Inr (- 1), r1) else cl_pTTL c key r1) = (Inr t, r2)"
    and fin: "(if t < 0 then then_do (cl_pExpire c key window r2) (\<lambda>_ r3.
              (Inr \<lparr>ri_total_hits = hits, ri_reset_time = now + window\<rparr>, r3))
         else (Inr \<lparr>ri_total_hits = hits, ri_reset_time = now + t\<rparr>, r2)) = (Inr info, r')"
    unfolding then_do_Inr by blast
  have r2: "r2 = r1" and tt: "hits \<noteq> 1 \<Longrightarrow> t = ttl r1 key" and t1: "hits = 1 \<Longrightarrow> t = - 1"
    using t redis_pTTL [OF assms(1), of key r1 t r2] by (auto split: if_splits)
  show ?thesis
  proof (cases "t < 0")
    case True
    with fin obtain u where "cl_pExpire c key window r2 = (Inr u, r')" "info = \<lparr>ri_total_hits = hits, ri_reset_time = now + window\<rparr>"
      by (auto simp: then_do_Inr)
    with redis_pExpire [OF assms(1) _ assms(2)] ttl1 r2 assms(2) show ?thesis by simp
  next
    case False
    with fin t1 tt r2 show ?thesis by (cases "hits = 1") auto
  qed
qed


text \<open>A server that keeps every key's count and expiry, for the witness.\<close>

definition example_client :: "(string \<Rightarrow> (int \<times> int) option, unit) counter_client" where
  "example_client = \<lparr>
     cl_incr = (\<lambda>k r. case r k of None \<Rightarrow> (Inr 1, r(k \<mapsto> (1, - 1))) | Some (n, t) \<Rightarrow> (Inr (n + 1), r(k \<mapsto> (n + 1, t)))),
     cl_pExpire = (\<lambda>k ms r. (Inr (), case r k of None \<Rightarrow> r | Some (n, t) \<Rightarrow> r(k \<mapsto> (n, max (- 1) ms)))),
     cl_pTTL = (\<lambda>k r. (Inr (case r k of None \<Rightarrow> - 2 | Some (n, t) \<Rightarrow> max (- 1) t), r)),
     cl_decr = (\<lambda>k r. case r k of None \<Rightarrow> (Inr (- 1), r(k \<mapsto> (- 1, - 1))) | Some (n, t) \<Rightarrow> (Inr (n - 1), r(k \<mapsto> (n - 1, t)))),
     cl_del = (\<lambda>k r. (Inr (), r(k := None)))\<rparr>"

definition example_ttl :: "(string \<Rightarrow> (int \<times> int) option) \<Rightarrow> string \<Rightarrow> int" where
  "example_ttl r k = (case r k of None \<Rightarrow> - 2 | Some (n, t) \<Rightarrow> max (- 1) t)"

lemma example_redis: "redis_commands example_client example_ttl"
  unfolding redis_commands_def incr_law_def decr_law_def pTTL_law_def pExpire_law_def del_law_def
  by (auto simp add: example_client_def example_ttl_def split: option.splits)

definition example_memory :: "nat memory_store" where
  "example_memory = \<lparr>ms_increment = (\<lambda>k m. (\<lparr>ri_total_hits = int m + 1, ri_reset_time = 0\<rparr>, m + 1)),
     ms_decrement = (\<lambda>k m. m - 1), ms_reset = (\<lambda>k m. 0)\<rparr>"


end
