(* ===== verification/User_Authority.thy ===== *)
theory User_Authority
  imports Landa_Prelude
begin

text \<open>
  The policy for administrative account writes (modules/users/user-authority.logic.ts): role levels,
  the roles an actor may assign, the accounts it may manage, and the checks of create, update, delete
  and permission-group changes. Roles and tenants are the strings of the request, as in the code.
\<close>

section \<open>Roles\<close>

datatype user_role = Learner | LearnerPlus | Staff | Superuser | Superadmin

definition USER_ROLES :: "user_role list" where
  "USER_ROLES = [Learner, LearnerPlus, Staff, Superuser, Superadmin]"

fun role_name :: "user_role \<Rightarrow> string" where
  "role_name Learner = ''learner''"
| "role_name LearnerPlus = ''learner_plus''"
| "role_name Staff = ''staff''"
| "role_name Superuser = ''superuser''"
| "role_name Superadmin = ''superadmin''"

fun USER_ROLE_LEVEL :: "user_role \<Rightarrow> int" where
  "USER_ROLE_LEVEL Learner = 0"
| "USER_ROLE_LEVEL LearnerPlus = 0"
| "USER_ROLE_LEVEL Staff = 1"
| "USER_ROLE_LEVEL Superuser = 2"
| "USER_ROLE_LEVEL Superadmin = 3"

text \<open>Authority orders the roles; it is a preorder because the two learner roles are level.\<close>

instantiation user_role :: preorder
begin

definition less_eq_user_role :: "user_role \<Rightarrow> user_role \<Rightarrow> bool" where
  "less_eq_user_role r s \<longleftrightarrow> USER_ROLE_LEVEL r \<le> USER_ROLE_LEVEL s"

definition less_user_role :: "user_role \<Rightarrow> user_role \<Rightarrow> bool" where
  "less_user_role r s \<longleftrightarrow> USER_ROLE_LEVEL r < USER_ROLE_LEVEL s"

instance
  by standard (auto simp: less_eq_user_role_def less_user_role_def)

end

definition known_role :: "string \<Rightarrow> user_role option" where
  "known_role s = find (\<lambda>r. role_name r = s) USER_ROLES"

definition isKnownRole :: "string \<Rightarrow> bool" where
  "isKnownRole s \<longleftrightarrow> known_role s \<noteq> None"

definition userRoleLevel :: "string \<Rightarrow> int" where
  "userRoleLevel s = (case known_role s of Some r \<Rightarrow> USER_ROLE_LEVEL r | None \<Rightarrow> - 1)"

definition isSuperadmin :: "string \<Rightarrow> bool" where
  "isSuperadmin s \<longleftrightarrow> s = ''superadmin''"

section \<open>The checks\<close>

datatype authority_error = SELF_ROLE_CHANGE | SELF_STATUS_CHANGE | SELF_PASSWORD_CHANGE | SELF_DELETE
  | SELF_PERMISSION_GROUP_CHANGE | SUPERADMIN_ONLY | ROLE_NOT_ASSIGNABLE | TARGET_NOT_MANAGEABLE
  | CROSS_TENANT | TENANT_REQUIRED | LAST_SUPERADMIN | TARGET_CHANGED | TENANTLESS_AVATAR_DELETE

fun authority_status :: "authority_error \<Rightarrow> int" where
  "authority_status LAST_SUPERADMIN = 409"
| "authority_status TARGET_CHANGED = 409"
| "authority_status TENANTLESS_AVATAR_DELETE = 409"
| "authority_status _ = 403"

record actor =
  a_id :: string
  a_role :: string
  a_tenant :: "string option"

record target =
  t_id :: string
  t_role :: string
  t_tenant :: "string option"
  t_active :: bool

text \<open>The optional fields of a change; \<open>None\<close> is \<open>undefined\<close>.\<close>

record change =
  c_role :: "string option"
  c_active :: "bool option"
  c_password :: bool

definition assignableUserRoles :: "string \<Rightarrow> user_role list" where
  "assignableUserRoles actorRole =
     (if isSuperadmin actorRole then USER_ROLES
      else filter (\<lambda>r. r \<noteq> Superadmin \<and> USER_ROLE_LEVEL r < userRoleLevel actorRole) USER_ROLES)"

definition checkAssignRole :: "actor \<Rightarrow> string \<Rightarrow> authority_error option" where
  "checkAssignRole a r =
     (if r = ''superadmin'' \<and> \<not> isSuperadmin (a_role a) then Some SUPERADMIN_ONLY
      else if \<not> isKnownRole r \<or> r \<notin> role_name ` set (assignableUserRoles (a_role a)) then Some ROLE_NOT_ASSIGNABLE
      else None)"

definition checkManageTarget :: "actor \<Rightarrow> target \<Rightarrow> authority_error option" where
  "checkManageTarget a t =
     (if isSuperadmin (a_role a) then None
      else if \<not> truthy (a_tenant a) then Some TENANT_REQUIRED
      else if t_tenant t \<noteq> a_tenant a then Some CROSS_TENANT
      else if isSuperadmin (t_role t) then Some SUPERADMIN_ONLY
      else if userRoleLevel (t_role t) \<ge> userRoleLevel (a_role a) then Some TARGET_NOT_MANAGEABLE
      else None)"

text \<open>\<open>None\<close> is the change \<open>'delete'\<close>.\<close>

definition removesActiveSuperadmin :: "target \<Rightarrow> change option \<Rightarrow> bool" where
  "removesActiveSuperadmin t ch =
     (if \<not> isSuperadmin (t_role t) \<or> \<not> t_active t then False
      else (case ch of None \<Rightarrow> True
        | Some c \<Rightarrow> (c_role c \<noteq> None \<and> c_role c \<noteq> Some ''superadmin'') \<or> c_active c = Some False))"

definition checkCreateUser :: "actor \<Rightarrow> string \<Rightarrow> string option \<Rightarrow> authority_error + string option" where
  "checkCreateUser a r tenant =
     (case checkAssignRole a r of
        Some e \<Rightarrow> Inl e
      | None \<Rightarrow>
        (if isSuperadmin (a_role a) then Inr (if truthy tenant then tenant else a_tenant a)
         else if \<not> truthy (a_tenant a) then Inl TENANT_REQUIRED
         else if truthy tenant \<and> tenant \<noteq> a_tenant a then Inl CROSS_TENANT
         else Inr (a_tenant a)))"

definition count_above_one :: "nat option \<Rightarrow> bool" where
  "count_above_one n \<longleftrightarrow> (case n of None \<Rightarrow> False | Some k \<Rightarrow> 1 < k)"

definition checkUpdateUser :: "actor \<Rightarrow> target \<Rightarrow> change \<Rightarrow> nat option \<Rightarrow> authority_error option" where
  "checkUpdateUser a t c n =
     (if t_id t = a_id a then
        (if c_role c \<noteq> None \<and> c_role c \<noteq> Some (t_role t) then Some SELF_ROLE_CHANGE
         else if c_active c \<noteq> None \<and> c_active c \<noteq> Some (t_active t) then Some SELF_STATUS_CHANGE
         else if c_password c then Some SELF_PASSWORD_CHANGE
         else None)
      else (case checkManageTarget a t of
          Some e \<Rightarrow> Some e
        | None \<Rightarrow>
          (case (case c_role c of None \<Rightarrow> None
                 | Some r \<Rightarrow> if r \<noteq> t_role t then checkAssignRole a r else None) of
             Some e \<Rightarrow> Some e
           | None \<Rightarrow> if removesActiveSuperadmin t (Some c) \<and> \<not> count_above_one n then Some LAST_SUPERADMIN else None)))"

definition checkDeleteUser :: "actor \<Rightarrow> target \<Rightarrow> nat option \<Rightarrow> authority_error option" where
  "checkDeleteUser a t n =
     (if t_id t = a_id a then Some SELF_DELETE
      else (case checkManageTarget a t of
          Some e \<Rightarrow> Some e
        | None \<Rightarrow> if removesActiveSuperadmin t None \<and> \<not> count_above_one n then Some LAST_SUPERADMIN else None))"

definition checkAssignPermissionGroup :: "actor \<Rightarrow> target \<Rightarrow> authority_error option" where
  "checkAssignPermissionGroup a t =
     (if t_id t = a_id a then Some SELF_PERMISSION_GROUP_CHANGE
      else if a_role a \<noteq> ''superuser'' \<and> \<not> isSuperadmin (a_role a) then Some TARGET_NOT_MANAGEABLE
      else checkManageTarget a t)"

section \<open>Roles and levels\<close>

lemma known_role_iff: "known_role s = Some r \<longleftrightarrow> role_name r = s"
  by (cases r) (auto simp: known_role_def USER_ROLES_def find_Some_iff2 split: if_splits)

lemma known_role_name [simp]: "known_role (role_name r) = Some r"
  by (simp add: known_role_iff)

lemma userRoleLevel_name [simp]: "userRoleLevel (role_name r) = USER_ROLE_LEVEL r"
  by (simp add: userRoleLevel_def)

lemma isSuperadmin_name: "isSuperadmin (role_name r) \<longleftrightarrow> r = Superadmin"
  by (cases r) (auto simp: isSuperadmin_def)

lemma role_name_inject [simp]: "role_name r = role_name s \<longleftrightarrow> r = s"
  by (metis known_role_name option.inject)

lemma level_below_superadmin: "USER_ROLE_LEVEL r \<le> 3 \<and> 0 \<le> USER_ROLE_LEVEL r"
  by (cases r) auto

lemma set_USER_ROLES [simp]: "r \<in> set USER_ROLES"
  by (cases r) (auto simp: USER_ROLES_def)

lemma superadmin_string: "isSuperadmin s \<Longrightarrow> s = role_name Superadmin"
  by (simp add: isSuperadmin_def)

lemma unknown_level: "known_role s = None \<Longrightarrow> userRoleLevel s = - 1"
  by (simp add: userRoleLevel_def)

lemma checkAssignRole_iff:
  "checkAssignRole a r = None \<longleftrightarrow>
     (\<exists>k. r = role_name k \<and> (isSuperadmin (a_role a) \<or> k \<noteq> Superadmin \<and> USER_ROLE_LEVEL k < userRoleLevel (a_role a)))"
proof -
  have "isKnownRole r \<longleftrightarrow> (\<exists>k. r = role_name k)"
    by (auto simp: isKnownRole_def known_role_iff)
  then show ?thesis
    by (auto simp: checkAssignRole_def assignableUserRoles_def isSuperadmin_name simp flip: isSuperadmin_def split: if_splits)
qed

lemma checkManageTarget_iff:
  "checkManageTarget a t = None \<longleftrightarrow> isSuperadmin (a_role a)
     \<or> (truthy (a_tenant a) \<and> t_tenant t = a_tenant a \<and> \<not> isSuperadmin (t_role t)
        \<and> userRoleLevel (t_role t) < userRoleLevel (a_role a))"
  by (auto simp: checkManageTarget_def)

text \<open>What an accepted write may do, the abstract policy: strictly downward, in one tenant.\<close>

definition below :: "string \<Rightarrow> user_role \<Rightarrow> bool" where
  "below s r \<longleftrightarrow> (case known_role s of None \<Rightarrow> True | Some q \<Rightarrow> q < r)"

lemma level_below:
  assumes "r \<noteq> Superadmin"
  shows "userRoleLevel s < userRoleLevel (role_name r) \<longleftrightarrow> below s r"
  using level_below_superadmin [of r] by (auto simp: below_def userRoleLevel_def less_user_role_def split: option.splits)

lemma below_not_superadmin: "r \<noteq> Superadmin \<Longrightarrow> below s r \<Longrightarrow> \<not> isSuperadmin s"
  by (cases r) (auto simp: below_def isSuperadmin_def less_user_role_def known_role_def USER_ROLES_def)

lemma below_role_not_superadmin: "r \<noteq> Superadmin \<Longrightarrow> USER_ROLE_LEVEL k < USER_ROLE_LEVEL r \<Longrightarrow> k \<noteq> Superadmin"
  by (cases r) auto

lemma checkUpdateUser_other:
  "t_id t \<noteq> a_id a \<Longrightarrow> checkUpdateUser a t c n = None \<longleftrightarrow>
     checkManageTarget a t = None \<and> (\<forall>q. c_role c = Some q \<longrightarrow> q = t_role t \<or> checkAssignRole a q = None)
     \<and> (removesActiveSuperadmin t (Some c) \<longrightarrow> count_above_one n)"
  by (auto simp: checkUpdateUser_def split: option.splits if_splits)

lemma checkUpdateUser_own:
  "t_id t = a_id a \<Longrightarrow> checkUpdateUser a t c n = None \<longleftrightarrow>
     c_role c \<in> {None, Some (t_role t)} \<and> c_active c \<in> {None, Some (t_active t)} \<and> \<not> c_password c"
  by (auto simp: checkUpdateUser_def)

section \<open>Properties\<close>

text \<open>
  C23: for every actor that is not a superadmin, exactly the following is allowed: it creates accounts
  only with a role strictly below its own and only in its own tenant; it updates another account, or
  deletes it, only inside its own tenant, only when the account is strictly below it, and only towards
  a role strictly below it (keeping the account's role is no assignment); its own account it can
  neither promote, re-activate, re-password nor delete.
\<close>

theorem authority_is_strictly_downward:
  assumes "a_role a = role_name r" and "r \<noteq> Superadmin"
  shows "(checkCreateUser a role tenant = Inr created \<longleftrightarrow>
      (\<exists>q. role = role_name q \<and> q < r) \<and> truthy (a_tenant a) \<and> created = a_tenant a
       \<and> (\<not> truthy tenant \<or> tenant = a_tenant a))
    \<and> (checkUpdateUser a t c n = None \<longleftrightarrow>
      (if t_id t = a_id a then c_role c \<in> {None, Some (t_role t)} \<and> c_active c \<in> {None, Some (t_active t)} \<and> \<not> c_password c
       else truthy (a_tenant a) \<and> t_tenant t = a_tenant a \<and> below (t_role t) r
         \<and> (\<forall>q. c_role c = Some q \<longrightarrow> q = t_role t \<or> (\<exists>k. q = role_name k \<and> k < r))))
    \<and> (checkDeleteUser a t n = None \<longleftrightarrow>
      t_id t \<noteq> a_id a \<and> truthy (a_tenant a) \<and> t_tenant t = a_tenant a \<and> below (t_role t) r)"
proof (intro conjI)
  have sa: "\<not> isSuperadmin (a_role a)" using assms by (simp add: isSuperadmin_name)
  have assign: "checkAssignRole a q = None \<longleftrightarrow> (\<exists>k. q = role_name k \<and> k < r)" for q
    using sa below_role_not_superadmin [OF assms(2)] unfolding checkAssignRole_iff assms(1) userRoleLevel_name
      less_user_role_def by blast
  have manage: "checkManageTarget a t = None \<longleftrightarrow> truthy (a_tenant a) \<and> t_tenant t = a_tenant a \<and> below (t_role t) r"
    using sa below_not_superadmin [OF assms(2)] unfolding checkManageTarget_iff assms(1) level_below [OF assms(2)] by blast
  have keep: "below (t_role t) r \<Longrightarrow> \<not> removesActiveSuperadmin t ch" for ch
    using below_not_superadmin [OF assms(2)] by (simp add: removesActiveSuperadmin_def)
  show "checkCreateUser a role tenant = Inr created \<longleftrightarrow>
      (\<exists>q. role = role_name q \<and> q < r) \<and> truthy (a_tenant a) \<and> created = a_tenant a
       \<and> (\<not> truthy tenant \<or> tenant = a_tenant a)"
    using sa by (auto simp: checkCreateUser_def simp flip: assign split: option.splits)
  show "checkDeleteUser a t n = None \<longleftrightarrow>
      t_id t \<noteq> a_id a \<and> truthy (a_tenant a) \<and> t_tenant t = a_tenant a \<and> below (t_role t) r"
    using keep by (auto simp: checkDeleteUser_def manage [symmetric] split: option.splits) (auto simp: manage)
  show "checkUpdateUser a t c n = None \<longleftrightarrow>
      (if t_id t = a_id a then c_role c \<in> {None, Some (t_role t)} \<and> c_active c \<in> {None, Some (t_active t)} \<and> \<not> c_password c
       else truthy (a_tenant a) \<and> t_tenant t = a_tenant a \<and> below (t_role t) r
         \<and> (\<forall>q. c_role c = Some q \<longrightarrow> q = t_role t \<or> (\<exists>k. q = role_name k \<and> k < r)))"
  proof (cases "t_id t = a_id a")
    case True
    then show ?thesis by (auto simp: checkUpdateUser_own)
  next
    case False
    then show ?thesis
      unfolding checkUpdateUser_other [OF False] assign using keep manage by (simp only: if_False) blast
  qed
qed

definition example_staff :: actor where
  "example_staff = \<lparr>a_id = ''s1'', a_role = ''staff'', a_tenant = Some ''t1''\<rparr>"

theorem authority_is_strictly_downward_witness:
  "checkCreateUser example_staff ''learner_plus'' None = Inr (Some ''t1'')
   \<and> checkDeleteUser example_staff \<lparr>t_id = ''u'', t_role = ''staff'', t_tenant = Some ''t1'', t_active = True\<rparr> None \<noteq> None"
proof -
  have r: "a_role example_staff = role_name Staff" by (simp add: example_staff_def)
  show ?thesis
    using authority_is_strictly_downward [OF r, of "''learner_plus''" None "Some ''t1''" "\<lparr>t_id = ''u'', t_role = ''staff'', t_tenant = Some ''t1'', t_active = True\<rparr>" "\<lparr>c_role = None, c_active = None, c_password = False\<rparr>" None]
    by (auto simp: example_staff_def truthy_def below_def known_role_def USER_ROLES_def less_user_role_def
        intro!: exI [of _ LearnerPlus])
qed

end
