(* ===== verification/User_Writes.thy ===== *)
theory User_Writes
  imports User_Authority
begin

text \<open>
  The administrative account writes as database transactions (modules/users/users.service.ts,
  user-deletion.service.ts and the guarded UPDATE of users.repository.ts): the snapshot of the target,
  the advisory lock of the superadmin set, the snapshot and the count read again after the lock, the
  decision of the authority policy and the guarded write. Any number of transactions interleave; a
  statement reads the committed rows of its moment (READ COMMITTED) and a row changes at commit.
  Checks of these functions that only refuse (the demo accounts, unique names, quotas) appear as the
  step that ends a transaction without a write.
\<close>

section \<open>The rows and the transactions\<close>

record account =
  u_role :: string
  u_tenant :: "string option"
  u_active :: bool
  u_deletion_requested :: bool

type_synonym users = "string \<rightharpoonup> account"

definition toAuthorityTarget :: "string \<Rightarrow> account \<Rightarrow> target" where
  "toAuthorityTarget i u = \<lparr>t_id = i, t_role = u_role u, t_tenant = u_tenant u, t_active = u_active u\<rparr>"

definition active_superadmin :: "account \<Rightarrow> bool" where
  "active_superadmin u \<longleftrightarrow> u_role u = ''superadmin'' \<and> u_active u \<and> \<not> u_deletion_requested u"

definition active_superadmins :: "users \<Rightarrow> string set" where
  "active_superadmins db = {i. \<exists>u. db i = Some u \<and> active_superadmin u}"

definition countActiveSuperadmins :: "users \<Rightarrow> nat" where
  "countActiveSuperadmins db = card (active_superadmins db)"

text \<open>The row filter of the snapshot and of the guarded update: not being deleted, in the scope.\<close>

definition selectAuthoritySnapshot :: "users \<Rightarrow> string \<Rightarrow> string option \<Rightarrow> target option" where
  "selectAuthoritySnapshot db i scope = (case db i of
     None \<Rightarrow> None
   | Some u \<Rightarrow> if \<not> u_deletion_requested u \<and> (scope = None \<or> u_tenant u = scope)
       then Some (toAuthorityTarget i u) else None)"

definition write_change :: "change \<Rightarrow> account \<Rightarrow> account" where
  "write_change c u = u\<lparr>u_role := (case c_role c of None \<Rightarrow> u_role u | Some r \<Rightarrow> r),
     u_active := (case c_active c of None \<Rightarrow> u_active u | Some b \<Rightarrow> b)\<rparr>"

definition updateUserGuarded :: "users \<Rightarrow> string \<Rightarrow> string option \<Rightarrow> string \<Rightarrow> bool \<Rightarrow> change \<Rightarrow> users option" where
  "updateUserGuarded db i scope role act c = (case db i of
     None \<Rightarrow> None
   | Some u \<Rightarrow> if (scope = None \<or> u_tenant u = scope) \<and> u_role u = role \<and> u_active u = act \<and> \<not> u_deletion_requested u
       then Some (db(i \<mapsto> write_change c u)) else None)"

definition markUserQueued :: "users \<Rightarrow> string \<Rightarrow> users" where
  "markUserQueued db i = (case db i of None \<Rightarrow> db
     | Some u \<Rightarrow> db(i \<mapsto> u\<lparr>u_active := False, u_deletion_requested := True\<rparr>))"

record update_request =
  q_actor :: actor
  q_user :: string
  q_change :: change
  q_scope :: "string option"

datatype session =
    Idle
  | WaitForLock update_request
  | Locked update_request
  | Reloaded update_request target
  | Decides update_request target "nat option"
  | DeleteWaits actor string
  | DeleteReads actor string

record system =
  db :: users
  lock :: "nat option"
  sess :: "nat \<Rightarrow> session"

definition set_sess :: "nat \<Rightarrow> session \<Rightarrow> system \<Rightarrow> system" where
  "set_sess p x s = s\<lparr>sess := (sess s)(p := x)\<rparr>"

text \<open>The end of a transaction releases the advisory lock, if it holds it.\<close>

definition end_tx :: "nat \<Rightarrow> system \<Rightarrow> system" where
  "end_tx p s = set_sess p Idle (s\<lparr>lock := (if lock s = Some p then None else lock s)\<rparr>)"

section \<open>The steps\<close>

definition update_begin :: "nat \<Rightarrow> update_request \<Rightarrow> system \<Rightarrow> system" where
  "update_begin p q s = (case selectAuthoritySnapshot (db s) (q_user q) (q_scope q) of
     None \<Rightarrow> s
   | Some t \<Rightarrow> if removesActiveSuperadmin t (Some (q_change q)) then set_sess p (WaitForLock q) s
       else set_sess p (Decides q t None) s)"

definition update_reload :: "nat \<Rightarrow> update_request \<Rightarrow> system \<Rightarrow> system" where
  "update_reload p q s = (case selectAuthoritySnapshot (db s) (q_user q) (q_scope q) of
     None \<Rightarrow> end_tx p s
   | Some t \<Rightarrow> set_sess p (Reloaded q t) s)"

definition update_decide :: "nat \<Rightarrow> update_request \<Rightarrow> target \<Rightarrow> nat option \<Rightarrow> system \<Rightarrow> system" where
  "update_decide p q t n s =
     (if checkUpdateUser (q_actor q) t (q_change q) n \<noteq> None then end_tx p s
      else (case updateUserGuarded (db s) (q_user q) (q_scope q) (t_role t) (t_active t) (q_change q) of
          None \<Rightarrow> end_tx p s
        | Some d \<Rightarrow> end_tx p (s\<lparr>db := d\<rparr>)))"

definition delete_begin :: "nat \<Rightarrow> actor \<Rightarrow> string \<Rightarrow> system \<Rightarrow> system" where
  "delete_begin p a i s = (case db s i of
     Some u \<Rightarrow> if removesActiveSuperadmin (toAuthorityTarget i u) None then set_sess p (DeleteWaits a i) s
       else set_sess p (DeleteReads a i) s
   | None \<Rightarrow> set_sess p (DeleteReads a i) s)"

text \<open>
  From the row lock on: the target, the lock if it is still needed (this step then waits for it), the
  count, the decision and the mark. The row lock keeps the target as it was read.
\<close>

definition delete_needs_lock :: "string \<Rightarrow> system \<Rightarrow> bool" where
  "delete_needs_lock i s = (case db s i of None \<Rightarrow> False
     | Some u \<Rightarrow> removesActiveSuperadmin (toAuthorityTarget i u) None)"

definition delete_decide :: "nat \<Rightarrow> actor \<Rightarrow> string \<Rightarrow> system \<Rightarrow> system" where
  "delete_decide p a i s = (case db s i of
     None \<Rightarrow> end_tx p s
   | Some u \<Rightarrow>
      (let t = toAuthorityTarget i u;
           n = (if removesActiveSuperadmin t None then Some (countActiveSuperadmins (db s)) else None)
       in if checkDeleteUser a t n \<noteq> None then end_tx p s
          else end_tx p (s\<lparr>db := markUserQueued (db s) i\<rparr>)))"

definition create_user :: "actor \<Rightarrow> string \<Rightarrow> string \<Rightarrow> string option \<Rightarrow> system \<Rightarrow> system" where
  "create_user a i role tenant s = (case checkCreateUser a role tenant of
     Inl _ \<Rightarrow> s
   | Inr t \<Rightarrow> if db s i = None
       then s\<lparr>db := (db s)(i \<mapsto> \<lparr>u_role = role, u_tenant = t, u_active = True, u_deletion_requested = False\<rparr>)\<rparr>
       else s)"

inductive tx_step :: "system \<Rightarrow> system \<Rightarrow> bool" where
  begin_update: "sess s p = Idle \<Longrightarrow> tx_step s (update_begin p q s)"
| take_lock: "sess s p = WaitForLock q \<Longrightarrow> lock s = None \<Longrightarrow> tx_step s (set_sess p (Locked q) (s\<lparr>lock := Some p\<rparr>))"
| reload: "sess s p = Locked q \<Longrightarrow> tx_step s (update_reload p q s)"
| count_rows: "sess s p = Reloaded q t \<Longrightarrow> tx_step s (set_sess p (Decides q t (Some (countActiveSuperadmins (db s)))) s)"
| decide: "sess s p = Decides q t n \<Longrightarrow> tx_step s (update_decide p q t n s)"
| begin_delete: "sess s p = Idle \<Longrightarrow> tx_step s (delete_begin p a i s)"
| delete_lock: "sess s p = DeleteWaits a i \<Longrightarrow> lock s = None \<Longrightarrow>
    tx_step s (set_sess p (DeleteReads a i) (s\<lparr>lock := Some p\<rparr>))"
| delete: "sess s p = DeleteReads a i \<Longrightarrow> delete_needs_lock i s \<Longrightarrow> lock s \<in> {None, Some p} \<Longrightarrow>
    tx_step s (delete_decide p a i s)"
| delete_free: "sess s p = DeleteReads a i \<Longrightarrow> \<not> delete_needs_lock i s \<Longrightarrow> tx_step s (delete_decide p a i s)"
| create: "tx_step s (create_user a i role tenant s)"
| refuse: "tx_step s (end_tx p s)"

inductive reachable :: "system \<Rightarrow> system \<Rightarrow> bool" for s0 where
  start: "reachable s0 s0"
| step: "reachable s0 s \<Longrightarrow> tx_step s s' \<Longrightarrow> reachable s0 s'"

section \<open>What the writes do to the active superadmins\<close>

lemma in_active_update: "active_superadmins d - {i} \<subseteq> active_superadmins (d(i \<mapsto> u))"
  by (auto simp: active_superadmins_def)

lemma in_active: "i \<in> active_superadmins d \<longleftrightarrow> (\<exists>u. d i = Some u \<and> active_superadmin u)"
  by (simp add: active_superadmins_def)

lemma finite_active: "finite (dom d) \<Longrightarrow> finite (active_superadmins d)"
  by (rule finite_subset [of _ "dom d"]) (auto simp: active_superadmins_def)

lemma removes_iff: "removesActiveSuperadmin (toAuthorityTarget i u) ch \<longleftrightarrow> u_role u = ''superadmin'' \<and> u_active u
    \<and> (case ch of None \<Rightarrow> True | Some c \<Rightarrow> (c_role c \<noteq> None \<and> c_role c \<noteq> Some ''superadmin'') \<or> c_active c = Some False)"
  by (auto simp: removesActiveSuperadmin_def toAuthorityTarget_def isSuperadmin_def)

lemma write_keeps_active:
  "active_superadmin u \<Longrightarrow> \<not> removesActiveSuperadmin (toAuthorityTarget i u) (Some c) \<Longrightarrow> active_superadmin (write_change c u)"
  by (auto simp: removes_iff active_superadmin_def write_change_def split: option.splits)

lemma guarded_row:
  assumes "updateUserGuarded d i scope (t_role t) (t_active t) c = Some d'"
  obtains u where "d i = Some u" "d' = d(i \<mapsto> write_change c u)"
    "removesActiveSuperadmin t ch \<longleftrightarrow> removesActiveSuperadmin (toAuthorityTarget i u) ch"
  using assms by (auto simp: updateUserGuarded_def removesActiveSuperadmin_def toAuthorityTarget_def
      split: option.splits if_splits)

lemma guarded_keeps:
  assumes "updateUserGuarded d i scope (t_role t) (t_active t) c = Some d'" "\<not> removesActiveSuperadmin t (Some c)"
  shows "active_superadmins d \<subseteq> active_superadmins d'"
proof -
  from guarded_row [OF assms(1), of "Some c"] assms(2) obtain u where
    u: "d i = Some u" "d' = d(i \<mapsto> write_change c u)" "\<not> removesActiveSuperadmin (toAuthorityTarget i u) (Some c)" by metis
  then show ?thesis using write_keeps_active by (fastforce simp: in_active)
qed

lemma guarded_removes_one:
  fixes t :: target
  assumes "updateUserGuarded d i scope (t_role t) (t_active t) c = Some d'"
  shows "active_superadmins d - {i} \<subseteq> active_superadmins d' \<and> (finite (dom d) \<longrightarrow> finite (dom d'))"
proof -
  from guarded_row [OF assms, of None] obtain u where "d' = d(i \<mapsto> write_change c u)" by metis
  then show ?thesis using in_active_update by simp
qed

lemma queued_removes_one:
  "active_superadmins d - {i} \<subseteq> active_superadmins (markUserQueued d i) \<and> (finite (dom d) \<longrightarrow> finite (dom (markUserQueued d i)))"
proof (cases "d i")
  case None
  then show ?thesis by (simp add: markUserQueued_def)
next
  case (Some u)
  then show ?thesis using in_active_update by (simp add: markUserQueued_def)
qed

lemma queued_keeps:
  "d i = Some u \<Longrightarrow> \<not> removesActiveSuperadmin (toAuthorityTarget i u) None \<Longrightarrow>
     active_superadmins d \<subseteq> active_superadmins (markUserQueued d i)"
  by (auto simp: markUserQueued_def removes_iff active_superadmin_def in_active split: option.splits)

lemma one_left:
  assumes "finite S" "1 < n" "n \<le> card S" "S - {i} \<subseteq> S'"
  shows "S' \<noteq> {}"
proof
  assume "S' = {}"
  with assms(4) have "S \<subseteq> {i}" by auto
  then have "card S \<le> 1" using card_mono [of "{i}" S] by simp
  with assms(2,3) show False by simp
qed

section \<open>The invariant\<close>

fun session_ok :: "nat option \<Rightarrow> users \<Rightarrow> nat \<Rightarrow> session \<Rightarrow> bool" where
  "session_ok l d p (Locked q) \<longleftrightarrow> l = Some p"
| "session_ok l d p (Reloaded q t) \<longleftrightarrow> l = Some p"
| "session_ok l d p (Decides q t (Some n)) \<longleftrightarrow> l = Some p \<and> n \<le> card (active_superadmins d)"
| "session_ok l d p (Decides q t None) \<longleftrightarrow> \<not> removesActiveSuperadmin t (Some (q_change q))"
| "session_ok l d p _ \<longleftrightarrow> True"

definition writes_inv :: "system \<Rightarrow> bool" where
  "writes_inv s \<longleftrightarrow> finite (dom (db s)) \<and> active_superadmins (db s) \<noteq> {}
     \<and> (\<forall>p. session_ok (lock s) (db s) p (sess s p))"

lemma session_ok_mono:
  assumes "session_ok l d p x" "finite (dom d')" "l = Some p \<Longrightarrow> active_superadmins d \<subseteq> active_superadmins d'"
    and "l' = l \<or> l \<noteq> Some p"
  shows "session_ok l' d' p x"
proof (cases x)
  case (Decides q t n)
  show ?thesis
  proof (cases n)
    case None
    with Decides assms(1) show ?thesis by simp
  next
    case (Some k)
    with Decides assms(1) have l: "l = Some p" and k: "k \<le> card (active_superadmins d)" by simp_all
    have "card (active_superadmins d) \<le> card (active_superadmins d')"
      by (rule card_mono [OF finite_active [OF assms(2)] assms(3) [OF l]])
    with l k assms(4) Decides Some show ?thesis by simp
  qed
qed (use assms(1,4) in simp_all)

lemma inv_parts:
  assumes "writes_inv s"
  shows "finite (dom (db s))" "active_superadmins (db s) \<noteq> {}" "session_ok (lock s) (db s) p (sess s p)"
  using assms by (simp_all add: writes_inv_def)

lemma inv_end_tx:
  assumes "writes_inv s" "finite (dom d')" "active_superadmins d' \<noteq> {}"
    and "active_superadmins (db s) \<subseteq> active_superadmins d' \<or> lock s \<in> {None, Some p}"
  shows "writes_inv (end_tx p (s\<lparr>db := d'\<rparr>))"
proof -
  have "session_ok (lock (end_tx p (s\<lparr>db := d'\<rparr>))) d' r (sess (end_tx p (s\<lparr>db := d'\<rparr>)) r)" for r
  proof (cases "r = p")
    case False
    have "session_ok (if lock s = Some p then None else lock s) d' r (sess s r)"
      using assms(4) False by (intro session_ok_mono [OF inv_parts(3) [OF assms(1)] assms(2)]) auto
    with False show ?thesis by (cases "lock s = Some p") (simp_all add: end_tx_def set_sess_def)
  qed (simp add: end_tx_def set_sess_def)
  then show ?thesis using assms(2,3) by (simp add: writes_inv_def end_tx_def set_sess_def)
qed

lemma inv_end_tx_same: "writes_inv s \<Longrightarrow> writes_inv (end_tx p s)"
  using inv_end_tx [of s "db s" p] by (simp add: writes_inv_def)

lemma inv_set_sess:
  "writes_inv s \<Longrightarrow> session_ok (lock s) (db s) p x \<Longrightarrow> writes_inv (set_sess p x s)"
  by (simp add: writes_inv_def set_sess_def)

lemma inv_take_lock:
  assumes "writes_inv s" "lock s = None" "session_ok (Some p) (db s) p x"
  shows "writes_inv (set_sess p x (s\<lparr>lock := Some p\<rparr>))"
proof -
  have "session_ok (Some p) (db s) r (sess s r)" for r
    by (rule session_ok_mono [OF inv_parts(3) [OF assms(1)] inv_parts(1) [OF assms(1)]]) (simp_all add: assms(2))
  then show ?thesis using assms by (simp add: writes_inv_def set_sess_def)
qed

lemma inv_update_decide:
  assumes inv: "writes_inv s" and p: "sess s p = Decides q t n"
  shows "writes_inv (update_decide p q t n s)"
proof (cases "checkUpdateUser (q_actor q) t (q_change q) n = None
    \<and> (\<exists>d. updateUserGuarded (db s) (q_user q) (q_scope q) (t_role t) (t_active t) (q_change q) = Some d)")
  case False
  then show ?thesis using inv_end_tx_same [OF inv] by (auto simp: update_decide_def split: option.splits)
next
  case True
  then obtain d where d: "updateUserGuarded (db s) (q_user q) (q_scope q) (t_role t) (t_active t) (q_change q) = Some d"
    and ok: "checkUpdateUser (q_actor q) t (q_change q) n = None" by blast
  have ok_p: "session_ok (lock s) (db s) p (Decides q t n)" using inv p by (metis writes_inv_def)
  have fin: "finite (dom (db s))" "active_superadmins (db s) \<noteq> {}" using inv by (auto simp: writes_inv_def)
  note one = guarded_removes_one [OF d]
  have "writes_inv (end_tx p (s\<lparr>db := d\<rparr>))"
  proof (cases "removesActiveSuperadmin t (Some (q_change q))")
    case False
    with guarded_keeps [OF d] fin one show ?thesis by (intro inv_end_tx [OF inv]) auto
  next
    case removes: True
    then obtain k where k: "n = Some k" "lock s = Some p" "k \<le> card (active_superadmins (db s))"
      using ok_p by (cases n) auto
    show ?thesis
    proof (cases "t_id t = a_id (q_actor q)")
      case True
      with ok removes have False
        by (auto simp: checkUpdateUser_own removesActiveSuperadmin_def isSuperadmin_def split: if_splits)
      then show ?thesis ..
    next
      case False
      with ok removes k have "1 < k" by (simp add: checkUpdateUser_other count_above_one_def)
      with one_left [OF finite_active [OF fin(1)] _ k(3)] one fin k(2) show ?thesis
        by (intro inv_end_tx [OF inv]) auto
    qed
  qed
  with d ok show ?thesis by (simp add: update_decide_def)
qed

lemma inv_delete_decide:
  assumes inv: "writes_inv s" and l: "delete_needs_lock i s \<Longrightarrow> lock s \<in> {None, Some p}"
  shows "writes_inv (delete_decide p a i s)"
proof (cases "db s i")
  case None
  then show ?thesis using inv_end_tx_same [OF inv] by (simp add: delete_decide_def)
next
  case (Some u)
  let ?t = "toAuthorityTarget i u"
  let ?n = "if removesActiveSuperadmin ?t None then Some (countActiveSuperadmins (db s)) else None"
  have fin: "finite (dom (db s))" "active_superadmins (db s) \<noteq> {}" using inv by (auto simp: writes_inv_def)
  note one = queued_removes_one [of "db s" i]
  have "writes_inv (end_tx p (s\<lparr>db := markUserQueued (db s) i\<rparr>))" if ok: "checkDeleteUser a ?t ?n = None"
  proof (cases "removesActiveSuperadmin ?t None")
    case False
    with queued_keeps [of "db s" i u] Some fin one show ?thesis by (intro inv_end_tx [OF inv]) auto
  next
    case True
    with ok have "1 < card (active_superadmins (db s))"
      by (auto simp: checkDeleteUser_def count_above_one_def countActiveSuperadmins_def split: option.splits if_splits)
    with one_left [OF finite_active [OF fin(1)] _ order_refl] one fin l True Some show ?thesis
      by (intro inv_end_tx [OF inv]) (auto simp: delete_needs_lock_def)
  qed
  then show ?thesis using inv_end_tx_same [OF inv] Some by (simp add: delete_decide_def Let_def)
qed

lemma inv_create: "writes_inv s \<Longrightarrow> writes_inv (create_user a i role tenant s)"
proof -
  assume inv: "writes_inv s"
  show ?thesis
  proof (cases "create_user a i role tenant s = s")
    case False
    then obtain u where new: "db s i = None" and s': "create_user a i role tenant s = s\<lparr>db := (db s)(i \<mapsto> u)\<rparr>"
      by (auto simp: create_user_def split: sum.splits if_splits)
    have sub: "active_superadmins (db s) \<subseteq> active_superadmins ((db s)(i \<mapsto> u))" using new by (auto simp: in_active)
    have "session_ok (lock s) ((db s)(i \<mapsto> u)) r (sess s r)" for r
      by (rule session_ok_mono [OF inv_parts(3) [OF inv]]) (use inv_parts(1) [OF inv] sub in simp_all)
    moreover have "active_superadmins ((db s)(i \<mapsto> u)) \<noteq> {}" using inv_parts(2) [OF inv] sub by blast
    ultimately show ?thesis using inv_parts(1) [OF inv] unfolding s' by (simp add: writes_inv_def)
  qed (use inv in simp)
qed

lemma writes_inv_step: "tx_step s s' \<Longrightarrow> writes_inv s \<Longrightarrow> writes_inv s'"
proof (induction rule: tx_step.induct)
  case (begin_update s p q)
  then show ?case by (auto simp: update_begin_def split: option.splits intro!: inv_set_sess)
next
  case (take_lock s p q)
  then show ?case by (intro inv_take_lock) auto
next
  case (reload s p q)
  then have "lock s = Some p" by (metis session_ok.simps(1) writes_inv_def)
  with reload show ?case by (auto simp: update_reload_def split: option.splits intro: inv_set_sess inv_end_tx_same)
next
  case (count_rows s p q t)
  then have "lock s = Some p" by (metis session_ok.simps(2) writes_inv_def)
  with count_rows show ?case by (intro inv_set_sess) (auto simp: countActiveSuperadmins_def)
next
  case (decide s p q t n)
  then show ?case by (simp add: inv_update_decide)
next
  case (begin_delete s p a i)
  then show ?case by (auto simp: delete_begin_def split: option.splits intro!: inv_set_sess)
next
  case (delete_lock s p a i)
  then show ?case by (intro inv_take_lock) auto
next
  case (delete s p a i)
  then show ?case by (intro inv_delete_decide) auto
next
  case (delete_free s p a i)
  then show ?case by (intro inv_delete_decide) auto
next
  case (create s a i role tenant)
  then show ?case by (rule inv_create)
next
  case (refuse s p)
  then show ?case by (rule inv_end_tx_same)
qed

lemma writes_inv_reachable: "reachable s0 s \<Longrightarrow> writes_inv s0 \<Longrightarrow> writes_inv s"
  by (induction rule: reachable.induct) (auto intro: writes_inv_step)

section \<open>Properties\<close>

text \<open>
  C4: the platform never loses its last superadmin. From any state with an active superadmin in which
  no transaction is open, every interleaving of account creations, updates and deletions by any actors
  leaves at least one active superadmin that is not being deleted, even when two superadmins disable
  each other at the same time.
\<close>

theorem last_superadmin_survives:
  assumes "finite (dom (db s0))" and "active_superadmins (db s0) \<noteq> {}"
    and "lock s0 = None" and "\<And>p. sess s0 p = Idle" and "reachable s0 s"
  shows "active_superadmins (db s) \<noteq> {}"
proof -
  have "writes_inv s0" using assms(1-4) by (simp add: writes_inv_def)
  from writes_inv_reachable [OF assms(5) this] show ?thesis by (simp add: writes_inv_def)
qed

definition example_admin :: account where
  "example_admin = \<lparr>u_role = ''superadmin'', u_tenant = None, u_active = True, u_deletion_requested = False\<rparr>"

definition example_system :: system where
  "example_system = \<lparr>db = [''a'' \<mapsto> example_admin, ''b'' \<mapsto> example_admin], lock = None, sess = (\<lambda>_. Idle)\<rparr>"

definition example_actor :: "string \<Rightarrow> actor" where
  "example_actor i = \<lparr>a_id = i, a_role = ''superadmin'', a_tenant = None\<rparr>"

text \<open>Two superadmins delete each other; the transaction of the first has the lock and decides.\<close>

definition example_waiting :: system where
  "example_waiting = example_system\<lparr>sess := (\<lambda>_. Idle)(0 := DeleteWaits (example_actor ''a'') ''b'',
     1 := DeleteWaits (example_actor ''b'') ''a'')\<rparr>"

lemma example_waiting_reached: "reachable example_system example_waiting"
proof -
  have 1: "tx_step example_system (delete_begin 0 (example_actor ''a'') ''b'' example_system)"
    by (rule begin_delete) (simp add: example_system_def)
  have e1: "delete_begin 0 (example_actor ''a'') ''b'' example_system
      = example_system\<lparr>sess := (\<lambda>_. Idle)(0 := DeleteWaits (example_actor ''a'') ''b'')\<rparr>"
    by (simp add: delete_begin_def example_system_def example_admin_def removes_iff set_sess_def)
  have 2: "tx_step (example_system\<lparr>sess := (\<lambda>_. Idle)(0 := DeleteWaits (example_actor ''a'') ''b'')\<rparr>)
     (delete_begin 1 (example_actor ''b'') ''a'' (example_system\<lparr>sess := (\<lambda>_. Idle)(0 := DeleteWaits (example_actor ''a'') ''b'')\<rparr>))"
    by (rule begin_delete) simp
  have e2: "delete_begin 1 (example_actor ''b'') ''a'' (example_system\<lparr>sess := (\<lambda>_. Idle)(0 := DeleteWaits (example_actor ''a'') ''b'')\<rparr>)
      = example_waiting"
    by (simp add: delete_begin_def example_system_def example_admin_def removes_iff set_sess_def example_waiting_def)
  from reachable.step [OF reachable.step [OF reachable.start 1, unfolded e1] 2, unfolded e2] show ?thesis .
qed

theorem last_superadmin_survives_witness:
  "active_superadmins (db (delete_decide 0 (example_actor ''a'') ''b''
     (set_sess 0 (DeleteReads (example_actor ''a'') ''b'') (example_waiting\<lparr>lock := Some 0\<rparr>)))) \<noteq> {}"
proof -
  let ?s = "set_sess 0 (DeleteReads (example_actor ''a'') ''b'') (example_waiting\<lparr>lock := Some 0\<rparr>)"
  have "tx_step example_waiting ?s"
    by (rule delete_lock) (simp_all add: example_waiting_def example_system_def)
  moreover have "tx_step ?s (delete_decide 0 (example_actor ''a'') ''b'' ?s)"
    by (rule delete) (simp_all add: set_sess_def delete_needs_lock_def example_waiting_def example_system_def
        example_admin_def removes_iff)
  ultimately have r: "reachable example_system (delete_decide 0 (example_actor ''a'') ''b'' ?s)"
    using example_waiting_reached by (blast intro: reachable.step)
  show ?thesis
    by (rule last_superadmin_survives [OF _ _ _ _ r])
      (auto simp: example_system_def example_admin_def active_superadmins_def active_superadmin_def)
qed

end
