(* ===== verification/Generation_Job.thy ===== *)
theory Generation_Job
  imports Canonical_Json
begin

text \<open>
  The generation job contract (ai-id/shared/lesson-author-generation-job.logic.ts): complete usage,
  the snapshot hash of a JSON value, the job row with its public view, the recovery decision and the
  time left for a provider call. A \<open>Date\<close> is its time in milliseconds; SHA-256 is the parameter
  \<open>sha\<close>.
\<close>

section \<open>Usage\<close>

definition js_field :: "(string \<times> jsval) list \<Rightarrow> string \<Rightarrow> jsval" where
  "js_field ps k = (case map_of ps k of Some v \<Rightarrow> v | None \<Rightarrow> JUndefined)"

fun token_count :: "jsval \<Rightarrow> int option" where
  "token_count (JInt n) = (if isSafeInteger n \<and> 0 \<le> n then Some n else None)"
| "token_count _ = None"

fun own_props :: "jsval \<Rightarrow> (string \<times> jsval) list option" where
  "own_props (JObj ps) = Some ps"
| "own_props (JExotic own j) = Some own"
| "own_props _ = None"

definition hasCompleteGenerationUsage :: "jsval \<Rightarrow> bool" where
  "hasCompleteGenerationUsage v = (case own_props v of
     None \<Rightarrow> False
   | Some ps \<Rightarrow>
      (case (token_count (js_field ps ''inputTokens''), token_count (js_field ps ''outputTokens''),
             token_count (js_field ps ''embeddingTokens''), token_count (js_field ps ''totalTokens'')) of
         (Some i, Some out, Some e, Some t) \<Rightarrow> t \<ge> i + out + e
       | _ \<Rightarrow> False))"

section \<open>The snapshot hash\<close>

text \<open>
  The order in which an object lists its properties: array-index keys by value, then the others in
  insertion order. \<open>Object.fromEntries\<close> of sorted entries therefore lists index keys first.
\<close>

definition is_index_key :: "string \<Rightarrow> bool" where
  "is_index_key s \<longleftrightarrow> s \<noteq> [] \<and> list_all is_digit s \<and> (s = ''0'' \<or> hd s \<noteq> CHR ''0'') \<and> digits_value s < 4294967295"

definition own_order :: "(string \<times> 'v) list \<Rightarrow> (string \<times> 'v) list" where
  "own_order ps = sort_key (\<lambda>p. digits_value (fst p)) (filter (\<lambda>p. is_index_key (fst p)) ps)
     @ filter (\<lambda>p. \<not> is_index_key (fst p)) ps"

primrec snapshot_canonical :: "jsval \<Rightarrow> jsval" where
  "snapshot_canonical JUndefined = JUndefined"
| "snapshot_canonical JNull = JNull"
| "snapshot_canonical (JBool b) = JBool b"
| "snapshot_canonical (JInt i) = JInt i"
| "snapshot_canonical JNonFinite = JNonFinite"
| "snapshot_canonical (JStr s) = JStr s"
| "snapshot_canonical JFunction = JFunction"
| "snapshot_canonical JSymbol = JSymbol"
| "snapshot_canonical JBigInt = JBigInt"
| "snapshot_canonical JHole = JHole"
| "snapshot_canonical JBack = JBack"
| "snapshot_canonical (JExotic own j) = JObj (own_order (sort_key fst (map (map_prod id snapshot_canonical) own)))"
| "snapshot_canonical (JArr xs) = JArr (map snapshot_canonical xs)"
| "snapshot_canonical (JObj ps) = JObj (own_order (sort_key fst (map (map_prod id snapshot_canonical) ps)))"

text \<open>\<open>None\<close>: JSON.stringify throws, or gives undefined and the hash update throws.\<close>

definition generationSnapshotHash :: "(string \<Rightarrow> string) \<Rightarrow> jsval \<Rightarrow> string option" where
  "generationSnapshotHash sha v = (case persist (snapshot_canonical v) of
     Some (Some w) \<Rightarrow> Some (sha (json_text w)) | _ \<Rightarrow> None)"

section \<open>The job\<close>

definition GENERATION_JOB_DEADLINE_MS :: int where "GENERATION_JOB_DEADLINE_MS = 600000"
definition GENERATION_JOB_LEASE_MS :: int where "GENERATION_JOB_LEASE_MS = 45000"
definition GENERATION_JOB_HEARTBEAT_MS :: int where "GENERATION_JOB_HEARTBEAT_MS = 15000"
definition GENERATION_JOB_COMPLETION_MARGIN_MS :: int where "GENERATION_JOB_COMPLETION_MARGIN_MS = 5000"

datatype job_status = Job_queued | Job_running | Job_succeeded | Job_failed | Job_canceled

datatype job_error = GENERATION_JOB_NOT_FOUND | GENERATION_IDEMPOTENCY_CONFLICT | GENERATION_ALREADY_ACTIVE
  | GENERATION_LEASE_LOST | GENERATION_ALREADY_DISPATCHED | GENERATION_SNAPSHOT_CHANGED
  | GENERATION_BUDGET_CHANGED | GENERATION_WORKFLOW_TIMEOUT | GENERATION_OUTCOME_UNKNOWN
  | GENERATION_JOB_CONTRACT_INVALID

text \<open>The columns of the row that this contract reads.\<close>

record generation_job =
  gj_id :: string
  gj_correlation_id :: string
  gj_status :: job_status
  gj_lease_expires_at :: "int option"
  gj_dispatch_started_at :: "int option"
  gj_result_blueprint_id :: "string option"
  gj_assistant_message_id :: "string option"
  gj_progress_code :: "string option"
  gj_external_failure_code :: "string option"
  gj_deadline_at :: int
  gj_finished_at :: "int option"

record job_view =
  jv_job_id :: string
  jv_correlation_id :: string
  jv_status :: job_status
  jv_progress_code :: "string option"
  jv_deadline_at :: int
  jv_finished_at :: "int option"
  jv_blueprint_id :: "string option"
  jv_assistant_message_id :: "string option"
  jv_external_failure_code :: "string option"

definition generationJobStatusView :: "generation_job \<Rightarrow> job_view" where
  "generationJobStatusView j = \<lparr>jv_job_id = gj_id j, jv_correlation_id = gj_correlation_id j,
     jv_status = gj_status j, jv_progress_code = gj_progress_code j, jv_deadline_at = gj_deadline_at j,
     jv_finished_at = gj_finished_at j,
     jv_blueprint_id = (if gj_status j = Job_succeeded then gj_result_blueprint_id j else None),
     jv_assistant_message_id = (if gj_status j \<in> {Job_succeeded, Job_failed, Job_canceled}
        then gj_assistant_message_id j else None),
     jv_external_failure_code = (if gj_status j \<in> {Job_failed, Job_canceled}
        then gj_external_failure_code j else None)\<rparr>"

datatype recovery_action = No_action | Requeue | Timeout | Unknown_outcome

definition job_expired :: "generation_job \<Rightarrow> int \<Rightarrow> bool" where
  "job_expired j now \<longleftrightarrow> gj_deadline_at j \<le> now
     \<or> (gj_status j = Job_running \<and> (case gj_lease_expires_at j of None \<Rightarrow> False | Some l \<Rightarrow> l \<le> now))"

definition generationRecoveryAction :: "generation_job \<Rightarrow> int \<Rightarrow> recovery_action" where
  "generationRecoveryAction j now =
     (if gj_status j \<notin> {Job_queued, Job_running} then No_action
      else if \<not> job_expired j now then No_action
      else if gj_dispatch_started_at j \<noteq> None then Unknown_outcome
      else if gj_deadline_at j \<le> now then Timeout else Requeue)"

text \<open>\<open>Math.floor\<close> of whole milliseconds is the difference itself.\<close>

definition generationDispatchBudgetMs :: "int \<Rightarrow> int \<Rightarrow> job_error + int" where
  "generationDispatchBudgetMs deadline now =
     (let remaining = deadline - now - GENERATION_JOB_COMPLETION_MARGIN_MS in
      ensure GENERATION_WORKFLOW_TIMEOUT (\<not> remaining \<le> 0)
        (Inr (min remaining (GENERATION_JOB_DEADLINE_MS - GENERATION_JOB_COMPLETION_MARGIN_MS))))"

section \<open>Properties\<close>

lemma snapshot_canonical_norm: "snapshot_canonical (norm v) = snapshot_canonical v"
proof (induction v rule: jsval_tree_induct)
  case (Leaf v)
  then show ?case by (cases v) auto
next
  case (Obj ps)
  have "map (map_prod id snapshot_canonical) (map (map_prod id norm) ps) = map (map_prod id snapshot_canonical) ps"
    using Obj by auto
  then show ?case by (simp add: sort_key_map_prod_sort del: map_map)
qed auto

text \<open>
  The snapshot hash is stable across the key reordering of a jsonb column: two values that differ
  only in the order of object keys, at any depth and with any keys, integer-like ones included, have the
  same hash, or the hash of both fails.
\<close>

theorem snapshot_hash_ignores_key_order:
  assumes "norm v = norm w"
  shows "generationSnapshotHash sha v = generationSnapshotHash sha w"
  using assms snapshot_canonical_norm [of v] snapshot_canonical_norm [of w]
  by (simp add: generationSnapshotHash_def)

theorem snapshot_hash_ignores_key_order_witness:
  "generationSnapshotHash id (JObj [(''b'', JInt 1), (''2'', JNull)]) = generationSnapshotHash id (JObj [(''2'', JNull), (''b'', JInt 1)])"
  by (rule snapshot_hash_ignores_key_order) simp

text \<open>
  C38: recovery never replays paid work and never forgets an expired job. A job is put back in the queue
  only if it was never dispatched, its lease ran out and its deadline has not passed; a dispatched job is
  left alone or ends with an unknown outcome; a job past its deadline always ends; a job that needs
  recovery still needs it later. The time given to a provider call is positive, at most 595 seconds, ends
  five seconds before the deadline at the latest, and is refused exactly when that is impossible.
\<close>

theorem generation_recovery_is_safe:
  "(generationRecoveryAction j now = Requeue \<longrightarrow> gj_dispatch_started_at j = None \<and> now < gj_deadline_at j
      \<and> gj_status j = Job_running \<and> (\<exists>l. gj_lease_expires_at j = Some l \<and> l \<le> now))
   \<and> (gj_dispatch_started_at j \<noteq> None \<longrightarrow> generationRecoveryAction j now \<in> {No_action, Unknown_outcome})
   \<and> (gj_status j \<in> {Job_queued, Job_running} \<and> gj_deadline_at j \<le> now
      \<longrightarrow> generationRecoveryAction j now = (if gj_dispatch_started_at j = None then Timeout else Unknown_outcome))
   \<and> (now \<le> later \<and> generationRecoveryAction j now \<noteq> No_action \<longrightarrow> generationRecoveryAction j later \<noteq> No_action)
   \<and> (case generationDispatchBudgetMs (gj_deadline_at j) now of
        Inr b \<Rightarrow> 1 \<le> b \<and> b \<le> 595000 \<and> now + b + 5000 \<le> gj_deadline_at j
      | Inl e \<Rightarrow> gj_deadline_at j \<le> now + 5000)"
proof (intro conjI impI)
  assume "now \<le> later \<and> generationRecoveryAction j now \<noteq> No_action"
  then have "gj_status j \<in> {Job_queued, Job_running}" "job_expired j later"
    by (auto simp: generationRecoveryAction_def job_expired_def split: if_splits option.splits)
  then show "generationRecoveryAction j later \<noteq> No_action" by (simp add: generationRecoveryAction_def)
qed (auto simp: generationRecoveryAction_def job_expired_def generationDispatchBudgetMs_def Let_def ensure_def
    GENERATION_JOB_COMPLETION_MARGIN_MS_def GENERATION_JOB_DEADLINE_MS_def split: if_splits option.splits)

definition example_job :: generation_job where
  "example_job = \<lparr>gj_id = ''j'', gj_correlation_id = ''c'', gj_status = Job_running, gj_lease_expires_at = Some 10,
     gj_dispatch_started_at = None, gj_result_blueprint_id = None, gj_assistant_message_id = None,
     gj_progress_code = None, gj_external_failure_code = None, gj_deadline_at = 600000, gj_finished_at = None\<rparr>"

theorem generation_recovery_is_safe_witness:
  "generationRecoveryAction example_job 20 = Requeue \<and> generationRecoveryAction example_job 700000 \<noteq> No_action
   \<and> generationRecoveryAction (example_job\<lparr>gj_dispatch_started_at := Some 5\<rparr>) 20 \<in> {No_action, Unknown_outcome}"
proof -
  have r: "generationRecoveryAction example_job 20 = Requeue"
    by (simp add: generationRecoveryAction_def example_job_def job_expired_def)
  then show ?thesis
    using generation_recovery_is_safe [of example_job 20 700000]
      generation_recovery_is_safe [of "example_job\<lparr>gj_dispatch_started_at := Some 5\<rparr>" 20 20]
    by simp
qed

end
