(* ===== verification/Chapter_Checkpoint.thy ===== *)
theory Chapter_Checkpoint
  imports Generation_Job
begin

text \<open>
  The chapter checkpoint contract (ai-id/v1/lesson-author-chapter-checkpoint.logic.ts): the unit
  inventory of a draft, the stored unit rows, their integrity, and when an interrupted chapter may be
  resumed. Every check throws one error code; times are milliseconds.
\<close>

section \<open>Rows\<close>

definition CHAPTER_CHECKPOINT_VERSION :: int where "CHAPTER_CHECKPOINT_VERSION = 1"
definition CHAPTER_CHECKPOINT_MAX_UNITS :: nat where "CHAPTER_CHECKPOINT_MAX_UNITS = 512"
definition CHAPTER_CHECKPOINT_MAX_PAYLOAD_BYTES :: nat where "CHAPTER_CHECKPOINT_MAX_PAYLOAD_BYTES = 2097152"

datatype checkpoint_error = CHECKPOINT_NOT_FOUND | CONTRACT_INVALID | SNAPSHOT_CHANGED | LEASE_LOST
  | ALREADY_DISPATCHED | ALREADY_COMMITTED | INCOMPLETE | RESUME_NOT_ALLOWED | PAYLOAD_INVALID

text \<open>\<open>uc_keys\<close> are the own property names of the contract object.\<close>

record unit_contract =
  uc_index :: int
  uc_lesson_index :: int
  uc_unit_index :: int
  uc_contract_hash :: string
  uc_evidence_hash :: string
  uc_keys :: "string list"

record checkpoint_snapshot =
  cs_request_hash :: string
  cs_blueprint_hash :: string
  cs_source_snapshot_hash :: string
  cs_course_outline_hash :: string
  cs_runtime_config_hash :: string

datatype draft_status = Draft_open | Draft_ready | Draft_failed | Draft_canceled

record chapter_draft =
  cd_snapshot :: checkpoint_snapshot
  cd_id :: string
  cd_tenant_id :: string
  cd_conversation_id :: string
  cd_requested_by :: string
  cd_course_id :: string
  cd_blueprint_id :: string
  cd_chapter_index :: int
  cd_contract_version :: int
  cd_total_units :: int
  cd_unit_contracts :: "unit_contract list"
  cd_status :: draft_status
  cd_result_job_id :: "string option"
  cd_expires_at :: int

datatype attempt_status = At_running | At_completed | At_timed_out | At_outcome_unknown | At_failed

datatype accounting_state = Ac_reserved | Ac_settled | Ac_pending_reconciliation

record chapter_attempt =
  ca_id :: string
  ca_draft_id :: string
  ca_tenant_id :: string
  ca_course_id :: string
  ca_correlation_id :: string
  ca_lease_token :: string
  ca_lease_expires_at :: int
  ca_deadline_at :: int
  ca_status :: attempt_status
  ca_dispatch_started_at :: "int option"
  ca_in_flight_unit_index :: "int option"
  ca_accounting_state :: accounting_state
  ca_external_failure_code :: "string option"

record unit_identity =
  ui_draft_id :: string
  ui_tenant_id :: string
  ui_course_id :: string
  ui_unit_index :: int
  ui_contract_hash :: string
  ui_evidence_hash :: string

record unit_row = unit_identity +
  ur_attempt_id :: string
  ur_payload_hash :: string
  ur_validation_contract :: string
  ur_payload :: jsval

section \<open>The inventory and the snapshot\<close>

definition coordinate :: "unit_contract \<Rightarrow> string" where
  "coordinate c = int_text (uc_lesson_index c) @ '':'' @ int_text (uc_unit_index c)"

definition contract_keys :: "string list" where
  "contract_keys = [''contract_hash'', ''evidence_hash'', ''index'', ''lesson_index'', ''unit_index'']"

definition contract_valid :: "nat \<Rightarrow> string set \<Rightarrow> unit_contract \<Rightarrow> bool" where
  "contract_valid i coordinates c \<longleftrightarrow> uc_index c = int i
     \<and> isSafeInteger (uc_lesson_index c) \<and> 0 \<le> uc_lesson_index c
     \<and> isSafeInteger (uc_unit_index c) \<and> 0 \<le> uc_unit_index c
     \<and> is_hash (uc_contract_hash c) \<and> is_hash (uc_evidence_hash c) \<and> coordinate c \<notin> coordinates
     \<and> comma_join (sort (uc_keys c)) = comma_join contract_keys"

fun check_contracts :: "nat \<Rightarrow> string set \<Rightarrow> unit_contract list \<Rightarrow> checkpoint_error + unit" where
  "check_contracts i coordinates [] = Inr ()"
| "check_contracts i coordinates (c # cs) = ensure CONTRACT_INVALID (contract_valid i coordinates c)
     (check_contracts (Suc i) (insert (coordinate c) coordinates) cs)"

definition assertChapterUnitInventory :: "unit_contract list \<Rightarrow> checkpoint_error + unit" where
  "assertChapterUnitInventory cs =
     ensure CONTRACT_INVALID (\<not> (cs = [] \<or> CHAPTER_CHECKPOINT_MAX_UNITS < length cs)) (check_contracts 0 {} cs)"

definition snapshot_fields :: "(checkpoint_snapshot \<Rightarrow> string) list" where
  "snapshot_fields = [cs_request_hash, cs_blueprint_hash, cs_source_snapshot_hash, cs_course_outline_hash,
     cs_runtime_config_hash]"

definition assertChapterSnapshot :: "chapter_draft \<Rightarrow> checkpoint_snapshot \<Rightarrow> checkpoint_error + unit" where
  "assertChapterSnapshot d current = ensure SNAPSHOT_CHANGED
     (list_all (\<lambda>f. is_hash (f current) \<and> f current = f (cd_snapshot d)) snapshot_fields) (Inr ())"

section \<open>Unit payloads\<close>

text \<open>The replacer refuses a value that JSON.stringify would drop or change; \<open>toJSON\<close> ran before it.\<close>

primrec replacer_accepts :: "jsval \<Rightarrow> bool" where
  "replacer_accepts JUndefined = False"
| "replacer_accepts JNull = True"
| "replacer_accepts (JBool b) = True"
| "replacer_accepts (JInt i) = True"
| "replacer_accepts JNonFinite = False"
| "replacer_accepts (JStr s) = True"
| "replacer_accepts JFunction = False"
| "replacer_accepts JSymbol = False"
| "replacer_accepts JBigInt = False"
| "replacer_accepts JHole = False"
| "replacer_accepts JBack = False"
| "replacer_accepts (JExotic own j) = replacer_accepts j"
| "replacer_accepts (JArr xs) = list_all id (map replacer_accepts xs)"
| "replacer_accepts (JObj ps) = list_all snd (map (map_prod id replacer_accepts) ps)"

text \<open>JSON.stringify with an indentation of one space.\<close>

definition newline :: "nat \<Rightarrow> string" where
  "newline n = CHR 0x0A # replicate n (CHR '' '')"

definition indented :: "nat \<Rightarrow> char \<Rightarrow> char \<Rightarrow> string list \<Rightarrow> string" where
  "indented n l r parts = (if parts = [] then [l, r]
     else l # comma_join (map (\<lambda>p. newline (Suc n) @ p) parts) @ newline n @ [r])"

primrec indented_text :: "jsval \<Rightarrow> nat \<Rightarrow> string" where
  "indented_text JUndefined = (\<lambda>n. [])"
| "indented_text JNull = (\<lambda>n. ''null'')"
| "indented_text (JBool b) = (\<lambda>n. if b then ''true'' else ''false'')"
| "indented_text (JInt i) = (\<lambda>n. int_text i)"
| "indented_text JNonFinite = (\<lambda>n. ''null'')"
| "indented_text (JStr s) = (\<lambda>n. json_string s)"
| "indented_text JFunction = (\<lambda>n. [])"
| "indented_text JSymbol = (\<lambda>n. [])"
| "indented_text JBigInt = (\<lambda>n. [])"
| "indented_text JHole = (\<lambda>n. ''null'')"
| "indented_text JBack = (\<lambda>n. [])"
| "indented_text (JExotic own j) = indented_text j"
| "indented_text (JArr xs) = (\<lambda>n. indented n (CHR ''['') (CHR '']'') (map (\<lambda>t. t (Suc n)) (map indented_text xs)))"
| "indented_text (JObj ps) = (\<lambda>n. indented n (CHR ''{'') (CHR ''}'')
     (map (\<lambda>p. json_string (fst p) @ '': '' @ snd p (Suc n)) (map (map_prod id indented_text) ps)))"

definition has_components :: "jsval \<Rightarrow> bool" where
  "has_components v = (case own_props v of
     None \<Rightarrow> False
   | Some ps \<Rightarrow> (case js_field ps ''components'' of JArr (x # xs) \<Rightarrow> True | _ \<Rightarrow> False))"

definition assertChapterUnitPayload :: "jsval \<Rightarrow> checkpoint_error + unit" where
  "assertChapterUnitPayload v = ensure PAYLOAD_INVALID (has_components v)
     (ensure PAYLOAD_INVALID (replacer_accepts v)
       (ensure PAYLOAD_INVALID (\<not> CHAPTER_CHECKPOINT_MAX_PAYLOAD_BYTES < utf8_length (indented_text v 0)) (Inr ())))"

section \<open>Stored units\<close>

definition contract_at :: "unit_contract list \<Rightarrow> int \<Rightarrow> unit_contract option" where
  "contract_at cs i = (if 0 \<le> i \<and> i < int (length cs) then Some (cs ! nat i) else None)"

definition identity_valid :: "chapter_draft \<Rightarrow> int set \<Rightarrow> 'a unit_identity_scheme \<Rightarrow> bool" where
  "identity_valid d seen r = (case contract_at (cd_unit_contracts d) (ui_unit_index r) of
     None \<Rightarrow> False
   | Some c \<Rightarrow> isSafeInteger (ui_unit_index r) \<and> ui_unit_index r \<notin> seen
       \<and> ui_draft_id r = cd_id d \<and> ui_tenant_id r = cd_tenant_id d \<and> ui_course_id r = cd_course_id d
       \<and> ui_contract_hash r = uc_contract_hash c \<and> ui_evidence_hash r = uc_evidence_hash c)"

fun check_identities :: "chapter_draft \<Rightarrow> int set \<Rightarrow> 'a unit_identity_scheme list \<Rightarrow> checkpoint_error + unit" where
  "check_identities d seen [] = Inr ()"
| "check_identities d seen (r # rs) = ensure CONTRACT_INVALID (identity_valid d seen r)
     (check_identities d (insert (ui_unit_index r) seen) rs)"

definition assertChapterCheckpointIndex :: "chapter_draft \<Rightarrow> 'a unit_identity_scheme list \<Rightarrow> checkpoint_error + unit" where
  "assertChapterCheckpointIndex d rows = bindE (assertChapterUnitInventory (cd_unit_contracts d)) (\<lambda>_.
     ensure CONTRACT_INVALID (cd_contract_version d = CHAPTER_CHECKPOINT_VERSION
        \<and> cd_total_units d = int (length (cd_unit_contracts d)))
      (check_identities d {} rows))"

text \<open>\<open>/^[A-Za-z0-9][A-Za-z0-9_.-]{0,99}$/\<close>\<close>

definition is_contract_name :: "string \<Rightarrow> bool" where
  "is_contract_name s = (case s of [] \<Rightarrow> False
     | c # cs \<Rightarrow> (is_upper c \<or> is_lower c \<or> is_digit c) \<and> length cs \<le> 99
         \<and> list_all (\<lambda>x. is_word_char x \<or> x \<in> set ''.-'') cs)"

fun check_payloads :: "(string \<Rightarrow> string) \<Rightarrow> unit_row list \<Rightarrow> checkpoint_error + unit" where
  "check_payloads sha [] = Inr ()"
| "check_payloads sha (r # rs) = ensure CONTRACT_INVALID (is_contract_name (ur_validation_contract r))
     (bindE (assertChapterUnitPayload (ur_payload r)) (\<lambda>_.
       ensure PAYLOAD_INVALID (generationSnapshotHash sha (ur_payload r) = Some (ur_payload_hash r))
         (check_payloads sha rs)))"

definition assertChapterCheckpoints :: "(string \<Rightarrow> string) \<Rightarrow> chapter_draft \<Rightarrow> unit_row list \<Rightarrow> checkpoint_error + unit" where
  "assertChapterCheckpoints sha d rows = bindE (assertChapterCheckpointIndex d rows) (\<lambda>_. check_payloads sha rows)"

section \<open>Attempts\<close>

definition chapterAttemptMatches :: "chapter_draft \<Rightarrow> chapter_attempt \<Rightarrow> bool" where
  "chapterAttemptMatches d a \<longleftrightarrow> ca_draft_id a = cd_id d \<and> ca_tenant_id a = cd_tenant_id d \<and> ca_course_id a = cd_course_id d"

datatype expiry = Not_expired | Expired_timed_out | Expired_outcome_unknown

definition chapterAttemptExpiry :: "chapter_attempt \<Rightarrow> int \<Rightarrow> expiry" where
  "chapterAttemptExpiry a now =
     (if ca_status a \<noteq> At_running \<or> (ca_lease_expires_at a > now \<and> ca_deadline_at a > now) then Not_expired
      else if ca_dispatch_started_at a = None then Expired_timed_out else Expired_outcome_unknown)"

definition assertChapterResume :: "chapter_draft \<Rightarrow> chapter_attempt \<Rightarrow> string \<Rightarrow> int \<Rightarrow> checkpoint_error + unit" where
  "assertChapterResume d latest previous now = ensure RESUME_NOT_ALLOWED
     (\<not> (\<not> chapterAttemptMatches d latest \<or> cd_status d \<noteq> Draft_open \<or> cd_expires_at d \<le> now
        \<or> ca_id latest \<noteq> previous \<or> ca_status latest \<notin> {At_timed_out, At_outcome_unknown})) (Inr ())"

datatype shown_status = Shown_draft draft_status | Shown_attempt attempt_status

record interruption =
  in_completed_units :: int
  in_total_units :: int
  in_can_continue :: bool
  in_previous_attempt_id :: string
  in_usage_pending_reconciliation :: bool

record checkpoint_view =
  cv_draft_id :: string
  cv_attempt_id :: "string option"
  cv_correlation_id :: "string option"
  cv_status :: shown_status
  cv_proposal_job_id :: "string option"
  cv_interruption :: "interruption option"

definition interrupted :: "chapter_draft \<Rightarrow> chapter_attempt option \<Rightarrow> int \<Rightarrow> bool" where
  "interrupted d latest now \<longleftrightarrow> cd_status d = Draft_open \<and> cd_expires_at d > now
     \<and> (case latest of None \<Rightarrow> False | Some a \<Rightarrow> ca_status a \<in> {At_timed_out, At_outcome_unknown})"

definition chapterCheckpointStatus :: "chapter_draft \<Rightarrow> chapter_attempt option \<Rightarrow> int \<Rightarrow> int
    \<Rightarrow> checkpoint_error + checkpoint_view" where
  "chapterCheckpointStatus d latest completed now = ensure CONTRACT_INVALID
     (\<not> (\<not> isSafeInteger completed \<or> completed < 0 \<or> completed > cd_total_units d
        \<or> (case latest of None \<Rightarrow> False | Some a \<Rightarrow> \<not> chapterAttemptMatches d a)))
     (Inr \<lparr>cv_draft_id = cd_id d, cv_attempt_id = map_option ca_id latest,
        cv_correlation_id = map_option ca_correlation_id latest,
        cv_status = (if cd_status d = Draft_open
           then (case latest of None \<Rightarrow> Shown_draft Draft_open | Some a \<Rightarrow> Shown_attempt (ca_status a))
           else Shown_draft (cd_status d)),
        cv_proposal_job_id = (if cd_status d = Draft_ready then cd_result_job_id d else None),
        cv_interruption = (case latest of None \<Rightarrow> None
          | Some a \<Rightarrow> if interrupted d latest now
              then Some \<lparr>in_completed_units = completed, in_total_units = cd_total_units d, in_can_continue = True,
                  in_previous_attempt_id = ca_id a,
                  in_usage_pending_reconciliation = (ca_accounting_state a = Ac_pending_reconciliation)\<rparr>
              else None)\<rparr>)"

section \<open>What the checks give\<close>

lemma check_contracts_distinct:
  "check_contracts i S cs = Inr () \<Longrightarrow> distinct (map coordinate cs) \<and> set (map coordinate cs) \<inter> S = {}"
  by (induction i S cs rule: check_contracts.induct) (auto simp: contract_valid_def)

lemma coordinates_distinct:
  "distinct (map coordinate cs) \<Longrightarrow> distinct (map (\<lambda>c. (uc_lesson_index c, uc_unit_index c)) cs)"
  by (simp add: distinct_map inj_on_def coordinate_def)

lemma check_identities_sound:
  "check_identities d S rs = Inr () \<Longrightarrow> list_all (identity_valid d {}) rs \<and> distinct (map ui_unit_index rs)
     \<and> ui_unit_index ` set rs \<inter> S = {}"
proof (induction rs arbitrary: S)
  case (Cons r rs)
  then have r: "identity_valid d S r" and rs: "check_identities d (insert (ui_unit_index r) S) rs = Inr ()" by simp_all
  have "identity_valid d {} r" "ui_unit_index r \<notin> S"
    using r by (simp_all add: identity_valid_def split: option.splits)
  then show ?case using Cons.IH [OF rs] by simp
qed simp

lemma check_payloads_hash:
  "check_payloads sha rs = Inr () \<Longrightarrow> r \<in> set rs \<Longrightarrow> generationSnapshotHash sha (ur_payload r) = Some (ur_payload_hash r)"
  by (induction rs) auto

lemma contract_at_Some: "contract_at cs i = Some c \<Longrightarrow> i \<in> {0..<int (length cs)}"
  by (simp add: contract_at_def split: if_splits)

section \<open>Properties\<close>

text \<open>
  C37: what accepted checkpoints guarantee. The contracts of the draft have distinct coordinates; every
  stored unit belongs to this draft, tenant and course, carries the contract and evidence hashes of its
  own unit, and its payload hash verifies; no unit is stored twice; and when as many units are stored as
  the draft has, every unit is stored, exactly once.
\<close>

theorem accepted_checkpoints_are_sound:
  assumes "assertChapterCheckpoints sha d rows = Inr ()"
  shows "distinct (map (\<lambda>c. (uc_lesson_index c, uc_unit_index c)) (cd_unit_contracts d))
    \<and> distinct (map ui_unit_index rows)
    \<and> (\<forall>r \<in> set rows. \<exists>c. contract_at (cd_unit_contracts d) (ui_unit_index r) = Some c
         \<and> ui_contract_hash r = uc_contract_hash c \<and> ui_evidence_hash r = uc_evidence_hash c
         \<and> ui_draft_id r = cd_id d \<and> ui_tenant_id r = cd_tenant_id d \<and> ui_course_id r = cd_course_id d
         \<and> generationSnapshotHash sha (ur_payload r) = Some (ur_payload_hash r))
    \<and> (int (length rows) = cd_total_units d \<longrightarrow> ui_unit_index ` set rows = {0..<cd_total_units d})"
proof -
  let ?cs = "cd_unit_contracts d"
  from assms have inv: "check_contracts 0 {} ?cs = Inr ()" and ids: "check_identities d {} rows = Inr ()"
    and pay: "check_payloads sha rows = Inr ()" and total: "cd_total_units d = int (length ?cs)"
    by (auto simp: assertChapterCheckpoints_def assertChapterCheckpointIndex_def assertChapterUnitInventory_def)
  from check_identities_sound [OF ids] have valid: "list_all (identity_valid d {}) rows"
    and dist: "distinct (map ui_unit_index rows)" by auto
  have row: "\<exists>c. contract_at ?cs (ui_unit_index r) = Some c
         \<and> ui_contract_hash r = uc_contract_hash c \<and> ui_evidence_hash r = uc_evidence_hash c
         \<and> ui_draft_id r = cd_id d \<and> ui_tenant_id r = cd_tenant_id d \<and> ui_course_id r = cd_course_id d
         \<and> generationSnapshotHash sha (ur_payload r) = Some (ur_payload_hash r)" if "r \<in> set rows" for r
    using valid that check_payloads_hash [OF pay that]
    by (auto simp: list_all_iff identity_valid_def split: option.splits)
  have "ui_unit_index ` set rows = {0..<cd_total_units d}" if n: "int (length rows) = cd_total_units d"
  proof (rule card_subset_eq)
    show "ui_unit_index ` set rows \<subseteq> {0..<cd_total_units d}"
      using row contract_at_Some total by fastforce
    have "card (ui_unit_index ` set rows) = length rows" using dist by (metis distinct_card list.set_map length_map)
    then show "card (ui_unit_index ` set rows) = card {0..<cd_total_units d}" using n by simp
  qed simp
  with check_contracts_distinct [OF inv] coordinates_distinct dist row show ?thesis by blast
qed

definition example_contract :: unit_contract where
  "example_contract = \<lparr>uc_index = 0, uc_lesson_index = 0, uc_unit_index = 0,
     uc_contract_hash = replicate 64 (CHR ''a''), uc_evidence_hash = replicate 64 (CHR ''b''), uc_keys = contract_keys\<rparr>"

definition example_draft :: chapter_draft where
  "example_draft = \<lparr>cd_snapshot = \<lparr>cs_request_hash = [], cs_blueprint_hash = [], cs_source_snapshot_hash = [],
       cs_course_outline_hash = [], cs_runtime_config_hash = []\<rparr>,
     cd_id = ''d'', cd_tenant_id = ''t'', cd_conversation_id = ''v'', cd_requested_by = ''u'', cd_course_id = ''c'',
     cd_blueprint_id = ''b'', cd_chapter_index = 0, cd_contract_version = 1, cd_total_units = 1,
     cd_unit_contracts = [example_contract], cd_status = Draft_open, cd_result_job_id = None, cd_expires_at = 1000\<rparr>"

definition example_unit :: unit_row where
  "example_unit = \<lparr>ui_draft_id = ''d'', ui_tenant_id = ''t'', ui_course_id = ''c'', ui_unit_index = 0,
     ui_contract_hash = replicate 64 (CHR ''a''), ui_evidence_hash = replicate 64 (CHR ''b''),
     ur_attempt_id = ''a'', ur_payload_hash = ''p'', ur_validation_contract = ''v1'',
     ur_payload = JObj [(''components'', JArr [JNull])]\<rparr>"

lemma example_hash64: "is_hash (replicate 64 (CHR ''a''))" "is_hash (replicate 64 (CHR ''b''))"
  by (simp_all add: is_hash_def list_all_iff char_class_defs)

lemma example_contract_keys: "comma_join (sort contract_keys) = comma_join contract_keys"
  by code_simp

lemma example_payload: "assertChapterUnitPayload (JObj [(''components'', JArr [JNull])]) = Inr ()"
proof -
  have "utf8_length (indented_text (JObj [(''components'', JArr [JNull])]) 0) = 30" by code_simp
  then show ?thesis by (simp add: assertChapterUnitPayload_def has_components_def js_field_def CHAPTER_CHECKPOINT_MAX_PAYLOAD_BYTES_def)
qed

lemma example_checkpoints: "assertChapterCheckpoints (\<lambda>_. ''p'') example_draft [example_unit] = Inr ()"
proof -
  have h: "generationSnapshotHash (\<lambda>_. ''p'') (JObj [(''components'', JArr [JNull])]) = Some ''p''"
    by (simp add: generationSnapshotHash_def own_order_def is_index_key_def is_digit_def char_between_def
        persist_props_def persist_elems_def kept_prop_def map_filter_simps)
  have v: "is_contract_name ''v1''" by code_simp
  have "check_payloads (\<lambda>_. ''p'') [example_unit] = Inr ()"
    using h v example_payload by (simp add: example_unit_def)
  moreover have "check_contracts 0 {} [example_contract] = Inr ()"
    using example_hash64 example_contract_keys
    by (simp add: contract_valid_def example_contract_def isSafeInteger_def MAX_SAFE_INTEGER_def)
  moreover have "check_identities example_draft {} [example_unit] = Inr ()"
    by (simp add: identity_valid_def contract_at_def example_draft_def example_unit_def example_contract_def
        isSafeInteger_def MAX_SAFE_INTEGER_def)
  ultimately show ?thesis
    by (simp add: assertChapterCheckpoints_def assertChapterCheckpointIndex_def assertChapterUnitInventory_def
        example_draft_def CHAPTER_CHECKPOINT_MAX_UNITS_def CHAPTER_CHECKPOINT_VERSION_def)
qed

theorem accepted_checkpoints_are_sound_witness:
  "ui_unit_index ` set [example_unit] = {0..<cd_total_units example_draft}"
  using accepted_checkpoints_are_sound [OF example_checkpoints] by (simp add: example_draft_def)

text \<open>
  The status shown to the owner and the resume guard agree. Continuing is offered exactly when the
  resume with the offered attempt id is accepted at that moment; it is never offered while an attempt
  runs; and once the lease or the deadline of a running attempt has passed, ending it as the expiry rule
  says makes an open draft resumable, with an unknown outcome exactly when it had been dispatched.
\<close>

theorem resume_is_offered_iff_accepted:
  assumes "chapterCheckpointStatus d (Some a) completed now = Inr v"
  shows "(cv_interruption v \<noteq> None \<longleftrightarrow> assertChapterResume d a (ca_id a) now = Inr ())
    \<and> (\<forall>i. cv_interruption v = Some i \<longrightarrow> in_previous_attempt_id i = ca_id a)
    \<and> (ca_status a = At_running \<longrightarrow> cv_interruption v = None)
    \<and> (chapterAttemptExpiry a now \<noteq> Not_expired \<and> cd_status d = Draft_open \<and> now < cd_expires_at d \<longrightarrow>
        assertChapterResume d (a\<lparr>ca_status := (if chapterAttemptExpiry a now = Expired_timed_out then At_timed_out
            else At_outcome_unknown)\<rparr>) (ca_id a) now = Inr ()
        \<and> (chapterAttemptExpiry a now = Expired_outcome_unknown \<longleftrightarrow> ca_dispatch_started_at a \<noteq> None))"
  using assms
  by (auto simp: chapterCheckpointStatus_def assertChapterResume_def chapterAttemptExpiry_def interrupted_def
      chapterAttemptMatches_def ensure_def split: if_splits)

definition example_attempt :: chapter_attempt where
  "example_attempt = \<lparr>ca_id = ''a'', ca_draft_id = ''d'', ca_tenant_id = ''t'', ca_course_id = ''c'',
     ca_correlation_id = ''x'', ca_lease_token = ''l'', ca_lease_expires_at = 10, ca_deadline_at = 20,
     ca_status = At_timed_out, ca_dispatch_started_at = None, ca_in_flight_unit_index = None,
     ca_accounting_state = Ac_settled, ca_external_failure_code = None\<rparr>"

theorem resume_is_offered_iff_accepted_witness:
  "\<exists>v. chapterCheckpointStatus example_draft (Some example_attempt) 0 15 = Inr v \<and> cv_interruption v \<noteq> None"
proof -
  obtain v where v: "chapterCheckpointStatus example_draft (Some example_attempt) 0 15 = Inr v"
    by (auto simp: chapterCheckpointStatus_def example_draft_def example_attempt_def chapterAttemptMatches_def
        isSafeInteger_def MAX_SAFE_INTEGER_def)
  moreover have "assertChapterResume example_draft example_attempt (ca_id example_attempt) 15 = Inr ()"
    by (simp add: assertChapterResume_def example_draft_def example_attempt_def chapterAttemptMatches_def)
  ultimately show ?thesis using resume_is_offered_iff_accepted [OF v] by blast
qed

end
