(* ===== verification/Chat_Turn.thy ===== *)
theory Chat_Turn
  imports Generation_Job Event_System Complex_Main
begin

text \<open>
  One chat answer: the usage a provider call is billed (ai-platform/ai-usage.logic.ts), the retry and
  metering rules of a turn (chat/chat-provider-turn.logic.ts) and the event stream to the client
  (chat/chat-stream-lifecycle.logic.ts). Token counts are integers; the two estimates and the random
  number are real, without the rounding of binary fractions. What happens to a meter or a stream is the
  list of the calls made on it.
\<close>

section \<open>Usage\<close>

record ai_usage =
  us_input :: int
  us_output :: int
  us_embedding :: int
  us_total :: int
  us_cached :: "int option"

record gemini_metadata =
  gm_prompt :: jsval
  gm_tool_use_prompt :: jsval
  gm_candidates :: jsval
  gm_thoughts :: jsval
  gm_cached_content :: jsval
  gm_total :: jsval

fun count_tokens :: "jsval \<Rightarrow> int" where
  "count_tokens (JInt n) = (if 0 < n then n else 0)"
| "count_tokens _ = 0"

fun is_number :: "jsval \<Rightarrow> bool" where
  "is_number (JInt n) = True"
| "is_number JNonFinite = True"
| "is_number _ = False"

definition positive_count :: "int \<Rightarrow> int option" where
  "positive_count n = (if 0 < n then Some n else None)"

definition aiUsageFromGeminiMetadata :: "gemini_metadata option \<Rightarrow> ai_usage option" where
  "aiUsageFromGeminiMetadata meta = (case meta of
     None \<Rightarrow> None
   | Some m \<Rightarrow>
      (if \<not> list_ex is_number [gm_prompt m, gm_candidates m, gm_thoughts m, gm_total m] then None
       else (let i = count_tokens (gm_prompt m) + count_tokens (gm_tool_use_prompt m);
                 out = count_tokens (gm_candidates m) + count_tokens (gm_thoughts m);
                 tot = max (count_tokens (gm_total m)) (i + out);
                 cached = min (count_tokens (gm_cached_content m)) i
             in Some \<lparr>us_input = i, us_output = out, us_embedding = 0, us_total = tot,
                  us_cached = positive_count cached\<rparr>)))"

definition cached_count :: "ai_usage \<Rightarrow> int" where
  "cached_count u = (case us_cached u of None \<Rightarrow> 0 | Some n \<Rightarrow> n)"

definition addAiUsage :: "ai_usage option \<Rightarrow> ai_usage option \<Rightarrow> ai_usage option" where
  "addAiUsage acc nxt = (case nxt of
     None \<Rightarrow> acc
   | Some b \<Rightarrow> (case acc of
        None \<Rightarrow> Some b
      | Some a \<Rightarrow> Some \<lparr>us_input = us_input a + us_input b, us_output = us_output a + us_output b,
           us_embedding = us_embedding a + us_embedding b, us_total = us_total a + us_total b,
           us_cached = positive_count (cached_count a + cached_count b)\<rparr>))"

text \<open>The last chunk that reports usage wins.\<close>

definition observe :: "ai_usage option \<Rightarrow> gemini_metadata option \<Rightarrow> ai_usage option" where
  "observe lst chunk = (case aiUsageFromGeminiMetadata chunk of Some u \<Rightarrow> Some u | None \<Rightarrow> lst)"

definition stream_usage :: "gemini_metadata option list \<Rightarrow> ai_usage option" where
  "stream_usage chunks = foldl observe None chunks"

text \<open>\<open>/^[a-z][a-z0-9_]{0,63}$/\<close>\<close>

definition is_feature :: "string \<Rightarrow> bool" where
  "is_feature s \<longleftrightarrow> (case s of [] \<Rightarrow> False
     | c # cs \<Rightarrow> is_lower c \<and> length cs \<le> 63 \<and> list_all (\<lambda>x. is_lower x \<or> is_digit x \<or> x = CHR ''_'') cs)"

definition aiLedgerFeature :: "(string \<times> jsval) list option \<Rightarrow> string \<Rightarrow> string" where
  "aiLedgerFeature metadata operation =
     (let field = (\<lambda>k. case metadata of None \<Rightarrow> JUndefined | Some ps \<Rightarrow> js_field ps k);
          implied = (if field ''report_pdf'' = JBool True then ''report_pdf_narrative''
            else if operation = ''lesson_author'' then ''ai_id''
            else if operation = ''indexing'' then ''document_indexing''
            else ''chat'')
      in (case field ''feature'' of JStr own \<Rightarrow> if is_feature own then own else implied | _ \<Rightarrow> implied))"

section \<open>Retries\<close>

text \<open>\<open>Math.round\<close> rounds halves up.\<close>

definition js_round :: "real \<Rightarrow> int" where
  "js_round x = \<lfloor>x + 1 / 2\<rfloor>"

definition chatRetryDelayMs :: "int \<Rightarrow> int option \<Rightarrow> int \<Rightarrow> real \<Rightarrow> int" where
  "chatRetryDelayMs attempt suggested base random =
     (case suggested of
        Some s \<Rightarrow> if 0 < s then js_round (of_int s + random * of_int s * (1 / 5))
          else (let d = base * max 1 attempt in js_round (of_int d / 2 + random * (of_int d / 2)))
      | None \<Rightarrow> (let d = base * max 1 attempt in js_round (of_int d / 2 + random * (of_int d / 2))))"

record retry_input =
  ri_status :: int
  ri_attempt :: int
  ri_max_retries :: int
  ri_stopped :: bool
  ri_text_sent :: bool

definition mayRetryChatAttempt :: "retry_input \<Rightarrow> bool" where
  "mayRetryChatAttempt i =
     (if ri_stopped i \<or> ri_text_sent i then False
      else if ri_status i \<noteq> 429 \<and> ri_status i \<noteq> 503 then False
      else ri_attempt i < ri_max_retries i)"

section \<open>Metering\<close>

record call_record =
  cr_usage :: "ai_usage option"
  cr_output :: string
  cr_failed :: bool
  cr_stopped :: bool

datatype meter_event = Start | AddOutput nat string | SetUsage nat "ai_usage option" | Fail nat bool

definition new_call :: call_record where
  "new_call = \<lparr>cr_usage = None, cr_output = [], cr_failed = False, cr_stopped = False\<rparr>"

definition on_call :: "nat \<Rightarrow> (call_record \<Rightarrow> call_record) \<Rightarrow> call_record list \<Rightarrow> call_record list" where
  "on_call i f calls = (if i < length calls then calls[i := f (calls ! i)] else calls)"

fun meter_step :: "call_record list \<Rightarrow> meter_event \<Rightarrow> call_record list" where
  "meter_step calls Start = calls @ [new_call]"
| "meter_step calls (AddOutput i t) = on_call i (\<lambda>c. c\<lparr>cr_output := cr_output c @ t\<rparr>) calls"
| "meter_step calls (SetUsage i u) = on_call i (\<lambda>c. if u = None then c else c\<lparr>cr_usage := u\<rparr>) calls"
| "meter_step calls (Fail i st) = on_call i (\<lambda>c. c\<lparr>cr_failed := True, cr_stopped := cr_stopped c \<or> st\<rparr>) calls"

definition meter :: "meter_event list \<Rightarrow> call_record list" where
  "meter es = foldl meter_step [] es"

definition call_started :: "call_record \<Rightarrow> bool" where
  "call_started c \<longleftrightarrow> cr_usage c \<noteq> None \<or> 0 < length (cr_output c) \<or> cr_stopped c \<or> \<not> cr_failed c"

definition anyStopped :: "call_record list \<Rightarrow> bool" where
  "anyStopped calls \<longleftrightarrow> list_ex cr_stopped calls"

definition estimate_usage :: "real \<Rightarrow> (string \<Rightarrow> real) \<Rightarrow> call_record \<Rightarrow> ai_usage" where
  "estimate_usage inputTokens estimateTokens c =
     (let i = max 0 \<lceil>inputTokens\<rceil>;
          out = (if cr_output c \<noteq> [] then max 0 \<lceil>estimateTokens (cr_output c)\<rceil> else 0)
      in \<lparr>us_input = i, us_output = out, us_embedding = 0, us_total = i + out, us_cached = None\<rparr>)"

definition call_usage :: "real \<Rightarrow> (string \<Rightarrow> real) \<Rightarrow> call_record \<Rightarrow> ai_usage" where
  "call_usage inputTokens estimateTokens c =
     (case cr_usage c of Some u \<Rightarrow> u | None \<Rightarrow> estimate_usage inputTokens estimateTokens c)"

definition billedUsage :: "real \<Rightarrow> (string \<Rightarrow> real) \<Rightarrow> call_record list \<Rightarrow> ai_usage option" where
  "billedUsage inputTokens estimateTokens calls =
     foldl (\<lambda>acc c. if \<not> call_started c then acc
       else addAiUsage acc (Some (call_usage inputTokens estimateTokens c))) None calls"

section \<open>The stream to the client\<close>

datatype diagnostic = Stream_open | Client_disconnected | Stream_end | Handler_complete

record stream =
  st_disconnected :: bool
  st_disposed :: bool
  st_heartbeats :: nat
  st_last_write_at :: "int option"
  st_timer :: bool
  st_ended :: bool
  st_destroyed :: bool
  st_wire :: "string list"
  st_log :: "diagnostic list"
  st_end_calls :: nat

definition diagnose :: "diagnostic \<Rightarrow> stream \<Rightarrow> stream" where
  "diagnose d s = s\<lparr>st_log := st_log s @ [d]\<rparr>"

definition dispose_timer :: "stream \<Rightarrow> stream" where
  "dispose_timer s = (if st_disposed s then s else s\<lparr>st_disposed := True, st_timer := False\<rparr>)"

definition disconnect :: "stream \<Rightarrow> stream" where
  "disconnect s = (if st_disconnected s \<or> st_disposed s then s
     else dispose_timer (diagnose Client_disconnected (s\<lparr>st_disconnected := True\<rparr>)))"

text \<open>\<open>writes\<close>: whether \<open>response.write\<close> returns instead of throwing.\<close>

definition write_wire :: "bool \<Rightarrow> int \<Rightarrow> string \<Rightarrow> stream \<Rightarrow> bool \<times> stream" where
  "write_wire writes now wire s =
     (if st_disconnected s \<or> st_disposed s \<or> st_ended s \<or> st_destroyed s then (False, s)
      else if writes then (True, s\<lparr>st_wire := st_wire s @ [wire], st_last_write_at := Some now\<rparr>)
      else (False, disconnect s))"

definition keepalive :: string where
  "keepalive = '': keepalive'' @ [CHR 0x0A, CHR 0x0A]"

definition tick :: "bool \<Rightarrow> bool \<Rightarrow> int \<Rightarrow> stream \<Rightarrow> stream" where
  "tick needDrain writes now s =
     (if st_destroyed s \<or> st_ended s then disconnect s
      else if needDrain then s
      else (let (wrote, s') = write_wire writes now keepalive s in
        if wrote then s'\<lparr>st_heartbeats := st_heartbeats s' + 1\<rparr> else s'))"

definition open_stream :: "bool \<Rightarrow> bool \<Rightarrow> stream" where
  "open_stream ended destroyed = diagnose Stream_open \<lparr>st_disconnected = False, st_disposed = False, st_heartbeats = 0,
     st_last_write_at = None, st_timer = True, st_ended = ended, st_destroyed = destroyed, st_wire = [], st_log = [],
     st_end_calls = 0\<rparr>"

definition event_wire :: "string \<Rightarrow> string" where
  "event_wire json = ''data: '' @ json @ [CHR 0x0A, CHR 0x0A]"

definition finish :: "stream \<Rightarrow> stream" where
  "finish s = (if st_disposed s then s
     else (let s' = dispose_timer (diagnose Stream_end s) in
       if \<not> st_ended s' \<and> \<not> st_destroyed s' then s'\<lparr>st_ended := True, st_end_calls := st_end_calls s' + 1\<rparr> else s'))"

definition dispose :: "stream \<Rightarrow> stream" where
  "dispose s = dispose_timer (diagnose Handler_complete s)"

text \<open>The calls of the handler, the timer while it runs, and the socket closing under the stream.\<close>

datatype stream_event = Write_event bool int string | Tick bool bool int | Disconnect | Finish | Dispose | Socket_closes

fun stream_step :: "stream \<Rightarrow> stream_event \<Rightarrow> stream" where
  "stream_step s (Write_event w now json) = snd (write_wire w now (event_wire json) s)"
| "stream_step s (Tick drain w now) = (if st_timer s then tick drain w now s else s)"
| "stream_step s Disconnect = disconnect s"
| "stream_step s Finish = finish s"
| "stream_step s Dispose = dispose s"
| "stream_step s Socket_closes = s\<lparr>st_destroyed := True\<rparr>"

section \<open>Metering\<close>

text \<open>Every call after its \<open>start\<close>: the handles a caller can have.\<close>

fun wf_meter :: "nat \<Rightarrow> meter_event list \<Rightarrow> bool" where
  "wf_meter n [] = True"
| "wf_meter n (Start # es) = wf_meter (Suc n) es"
| "wf_meter n (AddOutput i t # es) = (i < n \<and> wf_meter n es)"
| "wf_meter n (SetUsage i u # es) = (i < n \<and> wf_meter n es)"
| "wf_meter n (Fail i st # es) = (i < n \<and> wf_meter n es)"

definition call_at :: "call_record list \<Rightarrow> nat \<Rightarrow> call_record" where
  "call_at calls i = (if i < length calls then calls ! i else new_call)"

lemma call_at_on_call:
  "call_at (on_call j f calls) i = (if j < length calls \<and> i = j then f (call_at calls i) else call_at calls i)"
  by (auto simp: call_at_def on_call_def)

lemma call_at_append: "call_at (calls @ [new_call]) i = call_at calls i"
  by (auto simp: call_at_def nth_append)

lemma length_on_call [simp]: "length (on_call j f calls) = length calls"
  by (simp add: on_call_def)

lemma meter_trace:
  assumes "wf_meter (length calls) es"
  shows "(cr_usage (call_at (foldl meter_step calls es) i) \<noteq> None
        \<longleftrightarrow> cr_usage (call_at calls i) \<noteq> None \<or> (\<exists>u. SetUsage i (Some u) \<in> set es))
    \<and> (cr_output (call_at (foldl meter_step calls es) i) \<noteq> []
        \<longleftrightarrow> cr_output (call_at calls i) \<noteq> [] \<or> (\<exists>t. t \<noteq> [] \<and> AddOutput i t \<in> set es))
    \<and> (cr_stopped (call_at (foldl meter_step calls es) i) \<longleftrightarrow> cr_stopped (call_at calls i) \<or> Fail i True \<in> set es)
    \<and> (cr_failed (call_at (foldl meter_step calls es) i) \<longleftrightarrow> cr_failed (call_at calls i) \<or> (\<exists>b. Fail i b \<in> set es))"
  using assms
proof (induction es arbitrary: calls)
  case (Cons e es)
  show ?case
  proof (cases e)
    case Start
    with Cons.IH [of "calls @ [new_call]"] Cons.prems show ?thesis by (simp add: call_at_append)
  next
    case (AddOutput j t)
    with Cons.IH [of "on_call j (\<lambda>c. c\<lparr>cr_output := cr_output c @ t\<rparr>) calls"] Cons.prems show ?thesis
      by (cases "i = j"; cases "t = []") (auto simp: call_at_on_call)
  next
    case (SetUsage j u)
    with Cons.IH [of "on_call j (\<lambda>c. if u = None then c else c\<lparr>cr_usage := u\<rparr>) calls"] Cons.prems show ?thesis
      by (cases "i = j"; cases u) (auto simp: call_at_on_call)
  next
    case (Fail j st)
    with Cons.IH [of "on_call j (\<lambda>c. c\<lparr>cr_failed := True, cr_stopped := cr_stopped c \<or> st\<rparr>) calls"] Cons.prems
    show ?thesis by (cases "i = j"; cases st) (auto simp: call_at_on_call)
  qed
qed simp

text \<open>A usage whose total covers its parts and whose cached part is part of the input.\<close>

definition usage_ok :: "ai_usage \<Rightarrow> bool" where
  "usage_ok u \<longleftrightarrow> 0 \<le> us_input u \<and> 0 \<le> us_output u \<and> 0 \<le> us_embedding u
     \<and> us_input u + us_output u + us_embedding u \<le> us_total u \<and> 0 \<le> cached_count u \<and> cached_count u \<le> us_input u"

lemma usage_ok_metadata: "aiUsageFromGeminiMetadata m = Some u \<Longrightarrow> usage_ok u"
proof -
  have "0 \<le> count_tokens v" for v by (cases v rule: count_tokens.cases) auto
  then show "aiUsageFromGeminiMetadata m = Some u \<Longrightarrow> usage_ok u"
    by (auto simp: aiUsageFromGeminiMetadata_def usage_ok_def Let_def cached_count_def positive_count_def
        split: option.splits if_splits)
qed

lemma usage_ok_estimate: "usage_ok (estimate_usage x f c)"
  by (simp add: estimate_usage_def usage_ok_def Let_def cached_count_def)

lemma cached_positive_count: "0 \<le> n \<Longrightarrow> cached_count (u\<lparr>us_cached := positive_count n\<rparr>) = n"
  by (simp add: cached_count_def positive_count_def)

lemma addAiUsage_Some: "\<exists>u. addAiUsage acc (Some b) = Some u"
  by (simp add: addAiUsage_def split: option.splits)

lemma usage_ok_add: "usage_ok a \<Longrightarrow> usage_ok b \<Longrightarrow> addAiUsage (Some a) (Some b) = Some u \<Longrightarrow> usage_ok u"
  by (auto simp: addAiUsage_def usage_ok_def cached_count_def [of "_\<lparr>us_input := _\<rparr>"] positive_count_def)
    (auto simp: cached_count_def split: option.splits)

definition started_usages :: "real \<Rightarrow> (string \<Rightarrow> real) \<Rightarrow> call_record list \<Rightarrow> ai_usage list" where
  "started_usages x f calls = map (call_usage x f) (filter call_started calls)"

lemma billedUsage_fold: "billedUsage x f calls = foldl (\<lambda>acc u. addAiUsage acc (Some u)) None (started_usages x f calls)"
proof -
  have "foldl (\<lambda>acc c. if \<not> call_started c then acc else addAiUsage acc (Some (call_usage x f c))) a calls
      = foldl (\<lambda>acc u. addAiUsage acc (Some u)) a (map (call_usage x f) (filter call_started calls))" for a
    by (induction calls arbitrary: a) auto
  then show ?thesis by (simp add: billedUsage_def started_usages_def)
qed

lemma fold_add:
  "\<exists>u. foldl (\<lambda>acc u. addAiUsage acc (Some u)) (Some a) us = Some u
     \<and> us_input u = us_input a + sum_list (map us_input us) \<and> us_output u = us_output a + sum_list (map us_output us)
     \<and> us_total u = us_total a + sum_list (map us_total us) \<and> (usage_ok a \<and> list_all usage_ok us \<longrightarrow> usage_ok u)"
proof (induction us arbitrary: a)
  case (Cons b us)
  obtain c where c: "addAiUsage (Some a) (Some b) = Some c" using addAiUsage_Some by blast
  have "us_input c = us_input a + us_input b" "us_output c = us_output a + us_output b" "us_total c = us_total a + us_total b"
    using c by (auto simp: addAiUsage_def)
  moreover have "usage_ok a \<Longrightarrow> usage_ok b \<Longrightarrow> usage_ok c" using usage_ok_add c by blast
  ultimately show ?case using Cons.IH [of c] c by auto
qed simp


definition example_calls :: "meter_event list" where
  "example_calls = [Start, Fail 0 False, Start, AddOutput 1 ''ab'', Fail 1 True]"


section \<open>The stream\<close>

definition stream_inv :: "stream \<Rightarrow> bool" where
  "stream_inv s \<longleftrightarrow> (st_disposed s \<longleftrightarrow> \<not> st_timer s) \<and> (st_disconnected s \<longrightarrow> st_disposed s)
     \<and> count_list (st_log s) Client_disconnected = (if st_disconnected s then 1 else 0)
     \<and> count_list (st_log s) Client_disconnected + count_list (st_log s) Stream_end \<le> (if st_disposed s then 1 else 0)
     \<and> st_end_calls s \<le> count_list (st_log s) Stream_end
     \<and> st_heartbeats s \<le> count_list (st_wire s) keepalive"

lemmas stream_defs = diagnose_def dispose_timer_def disconnect_def write_wire_def tick_def finish_def dispose_def

lemma stream_inv_step: "stream_inv s \<Longrightarrow> stream_inv (stream_step s e)"
  by (cases e) (auto simp: stream_inv_def stream_defs Let_def count_list_append split: if_splits)

interpretation event_stream: event_system stream_step stream_inv
  by unfold_locales (rule stream_inv_step)

lemma disposed_step:
  "stream_inv s \<Longrightarrow> st_disposed s \<Longrightarrow> st_disposed (stream_step s e) \<and> st_wire (stream_step s e) = st_wire s
     \<and> st_end_calls (stream_step s e) = st_end_calls s \<and> st_heartbeats (stream_step s e) = st_heartbeats s"
  by (cases e) (auto simp: stream_inv_def stream_defs Let_def split: if_splits)

lemma disposed_run:
  "stream_inv s \<Longrightarrow> st_disposed s \<Longrightarrow> st_wire (foldl stream_step s es) = st_wire s
     \<and> st_end_calls (foldl stream_step s es) = st_end_calls s \<and> \<not> st_timer (foldl stream_step s es)"
proof -
  assume s: "stream_inv s" "st_disposed s"
  let ?P = "\<lambda>t. st_disposed t \<and> st_wire t = st_wire s \<and> st_end_calls t = st_end_calls s"
  have "?P (foldl stream_step s es)"
    by (rule event_stream.run_keeps [OF _ s(1)]) (use s disposed_step in simp_all)
  then show ?thesis using event_stream.inv_run [OF s(1), of es] by (simp add: stream_inv_def)
qed

text \<open>
  C40: the stream ends once and stays silent. In every run a disconnect and a normal end exclude each
  other and each is logged at most once, the response is ended at most once and never after a disconnect,
  every counted heartbeat was written, and the timer runs exactly until the stream is disposed; from then
  on no event writes, ends the response or restarts the timer.
\<close>

theorem stream_ends_once:
  assumes "s = foldl stream_step (open_stream ended destroyed) es"
  shows "count_list (st_log s) Client_disconnected + count_list (st_log s) Stream_end \<le> 1
    \<and> st_end_calls s \<le> count_list (st_log s) Stream_end
    \<and> st_heartbeats s \<le> count_list (st_wire s) keepalive
    \<and> (st_timer s \<longleftrightarrow> \<not> st_disposed s)
    \<and> (st_disconnected s \<longrightarrow> st_disposed s \<and> st_end_calls s = 0)
    \<and> (st_disposed s \<longrightarrow> st_wire (foldl stream_step s fs) = st_wire s
        \<and> st_end_calls (foldl stream_step s fs) = st_end_calls s \<and> \<not> st_timer (foldl stream_step s fs))"
proof -
  have "stream_inv (open_stream ended destroyed)"
    by (simp add: stream_inv_def open_stream_def diagnose_def)
  then have inv: "stream_inv s" unfolding assms by (rule event_stream.inv_run)
  then show ?thesis using disposed_run [OF inv] by (auto simp: stream_inv_def split: if_splits)
qed

theorem stream_ends_once_witness:
  "st_wire (foldl stream_step (stream_step (open_stream False False) Finish) [Write_event True 0 ''x'']) = []"
proof -
  let ?s = "foldl stream_step (open_stream False False) [Finish]"
  have "st_disposed ?s" "st_wire ?s = []" by (simp_all add: open_stream_def stream_defs Let_def)
  with stream_ends_once [of ?s False False "[Finish]" "[Write_event True 0 ''x'']"] show ?thesis by simp
qed

end
