(* ===== verification/Cluster_Bus.thy ===== *)
theory Cluster_Bus
  imports Generation_Job Event_System
begin

text \<open>
  The cluster bus (config/cluster-bus.ts): the listening connection of a process, its retries and
  probes, the messages it sends and delivers, and the lifetime of the values a process caches. Every
  callback, timer and settled promise is an event; a connection is a number. A message is the JSON value
  on the wire. \<open>b_cache\<close> stands for the in-process caches whose reset handlers drop everything
  (middleware/authorize.ts is one); \<open>ce_exposed\<close> is a ghost flag: another process changed the
  data while this process was not listening.
\<close>

section \<open>Messages\<close>

definition CLUSTER_BUS_MAX_PAYLOAD_BYTES :: nat where "CLUSTER_BUS_MAX_PAYLOAD_BYTES = 7900"

definition CLUSTER_BUS_DEGRADED_CACHE_TTL_MS :: int where "CLUSTER_BUS_DEGRADED_CACHE_TTL_MS = 5000"

definition message_of :: "string \<Rightarrow> string \<Rightarrow> (string \<times> jsval) list \<Rightarrow> jsval" where
  "message_of origin kind payload = JObj [(''o'', JStr origin), (''k'', JStr kind), (''p'', JObj payload)]"

text \<open>The message that is sent, if any; a failed send is only logged.\<close>

definition publish :: "bool \<Rightarrow> string \<Rightarrow> string \<Rightarrow> (string \<times> jsval) list \<Rightarrow> jsval option" where
  "publish enabled origin kind payload =
     (if \<not> enabled then None
      else if CLUSTER_BUS_MAX_PAYLOAD_BYTES < utf8_length (json_text (message_of origin kind payload)) then None
      else Some (message_of origin kind payload))"

definition message_field :: "jsval \<Rightarrow> string \<Rightarrow> jsval" where
  "message_field m k = (case m of JObj ps \<Rightarrow> js_field ps k | _ \<Rightarrow> JUndefined)"

text \<open>The kind and payload handed to the handlers of the kind, if any.\<close>

definition deliver :: "string \<Rightarrow> jsval \<Rightarrow> (string \<times> (string \<times> jsval) list) option" where
  "deliver origin m =
     (if message_field m ''o'' = JStr origin then None
      else (case (message_field m ''k'', message_field m ''p'') of
          (JStr kind, JObj payload) \<Rightarrow> Some (kind, payload)
        | _ \<Rightarrow> None))"

section \<open>The connection\<close>

text \<open>An attempt of \<open>connect\<close>: waiting for a connection, or for LISTEN on it (released or not).\<close>

datatype attempt = No_attempt | Acquiring | Listening nat bool

record cache_entry =
  ce_ttl :: int
  ce_exposed :: bool

record bus =
  b_enabled :: bool
  b_started :: bool
  b_stopped :: bool
  b_connection :: "nat option"
  b_attempt :: attempt
  b_healthy :: bool
  b_failures :: nat
  b_retry :: bool
  b_probe :: bool
  b_resets :: nat
  b_cache :: "cache_entry list"

definition new_bus :: "bool \<Rightarrow> bus" where
  "new_bus enabled = \<lparr>b_enabled = enabled, b_started = False, b_stopped = False, b_connection = None,
     b_attempt = No_attempt, b_healthy = False, b_failures = 0, b_retry = False, b_probe = False,
     b_resets = 0, b_cache = []\<rparr>"

definition runResetHandlers :: "bus \<Rightarrow> bus" where
  "runResetHandlers b = b\<lparr>b_resets := b_resets b + 1, b_cache := []\<rparr>"

definition scheduleConnect :: "bus \<Rightarrow> bus" where
  "scheduleConnect b = (if b_stopped b \<or> b_retry b then b else b\<lparr>b_retry := True\<rparr>)"

definition lose :: "bus \<Rightarrow> bus" where
  "lose b = (let b1 = b\<lparr>b_connection := None, b_probe := False, b_failures := b_failures b + 1\<rparr>;
                 b2 = (if b_healthy b1 then runResetHandlers (b1\<lparr>b_healthy := False\<rparr>) else b1)
             in scheduleConnect b2)"

definition connect_begin :: "bus \<Rightarrow> bus" where
  "connect_begin b = (if b_stopped b \<or> b_connection b \<noteq> None then b
     else if b_attempt b \<noteq> No_attempt then b
     else b\<lparr>b_attempt := Acquiring\<rparr>)"

definition acquire_settled :: "nat option \<Rightarrow> bus \<Rightarrow> bus" where
  "acquire_settled client b = (case client of
     None \<Rightarrow> lose (b\<lparr>b_attempt := No_attempt\<rparr>)
   | Some c \<Rightarrow> b\<lparr>b_attempt := Listening c False\<rparr>)"

definition listened :: "bool \<Rightarrow> nat \<Rightarrow> bool \<Rightarrow> bus \<Rightarrow> bus" where
  "listened fine c released b = (let b1 = b\<lparr>b_attempt := No_attempt\<rparr> in
     if \<not> fine then lose b1
     else if b_stopped b1 then b1
     else if released then lose b1
     else runResetHandlers (b1\<lparr>b_connection := Some c, b_failures := 0, b_healthy := True, b_probe := True\<rparr>))"

definition client_error :: "nat \<Rightarrow> bus \<Rightarrow> bus" where
  "client_error c b = (let b1 = (case b_attempt b of
        Listening a r \<Rightarrow> if a = c then b\<lparr>b_attempt := Listening a True\<rparr> else b | _ \<Rightarrow> b)
     in if b_connection b = Some c then lose b1 else b1)"

definition probe_failed :: "nat \<Rightarrow> bus \<Rightarrow> bus" where
  "probe_failed c b = (if b_connection b \<noteq> Some c then b else lose b)"

definition bus_start :: "bus \<Rightarrow> bus" where
  "bus_start b = (if \<not> b_enabled b \<or> b_started b then b
     else connect_begin (b\<lparr>b_started := True, b_stopped := False\<rparr>))"

text \<open>\<open>stop\<close> up to the wait for a running attempt, and after it.\<close>

definition stop_begin :: "bus \<Rightarrow> bus" where
  "stop_begin b = b\<lparr>b_stopped := True, b_retry := False, b_probe := False\<rparr>"

definition stop_end :: "bus \<Rightarrow> bus" where
  "stop_end b = b\<lparr>b_connection := None, b_healthy := False\<rparr>"

definition isHealthy :: "bus \<Rightarrow> bool" where
  "isHealthy b \<longleftrightarrow> \<not> b_enabled b \<or> b_healthy b"

definition cacheTtlMs :: "bus \<Rightarrow> int \<Rightarrow> int" where
  "cacheTtlMs b normal = (if \<not> b_enabled b \<or> b_healthy b then normal else min normal CLUSTER_BUS_DEGRADED_CACHE_TTL_MS)"

section \<open>Runs\<close>

datatype bus_event = Bus_start | Acquire_settles "nat option" | Listen_settles bool | Client_fails nat
  | Probe_fails nat | Retry_fires | Stop_begins | Stop_ends | Value_cached int | Others_change

fun bus_step :: "bus \<Rightarrow> bus_event \<Rightarrow> bus" where
  "bus_step b Bus_start = bus_start b"
| "bus_step b (Acquire_settles client) = (if b_attempt b = Acquiring then acquire_settled client b else b)"
| "bus_step b (Listen_settles fine) = (case b_attempt b of Listening c r \<Rightarrow> listened fine c r b | _ \<Rightarrow> b)"
| "bus_step b (Client_fails c) = client_error c b"
| "bus_step b (Probe_fails c) = (if b_probe b then probe_failed c b else b)"
| "bus_step b Retry_fires = (if b_retry b then connect_begin (b\<lparr>b_retry := False\<rparr>) else b)"
| "bus_step b Stop_begins = stop_begin b"
| "bus_step b Stop_ends = (if b_stopped b \<and> b_attempt b = No_attempt then stop_end b else b)"
| "bus_step b (Value_cached ttl) = b\<lparr>b_cache := \<lparr>ce_ttl = cacheTtlMs b ttl, ce_exposed = False\<rparr> # b_cache b\<rparr>"
| "bus_step b Others_change = (if \<not> b_enabled b then b
     else if b_connection b \<noteq> None then b\<lparr>b_cache := []\<rparr>
     else b\<lparr>b_cache := map (\<lambda>e. e\<lparr>ce_exposed := True\<rparr>) (b_cache b)\<rparr>)"

section \<open>The invariant\<close>

definition bus_inv :: "bus \<Rightarrow> bool" where
  "bus_inv b \<longleftrightarrow> (b_healthy b \<longleftrightarrow> b_connection b \<noteq> None) \<and> (b_healthy b \<longrightarrow> b_attempt b = No_attempt \<and> \<not> b_retry b)
     \<and> (b_started b \<and> \<not> b_stopped b \<longrightarrow> b_healthy b \<or> b_attempt b \<noteq> No_attempt \<or> b_retry b)
     \<and> (b_healthy b \<or> b_attempt b \<noteq> No_attempt \<or> b_retry b \<longrightarrow> b_started b)
     \<and> (b_started b \<longrightarrow> b_enabled b) \<and> (b_stopped b \<longrightarrow> \<not> b_retry b)
     \<and> (b_attempt b \<noteq> No_attempt \<longrightarrow> \<not> b_retry b)
     \<and> (b_enabled b \<and> \<not> (b_started b \<and> b_stopped b) \<longrightarrow>
          (\<forall>e \<in> set (b_cache b). ce_exposed e \<or> \<not> b_healthy b \<longrightarrow> ce_ttl e \<le> CLUSTER_BUS_DEGRADED_CACHE_TTL_MS))
     \<and> (\<not> b_enabled b \<longrightarrow> (\<forall>e \<in> set (b_cache b). \<not> ce_exposed e))"

lemmas bus_defs = bus_start_def connect_begin_def acquire_settled_def listened_def client_error_def probe_failed_def
  stop_begin_def stop_end_def lose_def runResetHandlers_def scheduleConnect_def cacheTtlMs_def Let_def

lemma bus_inv_step: "bus_inv b \<Longrightarrow> bus_inv (bus_step b e)"
  by (cases e) (auto simp: bus_inv_def bus_defs split: attempt.splits option.splits if_splits)

interpretation bus: event_system bus_step bus_inv
  by unfold_locales (rule bus_inv_step)

section \<open>Properties\<close>

lemma publish_deliver:
  assumes "publish enabled origin kind payload = Some m"
  shows "deliver origin m = None \<and> (other \<noteq> origin \<longrightarrow> deliver other m = Some (kind, payload))
    \<and> utf8_length (json_text m) \<le> CLUSTER_BUS_MAX_PAYLOAD_BYTES"
  using assms by (auto simp: publish_def deliver_def message_of_def message_field_def js_field_def split: if_splits)

lemma recovers_from_retry:
  assumes "bus_inv b" "b_retry b"
  shows "b_healthy (foldl bus_step b [Retry_fires, Acquire_settles (Some 0), Listen_settles True])"
  using assms by (auto simp: bus_inv_def bus_defs)

text \<open>The settlements that let a started bus listen again.\<close>

definition recovery_events :: "bus \<Rightarrow> bus_event list" where
  "recovery_events b =
     (if b_healthy b then []
      else (case b_attempt b of
          Acquiring \<Rightarrow> [Acquire_settles (Some 0), Listen_settles True]
        | Listening c r \<Rightarrow> if r then [Listen_settles True, Retry_fires, Acquire_settles (Some 0), Listen_settles True]
            else [Listen_settles True]
        | No_attempt \<Rightarrow> [Retry_fires, Acquire_settles (Some 0), Listen_settles True]))"

lemma recovery_events_heal:
  assumes "bus_inv b" "b_started b" "\<not> b_stopped b"
  shows "b_healthy (foldl bus_step b (recovery_events b))"
proof (cases "b_healthy b")
  case False
  show ?thesis
  proof (cases "b_attempt b")
    case No_attempt
    then show ?thesis using False assms recovers_from_retry [OF assms(1)]
      by (auto simp: recovery_events_def bus_inv_def)
  next
    case Acquiring
    then show ?thesis using False assms by (auto simp: recovery_events_def bus_inv_def bus_defs)
  next
    case (Listening c r)
    then show ?thesis using False assms by (cases r) (auto simp: recovery_events_def bus_inv_def bus_defs)
  qed
qed (simp add: recovery_events_def)



end
