(* ===== verification/Permissions.thy ===== *)
theory Permissions
  imports User_Authority Cluster_Bus
begin

text \<open>
  Route authorization (middleware/authorize.ts with middleware/tenant-module-state.ts): the role gate,
  the permission decision with its in-process cache, and the HTTP answer. The permission matrix of the
  database and the cached module states are parameters of a decision: each is a value or the error its
  query threw. Times are milliseconds.
\<close>

section \<open>The role gate\<close>

datatype gate_result = Next | Refused int

definition effective_roles :: "user_role list \<Rightarrow> user_role list" where
  "effective_roles allowed =
     (if Staff \<in> set allowed \<and> LearnerPlus \<notin> set allowed then allowed @ [LearnerPlus] else allowed)"

definition authorize :: "user_role list \<Rightarrow> user_role option \<Rightarrow> gate_result" where
  "authorize allowed user = (case user of
     None \<Rightarrow> Refused 401
   | Some r \<Rightarrow> if r = Superadmin then Next
       else if r \<notin> set (effective_roles allowed) then Refused 403
       else Next)"

section \<open>The permission decision\<close>

definition PERM_CACHE_TTL :: int where "PERM_CACHE_TTL = 300000"

definition ALLOWED_PERMISSION_ACTIONS :: "string list" where
  "ALLOWED_PERMISSION_ACTIONS = [''can_view'', ''can_add'', ''can_edit'', ''can_delete'']"

record subject =
  sb_id :: string
  sb_tenant :: "string option"
  sb_role :: user_role

record perm_entry =
  pe_allowed :: bool
  pe_expires :: int

type_synonym perm_cache = "string \<rightharpoonup> perm_entry"

type_synonym matrix = "string \<Rightarrow> string option \<Rightarrow> string \<Rightarrow> string \<Rightarrow> bool"

type_synonym module_states = "string \<Rightarrow> string \<rightharpoonup> bool"

definition isTenantModuleEnabled :: "module_states \<Rightarrow> string \<Rightarrow> string \<Rightarrow> bool" where
  "isTenantModuleEnabled states tenant code \<longleftrightarrow> states tenant code = Some True"

definition isTenantModuleSwitchedOff :: "module_states \<Rightarrow> string \<Rightarrow> string \<Rightarrow> bool" where
  "isTenantModuleSwitchedOff states tenant code \<longleftrightarrow> states tenant code = Some False"

text \<open>A template literal writes a null tenant as \<open>null\<close>.\<close>

definition tenant_text :: "string option \<Rightarrow> string" where
  "tenant_text t = (case t of None \<Rightarrow> ''null'' | Some s \<Rightarrow> s)"

definition permission_key :: "subject \<Rightarrow> string \<Rightarrow> string \<Rightarrow> string" where
  "permission_key sb code action = sb_id sb @ '':'' @ tenant_text (sb_tenant sb) @ '':'' @ code @ '':'' @ action"

definition forgetPermissions :: "string option \<Rightarrow> perm_cache \<Rightarrow> perm_cache" where
  "forgetPermissions user cache =
     (if \<not> truthy user then Map.empty
      else (\<lambda>k. if take (length (the user @ '':'')) k = the user @ '':'' then None else cache k))"

definition cache_decision :: "int \<Rightarrow> int \<Rightarrow> string \<Rightarrow> bool \<Rightarrow> perm_cache \<Rightarrow> perm_cache" where
  "cache_decision ttl now key allowed cache = cache(key \<mapsto> \<lparr>pe_allowed = allowed, pe_expires = now + ttl\<rparr>)"

text \<open>\<open>query\<close>: the answer of the matrix query; \<open>ttl\<close>: what the cluster bus allows at that moment.\<close>

definition matrixAllows :: "int \<Rightarrow> int \<Rightarrow> 'e + bool \<Rightarrow> subject \<Rightarrow> string \<Rightarrow> string \<Rightarrow> perm_cache
    \<Rightarrow> ('e + bool) \<times> perm_cache" where
  "matrixAllows ttl now query sb code action cache =
     (let key = permission_key sb code action;
          ask = (case query of Inl e \<Rightarrow> (Inl e, cache)
            | Inr allowed \<Rightarrow> (Inr allowed, cache_decision ttl now key allowed cache))
      in (case cache key of
            Some c \<Rightarrow> if pe_expires c > now then (Inr (pe_allowed c), cache) else ask
          | None \<Rightarrow> ask))"

datatype decision = Allowed | Denied | Module_disabled

datatype 'e permission_error = Action_invalid | Query_failed 'e

definition decidePermission :: "int \<Rightarrow> int \<Rightarrow> 'e + module_states \<Rightarrow> 'e + bool \<Rightarrow> subject \<Rightarrow> string \<Rightarrow> string
    \<Rightarrow> perm_cache \<Rightarrow> ('e permission_error + decision) \<times> perm_cache" where
  "decidePermission ttl now states query sb code action cache =
     (if action \<notin> set ALLOWED_PERMISSION_ACTIONS then (Inl Action_invalid, cache)
      else if sb_role sb = Superadmin then (Inr Allowed, cache)
      else
        (let rest = (if sb_role sb = Superuser then (Inr Allowed, cache)
               else (case matrixAllows ttl now query sb code action cache of
                   (Inl e, cache') \<Rightarrow> (Inl (Query_failed e), cache')
                 | (Inr allowed, cache') \<Rightarrow> (Inr (if allowed then Allowed else Denied), cache')))
         in if truthy (sb_tenant sb)
            then (case states of
                Inl e \<Rightarrow> (Inl (Query_failed e), cache)
              | Inr st \<Rightarrow> if isTenantModuleSwitchedOff st (the (sb_tenant sb)) code then (Inr Module_disabled, cache) else rest)
            else rest))"

definition hasPermission :: "int \<Rightarrow> int \<Rightarrow> 'e + module_states \<Rightarrow> 'e + bool \<Rightarrow> subject \<Rightarrow> string \<Rightarrow> string
    \<Rightarrow> perm_cache \<Rightarrow> ('e permission_error + bool) \<times> perm_cache" where
  "hasPermission ttl now states query sb code action cache =
     (case decidePermission ttl now states query sb code action cache of
        (Inl e, cache') \<Rightarrow> (Inl e, cache')
      | (Inr d, cache') \<Rightarrow> (Inr (d = Allowed), cache'))"

section \<open>The HTTP answer\<close>

datatype permission_code = PERMISSION_DENIED | MODULE_DISABLED

datatype http_answer = Continue | Error_answer int | Refusal int permission_code bool

text \<open>The last argument of a refusal: the message is the English one.\<close>

definition checkPermission :: "int \<Rightarrow> int \<Rightarrow> 'e + module_states \<Rightarrow> 'e + bool \<Rightarrow> subject option \<Rightarrow> string option
    \<Rightarrow> string \<Rightarrow> string \<Rightarrow> perm_cache \<Rightarrow> http_answer \<times> perm_cache" where
  "checkPermission ttl now states query user locale code action cache = (case user of
     None \<Rightarrow> (Error_answer 401, cache)
   | Some sb \<Rightarrow>
      if action \<notin> set ALLOWED_PERMISSION_ACTIONS then (Error_answer 400, cache)
      else (case decidePermission ttl now states query sb code action cache of
          (Inl e, cache') \<Rightarrow> (Error_answer 500, cache')
        | (Inr Allowed, cache') \<Rightarrow> (Continue, cache')
        | (Inr d, cache') \<Rightarrow> (Refusal 403 (if d = Module_disabled then MODULE_DISABLED else PERMISSION_DENIED)
             (case locale of None \<Rightarrow> False | Some l \<Rightarrow> to_lower (trim l) = ''en''), cache')))"

section \<open>Cache keys\<close>

text \<open>Users and tenants have UUIDs; no UUID has a colon.\<close>

definition subject_ok :: "subject \<Rightarrow> bool" where
  "subject_ok sb \<longleftrightarrow> isUuid (sb_id sb) \<and> (case sb_tenant sb of None \<Rightarrow> True | Some t \<Rightarrow> isUuid t)"

definition no_colon :: "string \<Rightarrow> bool" where
  "no_colon s \<longleftrightarrow> CHR '':'' \<notin> set s"

lemma isUuid_no_colon: "isUuid s \<Longrightarrow> no_colon s"
proof -
  assume "isUuid s"
  then have "\<forall>c \<in> set s. c = CHR ''-'' \<or> is_hex c"
    by (auto simp: isUuid_def list_all2_conv_all_nth in_set_conv_nth split: if_splits)
  moreover have "\<not> is_hex (CHR '':'')" by code_simp
  ultimately show ?thesis by (auto simp: no_colon_def)
qed

lemma split_colon: "no_colon a \<Longrightarrow> no_colon b \<Longrightarrow> a @ CHR '':'' # r = b @ CHR '':'' # s \<longleftrightarrow> a = b \<and> r = s"
proof (induction a arbitrary: b)
  case Nil
  then show ?case by (cases b) (auto simp: no_colon_def)
next
  case (Cons x a)
  then show ?case by (cases b) (auto simp: no_colon_def)
qed

lemma split_colon_last: "no_colon a \<Longrightarrow> no_colon b \<Longrightarrow> r @ CHR '':'' # a = s @ CHR '':'' # b \<Longrightarrow> r = s \<and> a = b"
  using split_colon [of "rev a" "rev b" "rev r" "rev s"]
  by (simp add: no_colon_def) (metis append.assoc append_Cons append_Nil rev.simps(2) rev_append rev_rev_ident)

lemma tenant_text_ok: "subject_ok sb \<Longrightarrow> no_colon (tenant_text (sb_tenant sb))"
  by (cases "sb_tenant sb") (auto simp: subject_ok_def tenant_text_def isUuid_no_colon no_colon_def [of "''null''"])

lemma tenant_text_inj: "subject_ok a \<Longrightarrow> subject_ok b \<Longrightarrow> tenant_text (sb_tenant a) = tenant_text (sb_tenant b)
    \<Longrightarrow> sb_tenant a = sb_tenant b"
  by (cases "sb_tenant a"; cases "sb_tenant b") (auto simp: subject_ok_def tenant_text_def dest!: isUuid_length)

lemma action_no_colon: "action \<in> set ALLOWED_PERMISSION_ACTIONS \<Longrightarrow> no_colon action"
  by (auto simp: ALLOWED_PERMISSION_ACTIONS_def no_colon_def)

lemma permission_key_inj:
  assumes "subject_ok a" "subject_ok b" "m \<in> set ALLOWED_PERMISSION_ACTIONS" "n \<in> set ALLOWED_PERMISSION_ACTIONS"
    and "permission_key a c m = permission_key b d n"
  shows "sb_id a = sb_id b \<and> sb_tenant a = sb_tenant b \<and> c = d \<and> m = n"
proof -
  have ids: "no_colon (sb_id a)" "no_colon (sb_id b)" using assms(1,2) by (auto simp: subject_ok_def isUuid_no_colon)
  have k: "sb_id a @ CHR '':'' # (tenant_text (sb_tenant a) @ CHR '':'' # (c @ CHR '':'' # m))
      = sb_id b @ CHR '':'' # (tenant_text (sb_tenant b) @ CHR '':'' # (d @ CHR '':'' # n))"
    using assms(5) by (simp add: permission_key_def)
  from k split_colon [OF ids] have i: "sb_id a = sb_id b"
    and r: "tenant_text (sb_tenant a) @ CHR '':'' # (c @ CHR '':'' # m) = tenant_text (sb_tenant b) @ CHR '':'' # (d @ CHR '':'' # n)"
    by auto
  from r split_colon [OF tenant_text_ok [OF assms(1)] tenant_text_ok [OF assms(2)]]
  have t: "tenant_text (sb_tenant a) = tenant_text (sb_tenant b)" and l: "c @ CHR '':'' # m = d @ CHR '':'' # n" by auto
  from split_colon_last [OF action_no_colon [OF assms(3)] action_no_colon [OF assms(4)] l]
    tenant_text_inj [OF assms(1,2) t] i show ?thesis by simp
qed

lemma forget_prefix:
  assumes "subject_ok sb" "no_colon u" "u \<noteq> []"
  shows "forgetPermissions (Some u) cache (permission_key sb code action)
    = (if sb_id sb = u then None else cache (permission_key sb code action))"
proof -
  let ?k = "permission_key sb code action"
  have id: "no_colon (sb_id sb)" using assms(1) by (auto simp: subject_ok_def isUuid_no_colon)
  have "take (length (u @ '':'')) ?k = u @ '':'' \<longleftrightarrow> (\<exists>r. ?k = u @ CHR '':'' # r)"
    by (metis append.assoc append_Cons append_Nil append_take_drop_id append_eq_conv_conj)
  also have "\<dots> \<longleftrightarrow> sb_id sb = u" using split_colon [OF id assms(2)] by (auto simp: permission_key_def)
  finally show ?thesis using assms(3) by (simp add: forgetPermissions_def truthy_def)
qed

section \<open>Runs\<close>

text \<open>
  A decision at some time, a change of one user's permissions and a change of everybody's, each change
  followed by its invalidation. The matrix gives a user of a tenant a module and an action.
\<close>

datatype perm_event = Check subject string string int int module_states
  | User_changed string matrix | All_changed matrix

fun perm_step :: "matrix \<times> perm_cache \<Rightarrow> perm_event \<Rightarrow> matrix \<times> perm_cache" where
  "perm_step (m, cache) (Check sb code action now ttl states) =
     (m, snd (decidePermission ttl now (Inr states :: unit + module_states) (Inr (m (sb_id sb) (sb_tenant sb) code action))
        sb code action cache))"
| "perm_step (m, cache) (User_changed u m') = (m', forgetPermissions (Some u) cache)"
| "perm_step (m, cache) (All_changed m') = (m', forgetPermissions None cache)"

text \<open>Subjects have UUIDs, and a change of one user leaves the others as they were.\<close>

fun perm_events_ok :: "matrix \<Rightarrow> perm_event list \<Rightarrow> bool" where
  "perm_events_ok m [] = True"
| "perm_events_ok m (Check sb code action now ttl states # es) = (subject_ok sb \<and> perm_events_ok m es)"
| "perm_events_ok m (User_changed u m' # es) = (isUuid u \<and> m'(u := m u) = m \<and> perm_events_ok m' es)"
| "perm_events_ok m (All_changed m' # es) = perm_events_ok m' es"

definition decision_spec :: "matrix \<Rightarrow> module_states \<Rightarrow> subject \<Rightarrow> string \<Rightarrow> string \<Rightarrow> decision" where
  "decision_spec m states sb code action =
     (if sb_role sb = Superadmin then Allowed
      else if truthy (sb_tenant sb) \<and> isTenantModuleSwitchedOff states (the (sb_tenant sb)) code then Module_disabled
      else if sb_role sb = Superuser \<or> m (sb_id sb) (sb_tenant sb) code action then Allowed else Denied)"

definition coherent :: "matrix \<Rightarrow> perm_cache \<Rightarrow> bool" where
  "coherent m cache \<longleftrightarrow> (\<forall>sb code action e. subject_ok sb \<and> action \<in> set ALLOWED_PERMISSION_ACTIONS
     \<and> cache (permission_key sb code action) = Some e \<longrightarrow> pe_allowed e = m (sb_id sb) (sb_tenant sb) code action)"

lemma coherentD: "coherent m cache \<Longrightarrow> subject_ok sb \<Longrightarrow> action \<in> set ALLOWED_PERMISSION_ACTIONS
    \<Longrightarrow> cache (permission_key sb code action) = Some e \<Longrightarrow> pe_allowed e = m (sb_id sb) (sb_tenant sb) code action"
  by (simp add: coherent_def)

lemma matrixAllows_coherent:
  assumes "coherent m cache" "subject_ok sb" "action \<in> set ALLOWED_PERMISSION_ACTIONS"
    and "matrixAllows ttl now (Inr (m (sb_id sb) (sb_tenant sb) code action)) sb code action cache = (res, cache')"
  shows "res = Inr (m (sb_id sb) (sb_tenant sb) code action) \<and> coherent m cache'"
proof -
  let ?a = "m (sb_id sb) (sb_tenant sb) code action"
  have "coherent m (cache_decision ttl now (permission_key sb code action) ?a cache)"
    unfolding coherent_def
  proof (intro allI impI)
    fix t c b e
    assume a: "subject_ok t \<and> b \<in> set ALLOWED_PERMISSION_ACTIONS
      \<and> cache_decision ttl now (permission_key sb code action) ?a cache (permission_key t c b) = Some e"
    show "pe_allowed e = m (sb_id t) (sb_tenant t) c b"
    proof (cases "permission_key t c b = permission_key sb code action")
      case True
      with permission_key_inj [of t sb b action c code] a assms(2,3) show ?thesis by (auto simp: cache_decision_def)
    next
      case False
      with a coherentD [OF assms(1), of t b c e] show ?thesis by (simp add: cache_decision_def)
    qed
  qed
  with assms coherentD [OF assms(1-3), of code] show ?thesis
    by (auto simp: matrixAllows_def Let_def split: option.splits if_splits)
qed

lemma decide_coherent:
  fixes states :: module_states
  assumes "coherent m cache" "subject_ok sb" "action \<in> set ALLOWED_PERMISSION_ACTIONS"
    and "decidePermission ttl now (Inr states :: 'e + module_states) (Inr (m (sb_id sb) (sb_tenant sb) code action))
      sb code action cache = (res, cache')"
  shows "res = Inr (decision_spec m states sb code action) \<and> coherent m cache'"
proof -
  obtain r c where mc: "matrixAllows ttl now (Inr (m (sb_id sb) (sb_tenant sb) code action) :: 'e + bool) sb code action cache
      = (r, c)" by fastforce
  with matrixAllows_coherent [OF assms(1-3) mc] assms show ?thesis
    by (auto simp: decidePermission_def decision_spec_def Let_def split: if_splits)
qed

lemma forget_coherent:
  assumes "coherent m cache" "isUuid u" "m'(u := m u) = m"
  shows "coherent m' (forgetPermissions (Some u) cache)"
  unfolding coherent_def
proof (intro allI impI)
  fix sb code action e
  assume a: "subject_ok sb \<and> action \<in> set ALLOWED_PERMISSION_ACTIONS
      \<and> forgetPermissions (Some u) cache (permission_key sb code action) = Some e"
  have u: "no_colon u" "u \<noteq> []" using assms(2) isUuid_length [OF assms(2)] by (auto simp: isUuid_no_colon)
  from a forget_prefix [OF _ u, of sb cache code action] have ne: "sb_id sb \<noteq> u"
    and c: "cache (permission_key sb code action) = Some e" by (auto split: if_splits)
  from ne assms(3) have "m' (sb_id sb) = m (sb_id sb)" by (metis fun_upd_apply)
  with coherentD [OF assms(1) _ _ c] a show "pe_allowed e = m' (sb_id sb) (sb_tenant sb) code action" by simp
qed

lemma check_keeps_coherent:
  fixes states :: module_states
  assumes "coherent m cache" "subject_ok sb"
  shows "coherent m (snd (decidePermission ttl now (Inr states :: 'e + module_states)
      (Inr (m (sb_id sb) (sb_tenant sb) code action)) sb code action cache))"
proof (cases "action \<in> set ALLOWED_PERMISSION_ACTIONS")
  case True
  obtain r c where d: "decidePermission ttl now (Inr states :: 'e + module_states)
      (Inr (m (sb_id sb) (sb_tenant sb) code action)) sb code action cache = (r, c)" by fastforce
  from decide_coherent [OF assms True d] d show ?thesis by simp
qed (use assms in \<open>simp add: decidePermission_def\<close>)

lemma coherent_run:
  "perm_events_ok m es \<Longrightarrow> coherent m cache \<Longrightarrow>
     coherent (fst (foldl perm_step (m, cache) es)) (snd (foldl perm_step (m, cache) es))"
proof (induction m es arbitrary: cache rule: perm_events_ok.induct)
  case (2 m sb code action now ttl states es)
  then show ?case using check_keeps_coherent [where 'e = unit] by simp
next
  case (3 m u m' es)
  then show ?case using forget_coherent by simp
next
  case (4 m m' es)
  then show ?case by (simp add: coherent_def forgetPermissions_def truthy_def)
qed simp

section \<open>Properties\<close>


definition example_user :: string where
  "example_user = ''a0000000-0000-4000-8000-000000000001''"

definition example_subject :: subject where
  "example_subject = \<lparr>sb_id = example_user, sb_tenant = None, sb_role = Staff\<rparr>"


text \<open>
  A decision whose query runs while the change and its invalidation happen stores the old answer after
  the invalidation: the next decisions return it until it expires.
\<close>

lemma inflight_query_outlives_invalidation:
  assumes "subject_ok sb" and "sb_role sb = Staff" and "sb_tenant sb = None" and "action \<in> set ALLOWED_PERMISSION_ACTIONS"
    and "later < now + PERM_CACHE_TTL"
  shows "fst (decidePermission ttl later (Inr states :: 'e + module_states) (Inr False) sb code action
     (cache_decision PERM_CACHE_TTL now (permission_key sb code action) True (forgetPermissions (Some (sb_id sb)) cache)))
   = Inr Allowed"
  using assms by (simp add: decidePermission_def matrixAllows_def cache_decision_def Let_def truthy_def)

end
