(* ===== verification/Publish_Governance.thy ===== *)
theory Publish_Governance
  imports Generation_Job
begin

text \<open>
  Course publishing governance (modules/course-authoring/course-publish-governance.logic.ts): the
  publish policy and its transitions, the identity of a publish candidate, and the blockers that make a
  candidate ineligible. SHA-256 is the parameter \<open>sha\<close>. \<open>String.localeCompare\<close> compares
  collation keys: the parameter \<open>rank\<close> gives a string's key in some linear order.
\<close>

section \<open>Policies\<close>

datatype publish_policy = Standard | High_risk_hse

datatype publish_error = POLICY_INVALID | POLICY_DOWNGRADE_FORBIDDEN | CANDIDATE_INVALID

fun policy_text :: "publish_policy \<Rightarrow> string" where
  "policy_text Standard = ''standard''"
| "policy_text High_risk_hse = ''high_risk_hse''"

definition COURSE_PUBLISH_POLICIES :: "publish_policy list" where
  "COURSE_PUBLISH_POLICIES = [Standard, High_risk_hse]"

definition readCoursePublishPolicy :: "jsval \<Rightarrow> publish_error + publish_policy" where
  "readCoursePublishPolicy v = (case find (\<lambda>p. JStr (policy_text p) = v) COURSE_PUBLISH_POLICIES of
     None \<Rightarrow> Inl POLICY_INVALID | Some p \<Rightarrow> Inr p)"

definition assertCoursePublishPolicyTransition :: "publish_policy option \<Rightarrow> jsval \<Rightarrow> publish_error + unit" where
  "assertCoursePublishPolicyTransition current nxt = bindE (readCoursePublishPolicy nxt) (\<lambda>p.
     ensure POLICY_DOWNGRADE_FORBIDDEN (\<not> (current = Some High_risk_hse \<and> Some p \<noteq> current)) (Inr ()))"

section \<open>The hash\<close>

primrec locale_canonical :: "(string \<Rightarrow> 'o::linorder) \<Rightarrow> jsval \<Rightarrow> jsval" where
  "locale_canonical rank JUndefined = JUndefined"
| "locale_canonical rank JNull = JNull"
| "locale_canonical rank (JBool b) = JBool b"
| "locale_canonical rank (JInt i) = JInt i"
| "locale_canonical rank JNonFinite = JNonFinite"
| "locale_canonical rank (JStr s) = JStr s"
| "locale_canonical rank JFunction = JFunction"
| "locale_canonical rank JSymbol = JSymbol"
| "locale_canonical rank JBigInt = JBigInt"
| "locale_canonical rank JHole = JHole"
| "locale_canonical rank JBack = JBack"
| "locale_canonical rank (JExotic own j) =
     JObj (own_order (sort_key (\<lambda>p. rank (fst p)) (map (map_prod id (locale_canonical rank)) own)))"
| "locale_canonical rank (JArr xs) = JArr (map (locale_canonical rank) xs)"
| "locale_canonical rank (JObj ps) =
     JObj (own_order (sort_key (\<lambda>p. rank (fst p)) (map (map_prod id (locale_canonical rank)) ps)))"

definition publish_text :: "(string \<Rightarrow> 'o::linorder) \<Rightarrow> jsval \<Rightarrow> string" where
  "publish_text rank v = json_text (locale_canonical rank v)"

definition coursePublishHash :: "(string \<Rightarrow> string) \<Rightarrow> (string \<Rightarrow> 'o::linorder) \<Rightarrow> jsval \<Rightarrow> string" where
  "coursePublishHash sha rank v = sha (publish_text rank v)"

section \<open>Candidates\<close>

definition COURSE_PUBLISH_MAX_BLOCKS :: nat where "COURSE_PUBLISH_MAX_BLOCKS = 32768"
definition COURSE_PUBLISH_MAX_ASSETS :: nat where "COURSE_PUBLISH_MAX_ASSETS = 4096"

datatype block_relation = Rel_target | Rel_descendant | Rel_ancestor

fun relation_text :: "block_relation \<Rightarrow> string" where
  "relation_text Rel_target = ''target''"
| "relation_text Rel_descendant = ''descendant''"
| "relation_text Rel_ancestor = ''ancestor''"

record block_snapshot =
  bk_block_id :: string
  bk_relation :: block_relation
  bk_ordinal :: int
  bk_draft_hash :: string
  bk_requires_quality :: bool

record asset_snapshot =
  as_asset_id :: string
  as_asset_hash :: string

record candidate_input =
  ca_in_tenant_id :: string
  ca_in_course_id :: string
  ca_in_target_block_id :: string
  ca_in_policy :: jsval
  ca_in_policy_version :: int
  ca_in_blocks :: "block_snapshot list"
  ca_in_assets :: "asset_snapshot list"

record candidate_identity =
  ci_candidate_hash :: string
  ci_structure_hash :: string
  ci_content_hash :: string
  ci_asset_dependency_hash :: string
  ci_block_count :: nat
  ci_asset_count :: nat

definition sorted_blocks :: "(string \<Rightarrow> 'o::linorder) \<Rightarrow> candidate_input \<Rightarrow> block_snapshot list" where
  "sorted_blocks rank inp = sort_key bk_ordinal (sort_key (\<lambda>b. rank (bk_block_id b)) (ca_in_blocks inp))"

definition sorted_assets :: "(string \<Rightarrow> 'o::linorder) \<Rightarrow> candidate_input \<Rightarrow> asset_snapshot list" where
  "sorted_assets rank inp = sort_key (\<lambda>a. rank (as_asset_id a)) (ca_in_assets inp)"

definition structure_json :: "block_snapshot list \<Rightarrow> jsval" where
  "structure_json bs = JArr (map (\<lambda>b. JObj [(''block_id'', JStr (bk_block_id b)),
     (''relation'', JStr (relation_text (bk_relation b))), (''ordinal'', JInt (bk_ordinal b))]) bs)"

definition block_content_json :: "block_snapshot list \<Rightarrow> jsval" where
  "block_content_json bs = JArr (map (\<lambda>b. JObj [(''block_id'', JStr (bk_block_id b)),
     (''draft_hash'', JStr (bk_draft_hash b)), (''requires_quality'', JBool (bk_requires_quality b))]) bs)"

definition assets_json :: "asset_snapshot list \<Rightarrow> jsval" where
  "assets_json xs = JArr (map (\<lambda>a. JObj [(''asset_id'', JStr (as_asset_id a)), (''asset_hash'', JStr (as_asset_hash a))]) xs)"

definition candidate_json :: "candidate_input \<Rightarrow> publish_policy \<Rightarrow> string \<Rightarrow> string \<Rightarrow> string \<Rightarrow> jsval" where
  "candidate_json inp pol s c a = JObj [(''contract'', JStr ''course-publish-governance-1''),
     (''tenant_id'', JStr (ca_in_tenant_id inp)), (''course_id'', JStr (ca_in_course_id inp)),
     (''target_block_id'', JStr (ca_in_target_block_id inp)), (''policy'', JStr (policy_text pol)),
     (''policy_version'', JInt (ca_in_policy_version inp)), (''structure_hash'', JStr s),
     (''content_hash'', JStr c), (''asset_dependency_hash'', JStr a)]"

definition candidate_shape_ok :: "candidate_input \<Rightarrow> bool" where
  "candidate_shape_ok inp \<longleftrightarrow> ca_in_tenant_id inp \<noteq> [] \<and> ca_in_course_id inp \<noteq> [] \<and> ca_in_target_block_id inp \<noteq> []
     \<and> isSafeInteger (ca_in_policy_version inp) \<and> \<not> ca_in_policy_version inp < 1
     \<and> \<not> length (ca_in_blocks inp) < 1 \<and> \<not> length (ca_in_blocks inp) > COURSE_PUBLISH_MAX_BLOCKS
     \<and> \<not> length (ca_in_assets inp) > COURSE_PUBLISH_MAX_ASSETS"

definition candidate_rows_ok :: "string \<Rightarrow> block_snapshot list \<Rightarrow> asset_snapshot list \<Rightarrow> bool" where
  "candidate_rows_ok target blocks assets \<longleftrightarrow>
     card (set (map bk_block_id blocks)) = length blocks \<and> card (set (map as_asset_id assets)) = length assets
     \<and> list_all (\<lambda>(i, b). bk_block_id b \<noteq> [] \<and> bk_ordinal b = int i \<and> is_hash (bk_draft_hash b)) (enumerate 0 blocks)
     \<and> list_all (\<lambda>a. as_asset_id a \<noteq> [] \<and> is_hash (as_asset_hash a)) assets
     \<and> length (filter (\<lambda>b. bk_relation b = Rel_target) blocks) = 1
     \<and> map_option bk_block_id (find (\<lambda>b. bk_relation b = Rel_target) blocks) = Some target"

definition identity_of_rows :: "(string \<Rightarrow> string) \<Rightarrow> (string \<Rightarrow> 'o::linorder) \<Rightarrow> candidate_input \<Rightarrow> publish_policy
    \<Rightarrow> block_snapshot list \<Rightarrow> asset_snapshot list \<Rightarrow> candidate_identity" where
  "identity_of_rows sha rank inp pol blocks assets =
     (let s = coursePublishHash sha rank (structure_json blocks);
          c = coursePublishHash sha rank (block_content_json blocks);
          a = coursePublishHash sha rank (assets_json assets)
      in \<lparr>ci_candidate_hash = coursePublishHash sha rank (candidate_json inp pol s c a), ci_structure_hash = s,
          ci_content_hash = c, ci_asset_dependency_hash = a, ci_block_count = length blocks,
          ci_asset_count = length assets\<rparr>)"

definition buildCoursePublishCandidateIdentity :: "(string \<Rightarrow> string) \<Rightarrow> (string \<Rightarrow> 'o::linorder) \<Rightarrow> candidate_input
    \<Rightarrow> publish_error + candidate_identity" where
  "buildCoursePublishCandidateIdentity sha rank inp = bindE (readCoursePublishPolicy (ca_in_policy inp)) (\<lambda>pol.
     ensure CANDIDATE_INVALID (candidate_shape_ok inp)
      (ensure CANDIDATE_INVALID (candidate_rows_ok (ca_in_target_block_id inp) (sorted_blocks rank inp) (sorted_assets rank inp))
        (Inr (identity_of_rows sha rank inp pol (sorted_blocks rank inp) (sorted_assets rank inp)))))"

section \<open>Eligibility\<close>

datatype blocker = POLICY_CHANGED | CANDIDATE_EXPIRED | CANDIDATE_STALE | APPROVAL_REQUIRED | APPROVAL_STALE
  | REVIEWER_ASSIGNMENT_REVOKED | QUALITY_RECEIPT_MISSING | QUALITY_RECEIPT_STALE
  | CRITICAL_FINDINGS_UNRESOLVED | ASSESSMENT_OBLIGATIONS_OPEN

record evidence =
  ev_policy_current :: bool
  ev_candidate_expired :: bool
  ev_snapshot_current :: bool
  ev_approval_present :: bool
  ev_approval_current :: bool
  ev_reviewer_assignment_active :: bool
  ev_quality_receipt_present :: bool
  ev_quality_receipt_current :: bool
  ev_unresolved_critical_findings :: int
  ev_open_assessment_obligations :: int

definition blocks_when :: "bool \<Rightarrow> blocker \<Rightarrow> blocker list" where
  "blocks_when c b = (if c then [b] else [])"

definition high_risk_blockers :: "evidence \<Rightarrow> blocker list" where
  "high_risk_blockers e =
     (if \<not> ev_approval_present e then [APPROVAL_REQUIRED] else blocks_when (\<not> ev_approval_current e) APPROVAL_STALE)
     @ blocks_when (ev_approval_present e \<and> \<not> ev_reviewer_assignment_active e) REVIEWER_ASSIGNMENT_REVOKED
     @ (if \<not> ev_quality_receipt_present e then [QUALITY_RECEIPT_MISSING]
        else blocks_when (\<not> ev_quality_receipt_current e) QUALITY_RECEIPT_STALE)
     @ blocks_when (ev_unresolved_critical_findings e > 0) CRITICAL_FINDINGS_UNRESOLVED
     @ blocks_when (ev_open_assessment_obligations e > 0) ASSESSMENT_OBLIGATIONS_OPEN"

definition evaluateCoursePublishEligibility :: "publish_policy \<Rightarrow> evidence \<Rightarrow> bool \<times> blocker list" where
  "evaluateCoursePublishEligibility pol e =
     (let blockers = blocks_when (\<not> ev_policy_current e) POLICY_CHANGED
          @ blocks_when (ev_candidate_expired e) CANDIDATE_EXPIRED
          @ blocks_when (\<not> ev_snapshot_current e) CANDIDATE_STALE
          @ (if pol = High_risk_hse then high_risk_blockers e else [])
      in (blockers = [], blockers))"

section \<open>Canonical values\<close>

lemma mset_own_order: "mset (own_order ps) = mset ps"
proof -
  have "mset (filter P ps) + mset (filter (\<lambda>x. \<not> P x) ps) = mset ps" for P
    by (induction ps) auto
  then show ?thesis by (simp add: own_order_def)
qed

lemma set_own_order [simp]: "set (own_order ps) = set ps"
  using mset_own_order [of ps] by (metis mset_eq_setD)

lemma distinct_own_order_sort: "distinct (map fst (own_order (sort_key f ps))) \<longleftrightarrow> distinct (map fst ps)"
proof -
  have "mset (map fst (own_order (sort_key f ps))) = mset (map fst ps)"
    by (simp add: mset_own_order)
  then show ?thesis by (rule mset_eq_imp_distinct_iff)
qed

lemma plain_locale_canonical: "plain v \<Longrightarrow> plain (locale_canonical rank v)"
proof (induction v rule: jsval_tree_induct)
  case (Leaf v)
  then show ?case by (cases v) auto
next
  case (Arr xs)
  then show ?case by (simp add: list_all_iff)
next
  case (Obj ps)
  have "\<forall>p \<in> set ps. plain (locale_canonical rank (snd p))" using Obj by (fastforce simp: list_all_iff)
  moreover have "distinct (map fst (own_order (sort_key (\<lambda>p. rank (fst p)) (map (map_prod id (locale_canonical rank)) ps))))"
    using Obj.prems by (simp add: distinct_own_order_sort)
  ultimately show ?case by (simp add: list_all_iff)
qed simp

lemma publish_text_inj:
  "plain v \<Longrightarrow> plain w \<Longrightarrow> publish_text rank v = publish_text rank w \<Longrightarrow> locale_canonical rank v = locale_canonical rank w"
  by (simp add: publish_text_def json_text_inj plain_locale_canonical)

lemma locale_canonical_obj:
  assumes "locale_canonical rank (JObj ps) = locale_canonical rank (JObj qs)"
  shows "map_prod id (locale_canonical rank) ` set ps = map_prod id (locale_canonical rank) ` set qs"
proof -
  from assms have "set (own_order (sort_key (\<lambda>p. rank (fst p)) (map (map_prod id (locale_canonical rank)) ps)))
      = set (own_order (sort_key (\<lambda>p. rank (fst p)) (map (map_prod id (locale_canonical rank)) qs)))"
    by (simp del: set_own_order)
  then show ?thesis by simp
qed

lemma relation_text_inj [simp]: "relation_text r = relation_text q \<longleftrightarrow> r = q"
  by (cases r; cases q) auto

lemma policy_text_inj [simp]: "policy_text r = policy_text q \<longleftrightarrow> r = q"
  by (cases r; cases q) auto

lemma object_field:
  assumes eq: "locale_canonical rank (JObj ps) = locale_canonical rank (JObj qs)" and d: "distinct (map fst qs)"
    and v: "(k, v) \<in> set ps" "locale_canonical rank v = v" and w: "(k, w) \<in> set qs" "locale_canonical rank w = w"
  shows "v = w"
proof -
  have "(k, v) \<in> map_prod id (locale_canonical rank) ` set ps" using v by (force simp: image_iff)
  then have "(k, v) \<in> map_prod id (locale_canonical rank) ` set qs" using locale_canonical_obj [OF eq] by simp
  then obtain u where "(k, u) \<in> set qs" "v = locale_canonical rank u" by auto
  moreover from this(1) w(1) d have "u = w" by (metis eq_key_imp_eq_value)
  ultimately show ?thesis using w(2) by simp
qed

lemma map_eq_transfer:
  assumes "\<And>x y. f x = f y \<Longrightarrow> g x = g y" and "map f xs = map f ys"
  shows "map g xs = map g ys"
  using assms(2)
proof (induction xs arbitrary: ys)
  case (Cons x xs)
  from Cons.prems obtain y zs where y: "ys = y # zs" "f x = f y" "map f xs = map f zs" by (cases ys) auto
  from Cons.IH [OF y(3)] assms(1) [OF y(2)] y(1) show ?case by simp
qed simp

lemma structure_json_inj:
  assumes "locale_canonical rank (structure_json bs) = locale_canonical rank (structure_json cs)"
  shows "map (\<lambda>b. (bk_block_id b, bk_relation b, bk_ordinal b)) bs = map (\<lambda>b. (bk_block_id b, bk_relation b, bk_ordinal b)) cs"
proof (rule map_eq_transfer)
  fix b c :: block_snapshot
  let ?o = "\<lambda>b. [(''block_id'', JStr (bk_block_id b)), (''relation'', JStr (relation_text (bk_relation b))),
      (''ordinal'', JInt (bk_ordinal b))]"
  assume eq: "locale_canonical rank (JObj (?o b)) = locale_canonical rank (JObj (?o c))"
  have d: "distinct (map fst (?o c))" by simp
  have "JStr (bk_block_id b) = JStr (bk_block_id c)" by (rule object_field [OF eq d, of "''block_id''"]) simp_all
  moreover have "JStr (relation_text (bk_relation b)) = JStr (relation_text (bk_relation c))"
    by (rule object_field [OF eq d, of "''relation''"]) simp_all
  moreover have "JInt (bk_ordinal b) = JInt (bk_ordinal c)" by (rule object_field [OF eq d, of "''ordinal''"]) simp_all
  ultimately show "(bk_block_id b, bk_relation b, bk_ordinal b) = (bk_block_id c, bk_relation c, bk_ordinal c)" by simp
qed (use assms in \<open>simp add: structure_json_def comp_def\<close>)

lemma block_content_json_inj:
  assumes "locale_canonical rank (block_content_json bs) = locale_canonical rank (block_content_json cs)"
  shows "map (\<lambda>b. (bk_draft_hash b, bk_requires_quality b)) bs = map (\<lambda>b. (bk_draft_hash b, bk_requires_quality b)) cs"
proof (rule map_eq_transfer)
  fix b c :: block_snapshot
  let ?o = "\<lambda>b. [(''block_id'', JStr (bk_block_id b)), (''draft_hash'', JStr (bk_draft_hash b)),
      (''requires_quality'', JBool (bk_requires_quality b))]"
  assume eq: "locale_canonical rank (JObj (?o b)) = locale_canonical rank (JObj (?o c))"
  have d: "distinct (map fst (?o c))" by simp
  have "JStr (bk_draft_hash b) = JStr (bk_draft_hash c)" by (rule object_field [OF eq d, of "''draft_hash''"]) simp_all
  moreover have "JBool (bk_requires_quality b) = JBool (bk_requires_quality c)"
    by (rule object_field [OF eq d, of "''requires_quality''"]) simp_all
  ultimately show "(bk_draft_hash b, bk_requires_quality b) = (bk_draft_hash c, bk_requires_quality c)" by simp
qed (use assms in \<open>simp add: block_content_json_def comp_def\<close>)

lemma assets_json_inj:
  assumes "locale_canonical rank (assets_json xs) = locale_canonical rank (assets_json ys)"
  shows "map (\<lambda>a. (as_asset_id a, as_asset_hash a)) xs = map (\<lambda>a. (as_asset_id a, as_asset_hash a)) ys"
proof (rule map_eq_transfer)
  fix b c :: asset_snapshot
  let ?o = "\<lambda>a. [(''asset_id'', JStr (as_asset_id a)), (''asset_hash'', JStr (as_asset_hash a))]"
  assume eq: "locale_canonical rank (JObj (?o b)) = locale_canonical rank (JObj (?o c))"
  have d: "distinct (map fst (?o c))" by simp
  have "JStr (as_asset_id b) = JStr (as_asset_id c)" by (rule object_field [OF eq d, of "''asset_id''"]) simp_all
  moreover have "JStr (as_asset_hash b) = JStr (as_asset_hash c)" by (rule object_field [OF eq d, of "''asset_hash''"]) simp_all
  ultimately show "(as_asset_id b, as_asset_hash b) = (as_asset_id c, as_asset_hash c)" by simp
qed (use assms in \<open>simp add: assets_json_def comp_def\<close>)

lemma rows_equal:
  assumes "map (\<lambda>b. (bk_block_id b, bk_relation b, bk_ordinal b)) bs = map (\<lambda>b. (bk_block_id b, bk_relation b, bk_ordinal b)) cs"
    and "map (\<lambda>b. (bk_draft_hash b, bk_requires_quality b)) bs = map (\<lambda>b. (bk_draft_hash b, bk_requires_quality b)) cs"
  shows "bs = (cs :: block_snapshot list)"
  using assms
proof (induction bs arbitrary: cs)
  case (Cons b bs)
  then show ?case by (cases cs) auto
qed simp

lemma asset_rows_equal: "map (\<lambda>a. (as_asset_id a, as_asset_hash a)) xs = map (\<lambda>a. (as_asset_id a, as_asset_hash a)) ys
    \<Longrightarrow> xs = (ys :: asset_snapshot list)"
proof (induction xs arbitrary: ys)
  case (Cons x xs)
  then show ?case by (cases ys) auto
qed simp

lemma plain_rows: "plain (structure_json bs)" "plain (block_content_json bs)" "plain (assets_json xs)"
  by (auto simp: structure_json_def block_content_json_def assets_json_def list_all_iff)

lemma plain_candidate: "plain (candidate_json inp pol s c a)"
  by (simp add: candidate_json_def)

lemma candidate_json_inj:
  assumes "locale_canonical rank (candidate_json i p s c a) = locale_canonical rank (candidate_json j q t d b)"
  shows "ca_in_tenant_id i = ca_in_tenant_id j \<and> ca_in_course_id i = ca_in_course_id j
    \<and> ca_in_target_block_id i = ca_in_target_block_id j \<and> p = q \<and> ca_in_policy_version i = ca_in_policy_version j
    \<and> s = t \<and> c = d \<and> a = b"
proof -
  note eq = assms [unfolded candidate_json_def]
  note f = object_field [OF eq]
  have "JStr (ca_in_tenant_id i) = JStr (ca_in_tenant_id j)" by (rule f [of "''tenant_id''"]) simp_all
  moreover have "JStr (ca_in_course_id i) = JStr (ca_in_course_id j)" by (rule f [of "''course_id''"]) simp_all
  moreover have "JStr (ca_in_target_block_id i) = JStr (ca_in_target_block_id j)"
    by (rule f [of "''target_block_id''"]) simp_all
  moreover have "JStr (policy_text p) = JStr (policy_text q)" by (rule f [of "''policy''"]) simp_all
  moreover have "JInt (ca_in_policy_version i) = JInt (ca_in_policy_version j)" by (rule f [of "''policy_version''"]) simp_all
  moreover have "JStr s = JStr t" by (rule f [of "''structure_hash''"]) simp_all
  moreover have "JStr c = JStr d" by (rule f [of "''content_hash''"]) simp_all
  moreover have "JStr a = JStr b" by (rule f [of "''asset_dependency_hash''"]) simp_all
  ultimately show ?thesis by simp
qed

text \<open>The texts that are hashed for a candidate.\<close>

definition hashed_texts :: "(string \<Rightarrow> string) \<Rightarrow> (string \<Rightarrow> 'o::linorder) \<Rightarrow> candidate_input \<Rightarrow> publish_policy \<Rightarrow> string set" where
  "hashed_texts sha rank inp pol =
     (let bs = sorted_blocks rank inp; xs = sorted_assets rank inp in
      {publish_text rank (structure_json bs), publish_text rank (block_content_json bs), publish_text rank (assets_json xs),
       publish_text rank (candidate_json inp pol (coursePublishHash sha rank (structure_json bs))
         (coursePublishHash sha rank (block_content_json bs)) (coursePublishHash sha rank (assets_json xs)))})"

lemma build_Inr:
  assumes "buildCoursePublishCandidateIdentity sha rank inp = Inr ci"
  obtains pol where "readCoursePublishPolicy (ca_in_policy inp) = Inr pol" "candidate_shape_ok inp"
    "candidate_rows_ok (ca_in_target_block_id inp) (sorted_blocks rank inp) (sorted_assets rank inp)"
    "ci = identity_of_rows sha rank inp pol (sorted_blocks rank inp) (sorted_assets rank inp)"
  using assms by (auto simp: buildCoursePublishCandidateIdentity_def)

lemma ordinals_inj:
  assumes "candidate_rows_ok target bs xs"
  shows "inj_on bk_ordinal (set bs)"
proof -
  have "bk_ordinal (bs ! i) = int i" if "i < length bs" for i
    using assms that by (auto simp: candidate_rows_ok_def list_all_length nth_enumerate_eq)
  then show ?thesis by (auto intro!: inj_onI simp: in_set_conv_nth)
qed

section \<open>Properties\<close>

text \<open>
  C36: the candidate hash identifies what will be published. Unless SHA-256 collides on the texts that were
  hashed, two accepted candidates with the same hash have the same tenant, course, target, policy and
  policy version, and the same blocks and assets with all their fields.
\<close>

theorem candidate_hash_identifies_content:
  assumes "buildCoursePublishCandidateIdentity sha rank i = Inr ci" and "buildCoursePublishCandidateIdentity sha rank j = Inr cj"
    and "readCoursePublishPolicy (ca_in_policy i) = Inr p" and "readCoursePublishPolicy (ca_in_policy j) = Inr q"
    and "inj_on sha (hashed_texts sha rank i p \<union> hashed_texts sha rank j q)"
    and "ci_candidate_hash ci = ci_candidate_hash cj"
  shows "ca_in_tenant_id i = ca_in_tenant_id j \<and> ca_in_course_id i = ca_in_course_id j
    \<and> ca_in_target_block_id i = ca_in_target_block_id j \<and> p = q \<and> ca_in_policy_version i = ca_in_policy_version j
    \<and> mset (ca_in_blocks i) = mset (ca_in_blocks j) \<and> mset (ca_in_assets i) = mset (ca_in_assets j)"
proof -
  let ?bi = "sorted_blocks rank i" and ?bj = "sorted_blocks rank j"
  let ?xi = "sorted_assets rank i" and ?xj = "sorted_assets rank j"
  let ?h = "coursePublishHash sha rank" and ?t = "publish_text rank"
  have ci: "ci = identity_of_rows sha rank i p ?bi ?xi" "cj = identity_of_rows sha rank j q ?bj ?xj"
    using assms(1-4) by (auto elim!: build_Inr)
  have sha: "?t v = ?t w" if "?h v = ?h w" "?t v \<in> hashed_texts sha rank i p" "?t w \<in> hashed_texts sha rank j q" for v w
    using assms(5) that by (auto simp: coursePublishHash_def dest: inj_onD)
  have mem: "?t (structure_json ?bi) \<in> hashed_texts sha rank i p" "?t (block_content_json ?bi) \<in> hashed_texts sha rank i p"
    "?t (assets_json ?xi) \<in> hashed_texts sha rank i p" "?t (structure_json ?bj) \<in> hashed_texts sha rank j q"
    "?t (block_content_json ?bj) \<in> hashed_texts sha rank j q" "?t (assets_json ?xj) \<in> hashed_texts sha rank j q"
    "?t (candidate_json i p (?h (structure_json ?bi)) (?h (block_content_json ?bi)) (?h (assets_json ?xi))) \<in> hashed_texts sha rank i p"
    "?t (candidate_json j q (?h (structure_json ?bj)) (?h (block_content_json ?bj)) (?h (assets_json ?xj))) \<in> hashed_texts sha rank j q"
    by (simp_all add: hashed_texts_def Let_def)
  have "?h (candidate_json i p (?h (structure_json ?bi)) (?h (block_content_json ?bi)) (?h (assets_json ?xi)))
      = ?h (candidate_json j q (?h (structure_json ?bj)) (?h (block_content_json ?bj)) (?h (assets_json ?xj)))"
    using assms(6) ci by (simp add: identity_of_rows_def Let_def)
  from candidate_json_inj [OF publish_text_inj [OF plain_candidate plain_candidate sha [OF this mem(7,8)]]]
  have head: "ca_in_tenant_id i = ca_in_tenant_id j \<and> ca_in_course_id i = ca_in_course_id j
      \<and> ca_in_target_block_id i = ca_in_target_block_id j \<and> p = q \<and> ca_in_policy_version i = ca_in_policy_version j"
    and hs: "?h (structure_json ?bi) = ?h (structure_json ?bj)"
      "?h (block_content_json ?bi) = ?h (block_content_json ?bj)" "?h (assets_json ?xi) = ?h (assets_json ?xj)" by blast+
  note st = structure_json_inj [OF publish_text_inj [OF plain_rows(1) plain_rows(1) sha [OF hs(1) mem(1,4)]]]
  note co = block_content_json_inj [OF publish_text_inj [OF plain_rows(2) plain_rows(2) sha [OF hs(2) mem(2,5)]]]
  note xs = assets_json_inj [OF publish_text_inj [OF plain_rows(3) plain_rows(3) sha [OF hs(3) mem(3,6)]]]
  from rows_equal [OF st co] have "mset ?bi = mset ?bj" by simp
  moreover from asset_rows_equal [OF xs] have "mset ?xi = mset ?xj" by simp
  ultimately show ?thesis using head by (simp add: sorted_blocks_def sorted_assets_def)
qed

definition example_candidate :: candidate_input where
  "example_candidate = \<lparr>ca_in_tenant_id = ''t'', ca_in_course_id = ''c'', ca_in_target_block_id = ''b'',
     ca_in_policy = JStr ''standard'', ca_in_policy_version = 1,
     ca_in_blocks = [\<lparr>bk_block_id = ''b'', bk_relation = Rel_target, bk_ordinal = 0,
       bk_draft_hash = replicate 64 (CHR ''a''), bk_requires_quality = False\<rparr>], ca_in_assets = []\<rparr>"

lemma example_candidate_built:
  "\<exists>ci. buildCoursePublishCandidateIdentity id length example_candidate = Inr ci"
proof -
  have h: "is_hash (replicate 64 (CHR ''a''))" by (simp add: is_hash_def list_all_iff char_class_defs)
  have "candidate_shape_ok example_candidate"
    by (simp add: candidate_shape_ok_def example_candidate_def isSafeInteger_def MAX_SAFE_INTEGER_def
        COURSE_PUBLISH_MAX_BLOCKS_def COURSE_PUBLISH_MAX_ASSETS_def)
  moreover have "candidate_rows_ok ''b'' (sorted_blocks length example_candidate) (sorted_assets length example_candidate)"
    using h by (simp add: candidate_rows_ok_def sorted_blocks_def sorted_assets_def example_candidate_def)
  ultimately show ?thesis
    by (simp add: buildCoursePublishCandidateIdentity_def readCoursePublishPolicy_def COURSE_PUBLISH_POLICIES_def
        example_candidate_def)
qed

theorem candidate_hash_identifies_content_witness:
  "mset (ca_in_blocks example_candidate) = mset (ca_in_blocks example_candidate)
   \<and> readCoursePublishPolicy (ca_in_policy example_candidate) = Inr Standard"
proof -
  obtain ci where c: "buildCoursePublishCandidateIdentity id length example_candidate = Inr ci"
    using example_candidate_built by blast
  have p: "readCoursePublishPolicy (ca_in_policy example_candidate) = Inr Standard"
    by (simp add: readCoursePublishPolicy_def COURSE_PUBLISH_POLICIES_def example_candidate_def)
  from candidate_hash_identifies_content [OF c c p p inj_on_id refl] p show ?thesis by blast
qed

text \<open>
  High-risk courses are guarded. Once a course has the high-risk policy, no sequence of accepted
  policy changes takes it away. A candidate is eligible exactly when nothing has changed since it was
  built and it has not expired, and for a high-risk course also when a current approval by an active
  reviewer and a current quality receipt exist and no critical finding or assessment obligation is open;
  each blocker is reported at most once.
\<close>

theorem high_risk_is_guarded:
  "(foldl (\<lambda>cur v. case (assertCoursePublishPolicyTransition cur v, readCoursePublishPolicy v) of
        (Inr _, Inr p) \<Rightarrow> Some p | _ \<Rightarrow> cur) (Some High_risk_hse) changes) = Some High_risk_hse
   \<and> (fst (evaluateCoursePublishEligibility pol e) \<longleftrightarrow>
        ev_policy_current e \<and> \<not> ev_candidate_expired e \<and> ev_snapshot_current e
        \<and> (pol = High_risk_hse \<longrightarrow> ev_approval_present e \<and> ev_approval_current e \<and> ev_reviewer_assignment_active e
            \<and> ev_quality_receipt_present e \<and> ev_quality_receipt_current e
            \<and> ev_unresolved_critical_findings e \<le> 0 \<and> ev_open_assessment_obligations e \<le> 0))
   \<and> distinct (snd (evaluateCoursePublishEligibility pol e))"
proof (intro conjI)
  show "foldl (\<lambda>cur v. case (assertCoursePublishPolicyTransition cur v, readCoursePublishPolicy v) of
        (Inr _, Inr p) \<Rightarrow> Some p | _ \<Rightarrow> cur) (Some High_risk_hse) changes = Some High_risk_hse"
    by (induction changes) (auto simp: assertCoursePublishPolicyTransition_def ensure_def split: sum.splits if_splits)
qed (auto simp: evaluateCoursePublishEligibility_def high_risk_blockers_def blocks_when_def Let_def)

theorem high_risk_is_guarded_witness:
  "foldl (\<lambda>cur v. case (assertCoursePublishPolicyTransition cur v, readCoursePublishPolicy v) of
        (Inr _, Inr p) \<Rightarrow> Some p | _ \<Rightarrow> cur) (Some High_risk_hse) [JStr ''standard''] = Some High_risk_hse"
  using high_risk_is_guarded by blast

end
