(* ===== verification/Badges.thy ===== *)
theory Badges
  imports Canonical_Json Complex_Main
begin

text \<open>
  Learner badges (modules/badges/badge-evaluation.logic.ts and the criteria of badge-criteria.ts): the
  evaluation of a rule, the overview of a learner and the candidates of an award run. A time is its
  milliseconds, \<open>None\<close> when it does not parse. \<open>ratio c t\<close> stands for the binary
  floating-point value of \<open>(c / t) * 100\<close>.
\<close>

section \<open>Rules and facts\<close>

datatype badge_criteria =
    Profile_any "string list"
  | Completed_selected_courses int
  | Completed_selected_plus_other int int
  | Completed_any_courses int
  | Completion_within_minutes int

definition criteriaRequiresCourses :: "badge_criteria \<Rightarrow> bool" where
  "criteriaRequiresCourses c = (case c of
     Completed_selected_courses _ \<Rightarrow> True | Completed_selected_plus_other _ _ \<Rightarrow> True | _ \<Rightarrow> False)"

definition minimumMappedCourses :: "badge_criteria \<Rightarrow> int" where
  "minimumMappedCourses c = (case c of
     Completed_selected_courses n \<Rightarrow> n | Completed_selected_plus_other n _ \<Rightarrow> n | _ \<Rightarrow> 0)"

record mapped_course =
  mc_course_id :: "string option"
  mc_course_name :: string
  mc_is_deleted :: bool

record completed_fact =
  cf_course_id :: string
  cf_enrolled_at :: "int option"
  cf_completed_at :: "int option"

type_synonym user_profile = "(string \<times> jsval) list"

text \<open>The Vietnamese words for the profile and for a course.\<close>

datatype unit_label = Profile_label | Course_label

record badge_progress =
  bp_current :: int
  bp_target :: int
  bp_percent :: int
  bp_unit_label :: unit_label

record badge_rule =
  br_id :: string
  br_sort_order :: int
  br_rule_version :: string
  br_criteria :: badge_criteria
  br_mapped_courses :: "mapped_course list"

section \<open>Evaluating a rule\<close>

definition round_half_up :: "real \<Rightarrow> int" where
  "round_half_up x = \<lfloor>x + 1 / 2\<rfloor>"

definition badge_progress_of :: "(int \<Rightarrow> int \<Rightarrow> real) \<Rightarrow> int \<Rightarrow> int \<Rightarrow> unit_label \<Rightarrow> badge_progress" where
  "badge_progress_of ratio current tgt lbl = \<lparr>bp_current = current, bp_target = tgt,
     bp_percent = (if tgt > 0 then min 100 (round_half_up (ratio current tgt)) else 0), bp_unit_label = lbl\<rparr>"

definition hasProfileValue :: "jsval \<Rightarrow> bool" where
  "hasProfileValue v = (case v of
     JUndefined \<Rightarrow> False | JNull \<Rightarrow> False
   | JStr s \<Rightarrow> length (trim s) > 0
   | JArr xs \<Rightarrow> length xs > 0
   | _ \<Rightarrow> True)"

definition profile_field :: "user_profile \<Rightarrow> string \<Rightarrow> jsval" where
  "profile_field p k = (case map_of p k of Some v \<Rightarrow> v | None \<Rightarrow> JUndefined)"

definition completed_ids :: "completed_fact list \<Rightarrow> string list" where
  "completed_ids cs = js_distinct (map cf_course_id cs)"

definition usable_course :: "mapped_course \<Rightarrow> bool" where
  "usable_course c \<longleftrightarrow> truthy (mc_course_id c) \<and> \<not> mc_is_deleted c"

definition mapped_ids :: "mapped_course list \<Rightarrow> string list" where
  "mapped_ids cs = js_distinct (map (\<lambda>c. the (mc_course_id c)) (filter usable_course cs))"

definition selected_count :: "badge_rule \<Rightarrow> completed_fact list \<Rightarrow> int" where
  "selected_count r cs = int (length (filter (\<lambda>i. i \<in> set (mapped_ids (br_mapped_courses r))) (completed_ids cs)))"

definition within_minutes :: "int \<Rightarrow> completed_fact \<Rightarrow> bool" where
  "within_minutes minutes c = (case (cf_enrolled_at c, cf_completed_at c) of
     (Some e, Some d) \<Rightarrow> 0 \<le> d - e \<and> d - e \<le> minutes * 60000
   | _ \<Rightarrow> False)"

definition evaluateBadgeRule :: "(int \<Rightarrow> int \<Rightarrow> real) \<Rightarrow> badge_rule \<Rightarrow> completed_fact list \<Rightarrow> user_profile
    \<Rightarrow> bool \<times> badge_progress" where
  "evaluateBadgeRule ratio r cs profile = (case br_criteria r of
     Profile_any names \<Rightarrow>
       (let done = list_ex (\<lambda>f. hasProfileValue (profile_field profile f)) names in
        (done, badge_progress_of ratio (if done then 1 else 0) 1 Profile_label))
   | Completed_selected_courses threshold \<Rightarrow>
       (let current = selected_count r cs in
        (current \<ge> threshold, badge_progress_of ratio current threshold Course_label))
   | Completed_selected_plus_other st ot \<Rightarrow>
       (let selected = selected_count r cs;
            selectedForThreshold = min selected st;
            other = max 0 (int (length (completed_ids cs)) - selectedForThreshold);
            current = selectedForThreshold + min other ot
        in (selected \<ge> st \<and> other \<ge> ot, badge_progress_of ratio current (st + ot) Course_label))
   | Completed_any_courses threshold \<Rightarrow>
       (let current = int (length (completed_ids cs)) in
        (current \<ge> threshold, badge_progress_of ratio current threshold Course_label))
   | Completion_within_minutes minutes \<Rightarrow>
       (let done = list_ex (within_minutes minutes) cs in
        (done, badge_progress_of ratio (if done then 1 else 0) 1 Course_label)))"

section \<open>The overview and the award candidates\<close>

record earned_badge =
  eb_badge_id :: string
  eb_is_shown :: bool
  eb_earned_at :: int

record badge_definition =
  bd_id :: string
  bd_sort_order :: int

record badge_overview =
  bo_definitions :: "badge_definition list"
  bo_earned :: "earned_badge list"
  bo_newly_earned :: "earned_badge list"
  bo_pending_popups :: "earned_badge list"
  bo_progress :: "(string \<times> badge_progress) list"

definition sort_order_of :: "badge_rule list \<Rightarrow> string \<Rightarrow> int" where
  "sort_order_of rules i = (case js_map_get (map (\<lambda>r. (br_id r, br_sort_order r)) rules) i of Some n \<Rightarrow> n | None \<Rightarrow> 0)"

definition progress_map :: "(int \<Rightarrow> int \<Rightarrow> real) \<Rightarrow> badge_rule list \<Rightarrow> completed_fact list \<Rightarrow> user_profile
    \<Rightarrow> (string \<times> badge_progress) list" where
  "progress_map ratio rules cs profile =
     foldl (\<lambda>m r. js_map_set (br_id r) (snd (evaluateBadgeRule ratio r cs profile)) m) [] rules"

text \<open>Sorting by the time, and by the rule order where the times are equal.\<close>

definition pending_popups :: "badge_rule list \<Rightarrow> earned_badge list \<Rightarrow> earned_badge list" where
  "pending_popups rules earned = sort_key eb_earned_at
     (sort_key (\<lambda>b. sort_order_of rules (eb_badge_id b)) (filter (\<lambda>b. \<not> eb_is_shown b) earned))"

definition buildBadgeOverview :: "(int \<Rightarrow> int \<Rightarrow> real) \<Rightarrow> badge_rule list \<Rightarrow> completed_fact list \<Rightarrow> user_profile
    \<Rightarrow> earned_badge list \<Rightarrow> earned_badge list \<Rightarrow> badge_overview" where
  "buildBadgeOverview ratio rules cs profile earned newly =
     \<lparr>bo_definitions = map (\<lambda>r. \<lparr>bd_id = br_id r, bd_sort_order = br_sort_order r\<rparr>) rules,
      bo_earned = earned,
      bo_newly_earned = filter (\<lambda>b. eb_badge_id b \<in> br_id ` set rules) newly,
      bo_pending_popups = pending_popups rules earned,
      bo_progress = progress_map ratio rules cs profile\<rparr>"

definition cacheableBadgeOverview :: "badge_overview \<Rightarrow> badge_overview" where
  "cacheableBadgeOverview v = v\<lparr>bo_newly_earned := []\<rparr>"

record award_candidate =
  aw_badge_id :: string
  aw_rule_version :: string
  aw_criteria :: badge_criteria
  aw_mapped_course_ids :: "string list"

definition buildBadgeAwardCandidates :: "badge_rule list \<Rightarrow> award_candidate list" where
  "buildBadgeAwardCandidates rules = map (\<lambda>r. \<lparr>aw_badge_id = br_id r, aw_rule_version = br_rule_version r,
     aw_criteria = br_criteria r, aw_mapped_course_ids = sort (mapped_ids (br_mapped_courses r))\<rparr>) rules"

section \<open>Counting\<close>

text \<open>The rules of badge-criteria.ts: thresholds and minutes are positive.\<close>

definition criteria_ok :: "badge_criteria \<Rightarrow> bool" where
  "criteria_ok c = (case c of
     Profile_any names \<Rightarrow> names \<noteq> []
   | Completed_selected_courses n \<Rightarrow> 0 < n
   | Completed_selected_plus_other n m \<Rightarrow> 0 < n \<and> 0 < m
   | Completed_any_courses n \<Rightarrow> 0 < n
   | Completion_within_minutes m \<Rightarrow> 0 < m \<and> m \<le> 1440)"

text \<open>What correct rounding gives of \<open>(c / t) * 100\<close>: the quotient is at least 1 exactly from \<open>t\<close> on.\<close>

definition rounded_ratio :: "(int \<Rightarrow> int \<Rightarrow> real) \<Rightarrow> bool" where
  "rounded_ratio ratio \<longleftrightarrow> (\<forall>c t. 0 < t \<and> t \<le> c \<longrightarrow> 100 \<le> ratio c t) \<and> (\<forall>c t. 0 < t \<and> 0 \<le> c \<longrightarrow> 0 \<le> ratio c t)"

lemma completed_ids_mono: "set cs \<subseteq> set ds \<Longrightarrow> set (completed_ids cs) \<subseteq> set (completed_ids ds)"
  by (auto simp: completed_ids_def)

lemma length_filter_distinct: "distinct xs \<Longrightarrow> length (filter P xs) = card {x \<in> set xs. P x}"
  by (metis distinct_card distinct_filter set_filter)

lemma distinct_completed_ids [simp]: "distinct (completed_ids cs)"
  by (simp add: completed_ids_def)

lemma selected_card: "selected_count r cs = int (card (set (completed_ids cs) \<inter> set (mapped_ids (br_mapped_courses r))))"
  unfolding selected_count_def length_filter_distinct [OF distinct_completed_ids] Int_def by (rule refl)

lemma length_completed: "length (completed_ids cs) = card (set (completed_ids cs))"
  by (simp add: distinct_card)

lemma selected_le: "selected_count r cs \<le> int (length (completed_ids cs))"
  by (simp add: selected_count_def)

lemma counts_mono:
  assumes "set cs \<subseteq> set ds"
  shows "selected_count r cs \<le> selected_count r ds" "length (completed_ids cs) \<le> length (completed_ids ds)"
    "selected_count r ds - selected_count r cs \<le> int (length (completed_ids ds)) - int (length (completed_ids cs))"
proof -
  let ?c = "set (completed_ids cs)" and ?d = "set (completed_ids ds)" and ?m = "set (mapped_ids (br_mapped_courses r))"
  have sub: "?c \<subseteq> ?d" using completed_ids_mono [OF assms] .
  show "selected_count r cs \<le> selected_count r ds"
    using sub by (auto simp: selected_card intro!: card_mono)
  show "length (completed_ids cs) \<le> length (completed_ids ds)"
    using sub by (auto simp: length_completed intro!: card_mono)
  have parts: "card ?c = card (?c \<inter> ?m) + card (?c - ?m)" "card ?d = card (?d \<inter> ?m) + card (?d - ?m)"
    by (rule card_Int_Diff; simp)+
  have "card (?c - ?m) \<le> card (?d - ?m)" using sub by (auto intro!: card_mono)
  with parts show "selected_count r ds - selected_count r cs \<le> int (length (completed_ids ds)) - int (length (completed_ids cs))"
    by (simp add: selected_card length_completed)
qed

section \<open>Properties\<close>

text \<open>
  The award and the progress bar agree, and a badge is never lost. For every rule a badge is achieved
  exactly when the shown current count reaches the shown target; the percentage lies between 0 and 100
  and is 100 when the badge is achieved; and completing further courses never takes an achieved course
  badge away.
\<close>

theorem award_agrees_with_progress:
  assumes "rounded_ratio ratio" and "criteria_ok (br_criteria r)" and "set cs \<subseteq> set ds"
  shows "(let (achieved, p) = evaluateBadgeRule ratio r cs profile in
        (achieved \<longleftrightarrow> bp_target p \<le> bp_current p) \<and> 0 \<le> bp_percent p \<and> bp_percent p \<le> 100
        \<and> (achieved \<longrightarrow> bp_percent p = 100))
    \<and> (fst (evaluateBadgeRule ratio r cs profile) \<longrightarrow> fst (evaluateBadgeRule ratio r ds profile))"
proof
  have pct: "0 \<le> bp_percent (badge_progress_of ratio c t l)" "bp_percent (badge_progress_of ratio c t l) \<le> 100"
    "t \<le> c \<Longrightarrow> bp_percent (badge_progress_of ratio c t l) = 100" if "0 < t" "0 \<le> c" for c t l
  proof -
    have "0 \<le> ratio c t" "t \<le> c \<Longrightarrow> 100 \<le> ratio c t" using assms(1) that by (auto simp: rounded_ratio_def)
    then have "0 \<le> round_half_up (ratio c t)" "t \<le> c \<Longrightarrow> 100 \<le> round_half_up (ratio c t)"
      unfolding round_half_up_def by linarith+
    then show "0 \<le> bp_percent (badge_progress_of ratio c t l)" "bp_percent (badge_progress_of ratio c t l) \<le> 100"
      "t \<le> c \<Longrightarrow> bp_percent (badge_progress_of ratio c t l) = 100" using that by (simp_all add: badge_progress_of_def)
  qed
  have ct: "bp_current (badge_progress_of ratio c t l) = c" "bp_target (badge_progress_of ratio c t l) = t" for c t l
    by (simp_all add: badge_progress_of_def)
  have nonneg: "0 \<le> selected_count r cs" by (simp add: selected_count_def)
  show "let (achieved, p) = evaluateBadgeRule ratio r cs profile in
        (achieved \<longleftrightarrow> bp_target p \<le> bp_current p) \<and> 0 \<le> bp_percent p \<and> bp_percent p \<le> 100
        \<and> (achieved \<longrightarrow> bp_percent p = 100)"
  proof (cases "br_criteria r")
    case (Completed_selected_plus_other st ot)
    then show ?thesis using assms(2) nonneg selected_le [of r cs]
      by (auto simp: evaluateBadgeRule_def Let_def ct criteria_ok_def intro!: pct)
  qed (use assms(2) nonneg in \<open>auto simp: evaluateBadgeRule_def Let_def ct criteria_ok_def intro!: pct\<close>)
  show "fst (evaluateBadgeRule ratio r cs profile) \<longrightarrow> fst (evaluateBadgeRule ratio r ds profile)"
  proof (cases "br_criteria r")
    case (Completion_within_minutes m)
    then show ?thesis using assms(3) by (auto simp: evaluateBadgeRule_def Let_def list_ex_iff)
  next
    case (Completed_selected_plus_other st ot)
    then show ?thesis using counts_mono(1,3) [OF assms(3), of r] counts_mono(2) [OF assms(3)] by (auto simp: evaluateBadgeRule_def Let_def)
  qed (use counts_mono(1,3) [OF assms(3), of r] counts_mono(2) [OF assms(3)] in \<open>auto simp: evaluateBadgeRule_def Let_def\<close>)
qed

definition example_rule :: badge_rule where
  "example_rule = \<lparr>br_id = ''r'', br_sort_order = 1, br_rule_version = ''1'', br_criteria = Completed_selected_plus_other 1 1,
     br_mapped_courses = [\<lparr>mc_course_id = Some ''a'', mc_course_name = [], mc_is_deleted = False\<rparr>]\<rparr>"

definition example_facts :: "completed_fact list" where
  "example_facts = [\<lparr>cf_course_id = ''a'', cf_enrolled_at = None, cf_completed_at = None\<rparr>,
     \<lparr>cf_course_id = ''b'', cf_enrolled_at = None, cf_completed_at = None\<rparr>]"

theorem award_agrees_with_progress_witness:
  "fst (evaluateBadgeRule (\<lambda>c t. of_int (100 * c) / of_int t) example_rule example_facts [])
   \<and> bp_percent (snd (evaluateBadgeRule (\<lambda>c t. of_int (100 * c) / of_int t) example_rule example_facts [])) = 100"
proof -
  let ?q = "\<lambda>c t. of_int (100 * c) / of_int t :: real"
  have q: "rounded_ratio ?q"
    by (auto simp: rounded_ratio_def field_simps simp flip: of_int_mult)
  have c: "criteria_ok (br_criteria example_rule)" by (simp add: criteria_ok_def example_rule_def)
  have f: "fst (evaluateBadgeRule ?q example_rule example_facts [])"
    by (simp add: evaluateBadgeRule_def example_rule_def example_facts_def selected_count_def completed_ids_def
        mapped_ids_def usable_course_def truthy_def js_distinct_def Let_def)
  with award_agrees_with_progress [OF q c subset_refl [of "set example_facts"], of "[]"] show ?thesis
    by (auto simp: Let_def split: prod.splits)
qed

end
