(* ===== verification/Inapp_Cluster.thy ===== *)
theory Inapp_Cluster
  imports Cluster_Bus
begin

text \<open>
  What one process of the backend runs (config/process-role.ts) and the rules of the in-app cluster
  (config/inapp-cluster.logic.ts): which process becomes the primary or a worker, the instance label of
  a worker, the wait before a crashed worker restarts, and the request, the replies and the messages of
  a rolling restart. Numbers the code turns into text are exact here; the code's doubles are exact below
  two to the 53.
\<close>

section \<open>The role of a process\<close>

datatype ProcessRole = Role_all | Role_api | Role_background

record ProcessRolePlan =
  prp_role :: ProcessRole
  prp_apiInstances :: int
  servesHttp :: bool
  runsBackgroundWork :: bool
  sharesStateAcrossProcesses :: bool
  severalApiInstances :: bool

datatype cluster_error = Api_instances_not_positive | Several_all_processes | Workers_not_natural
  | Workers_need_api_role | Workers_exceed_instances

definition planProcessRole :: "ProcessRole \<Rightarrow> int \<Rightarrow> cluster_error + ProcessRolePlan" where
  "planProcessRole role apiInstances =
     ensure Api_instances_not_positive (isSafeInteger apiInstances \<and> 1 \<le> apiInstances)
     (ensure Several_all_processes (\<not> (role = Role_all \<and> 1 < apiInstances))
     (Inr \<lparr>prp_role = role, prp_apiInstances = apiInstances, servesHttp = (role \<noteq> Role_background),
        runsBackgroundWork = (role \<noteq> Role_api), sharesStateAcrossProcesses = (role \<noteq> Role_all),
        severalApiInstances = (role = Role_api \<and> 1 < apiInstances)\<rparr>))"

section \<open>The plan of the in-app cluster\<close>

datatype InAppClusterPlan = Mode_off | Mode_primary int | Mode_worker nat | Mode_ignored

record InAppClusterInput =
  ci_role :: ProcessRole
  ci_workers :: int
  ci_apiInstances :: int
  ci_isPrimary :: bool
  ci_slot :: string

definition parseSlot :: "string \<Rightarrow> int \<Rightarrow> nat option" where
  "parseSlot raw workers =
     (if \<not> all_digits raw then None
      else if int (digits_value raw) < workers then Some (digits_value raw) else None)"

definition planInAppCluster :: "InAppClusterInput \<Rightarrow> cluster_error + InAppClusterPlan" where
  "planInAppCluster input =
     ensure Workers_not_natural (isSafeInteger (ci_workers input) \<and> 0 \<le> ci_workers input)
     (if ci_workers input = 0 then Inr Mode_off
      else ensure Workers_need_api_role (ci_role input = Role_api)
        (ensure Workers_exceed_instances (ci_workers input \<le> ci_apiInstances input)
          (if ci_isPrimary input then Inr (Mode_primary (ci_workers input))
           else (case parseSlot (ci_slot input) (ci_workers input) of
               None \<Rightarrow> Inr Mode_ignored
             | Some slot \<Rightarrow> Inr (Mode_worker slot)))))"

definition parent_number :: "string \<Rightarrow> nat" where
  "parent_number primaryInstance =
     (let trimmed = trim primaryInstance in if all_digits trimmed then digits_value trimmed else 0)"

definition workerInstanceLabel :: "string \<Rightarrow> nat \<Rightarrow> nat \<Rightarrow> string" where
  "workerInstanceLabel primaryInstance workers slot = nat_text (parent_number primaryInstance * workers + slot)"

section \<open>Restarts of a crashed worker\<close>

definition WORKER_RESTART_INITIAL_DELAY_MS :: int where "WORKER_RESTART_INITIAL_DELAY_MS = 1000"
definition WORKER_RESTART_MAX_DELAY_MS :: int where "WORKER_RESTART_MAX_DELAY_MS = 15000"
definition WORKER_STABLE_UPTIME_MS :: int where "WORKER_STABLE_UPTIME_MS = 30000"

text \<open>\<open>Math.round\<close> of a whole number times \<open>WORKER_RESTART_FACTOR\<close>, 1.5: halves round up.\<close>

definition times_restart_factor :: "int \<Rightarrow> int" where
  "times_restart_factor d = (3 * d + 1) div 2"

definition nextWorkerRestartDelayMs :: "int option \<Rightarrow> int \<Rightarrow> int" where
  "nextWorkerRestartDelayMs previousDelayMs uptimeMs = (case previousDelayMs of
     None \<Rightarrow> WORKER_RESTART_INITIAL_DELAY_MS
   | Some d \<Rightarrow> if WORKER_STABLE_UPTIME_MS \<le> uptimeMs then WORKER_RESTART_INITIAL_DELAY_MS
       else min WORKER_RESTART_MAX_DELAY_MS (times_restart_factor d))"

section \<open>Rolling restarts\<close>

definition ROLLING_RESTART_TOPIC :: string where "ROLLING_RESTART_TOPIC = ''landa:rolling-restart''"
definition ROLLING_RESTART_READY_TIMEOUT_MS :: int where "ROLLING_RESTART_READY_TIMEOUT_MS = 60000"

definition is_request_id :: "string \<Rightarrow> bool" where
  "is_request_id s \<longleftrightarrow> 1 \<le> length s \<and> length s \<le> 100
     \<and> list_all (\<lambda>c. is_upper c \<or> is_lower c \<or> is_digit c \<or> c \<in> set ''._:-'') s"

datatype RollingRestartRejectReason = Reject_in_progress | Reject_shutting_down | Reject_not_ready

datatype RollingRestartFailReason = Exited_before_ready | Ready_timed_out | Replacement_exited
  | Slot_not_ready | Fail_shutting_down

record RollingRestartSlotResult =
  sr_slot :: nat
  sr_instance :: string
  sr_old_pid :: "nat option"
  sr_new_pid :: "nat option"
  sr_ready_ms :: int
  sr_stop_ms :: int
  sr_forced_stop :: bool

text \<open>The replies, in the order of the union: each carries the request id first.\<close>

datatype RollingRestartReply =
    Accepted string nat int
  | Rejected string RollingRestartRejectReason string
  | Slot_replaced string RollingRestartSlotResult
  | Succeeded string nat int "RollingRestartSlotResult list"
  | Failed string RollingRestartFailReason nat nat int string

text \<open>The request id of a message, if the message is a rolling restart request.\<close>

definition parseRollingRestartRequest :: "jsval \<Rightarrow> string option" where
  "parseRollingRestartRequest m =
     (if message_field m ''topic'' \<noteq> JStr ROLLING_RESTART_TOPIC then None
      else (case message_field (message_field m ''data'') ''request_id'' of
          JStr raw \<Rightarrow> Some (if is_request_id raw then raw else [])
        | _ \<Rightarrow> Some []))"

definition rollingRestartTimeoutMs :: "nat \<Rightarrow> int \<Rightarrow> int \<Rightarrow> int" where
  "rollingRestartTimeoutMs workers readyTimeoutMs stopTimeoutMs = int workers * (readyTimeoutMs + stopTimeoutMs)"

definition rejectMessage :: "RollingRestartRejectReason \<Rightarrow> string" where
  "rejectMessage reason = (case reason of
     Reject_in_progress \<Rightarrow> ''A rolling restart is already in progress; this one was not started.''
   | Reject_shutting_down \<Rightarrow> ''The API is shutting down; the rolling restart stopped.''
   | Reject_not_ready \<Rightarrow> ''Not every worker is ready yet (starting, or restarting after a crash); nothing was restarted. Try again in a moment.'')"

definition failMessage :: "RollingRestartFailReason \<Rightarrow> int \<Rightarrow> string" where
  "failMessage reason readyTimeoutMs = (case reason of
     Fail_shutting_down \<Rightarrow> ''The API is shutting down; the rolling restart stopped.''
   | Exited_before_ready \<Rightarrow> ''The new worker exited before it was ready (see the PM2 log); the old worker of this slot keeps serving and the rolling restart stopped.''
   | Ready_timed_out \<Rightarrow> ''The new worker was not ready within '' @ int_text ((readyTimeoutMs + 500) div 1000)
       @ '' s; it was stopped, the old worker of this slot keeps serving and the rolling restart stopped.''
   | Replacement_exited \<Rightarrow> ''The new worker exited right after it took over the slot (see the PM2 log); the slot restarts as after a crash and the rolling restart stopped.''
   | Slot_not_ready \<Rightarrow> ''The worker of this slot is not ready (restarting after a crash); the rolling restart stopped before replacing it.'')"

section \<open>Lemmas\<close>

lemma digits_value_snoc: "digits_value (s @ [c]) = 10 * digits_value s + (of_char c - 48)"
  by (simp add: digits_value_def)

lemma digits_value_nat_text [simp]: "digits_value (nat_text n) = n"
proof (induction n rule: nat_text.induct)
  case (1 n)
  have d: "of_char (digit_char (n mod 10)) = (48 + n mod 10 :: nat)" by (rule of_char_digit_char) simp
  show ?case
  proof (cases "n < 10")
    case True
    then show ?thesis using d by (simp add: digits_value_def nat_text.simps [of n])
  next
    case False
    then have "nat_text n = nat_text (n div 10) @ [digit_char (n mod 10)]" by (simp add: nat_text.simps [of n])
    with False 1 d show ?thesis by (simp add: digits_value_snoc)
  qed
qed

lemma all_digits_nat_text [simp]: "all_digits (nat_text n)"
  by (simp add: all_digits_def nat_text_digits)

lemma parseSlot_nat_text: "parseSlot (nat_text s) workers = (if int s < workers then Some s else None)"
  by (simp add: parseSlot_def)

lemma slot_number_inj:
  fixes a b s t n :: nat
  assumes "s < n" "t < n"
  shows "a * n + s = b * n + t \<longleftrightarrow> a = b \<and> s = t"
proof
  assume eq: "a * n + s = b * n + t"
  have "a = (a * n + s) div n" "b = (b * n + t) div n" using assms by auto
  moreover have "s = (a * n + s) mod n" "t = (b * n + t) mod n" using assms by auto
  ultimately show "a = b \<and> s = t" using eq by metis
qed simp

lemma restart_delay_bounds:
  "d = None \<or> (\<exists>x. d = Some x \<and> 1000 \<le> x \<and> x \<le> 15000) \<Longrightarrow>
   1000 \<le> nextWorkerRestartDelayMs d u \<and> nextWorkerRestartDelayMs d u \<le> 15000"
  by (auto simp: nextWorkerRestartDelayMs_def times_restart_factor_def WORKER_RESTART_INITIAL_DELAY_MS_def
    WORKER_RESTART_MAX_DELAY_MS_def split: option.splits)

section \<open>Properties\<close>

text \<open>
  The workers an in-app primary forks find their slot, and no two workers share an instance
  label. When a process plans to be the primary of n workers, a worker it forks (the same
  configuration, with the decimal text of slot s in the environment) plans to be exactly
  worker s; such a process answers HTTP and runs no background work; and two workers, also of
  primaries with different numbers of their own, get the same label exactly when they are the same slot
  of the same parent number.
\<close>

theorem forked_workers_find_their_slot:
  assumes "planInAppCluster input = Inr (Mode_primary n)" "int s < n" "int t < n"
    and "planProcessRole (ci_role input) (ci_apiInstances input) = Inr plan"
  shows "planInAppCluster (input\<lparr>ci_isPrimary := False, ci_slot := nat_text s\<rparr>) = Inr (Mode_worker s)
    \<and> servesHttp plan \<and> \<not> runsBackgroundWork plan
    \<and> (workerInstanceLabel p (nat n) s = workerInstanceLabel q (nat n) t
        \<longleftrightarrow> parent_number p = parent_number q \<and> s = t)"
proof -
  have n: "ci_workers input = n" "n \<noteq> 0" "ci_role input = Role_api"
    using assms(1) by (auto simp: planInAppCluster_def split: if_splits option.splits)
  have "planInAppCluster (input\<lparr>ci_isPrimary := False, ci_slot := nat_text s\<rparr>) = Inr (Mode_worker s)"
    using assms(1,2) n by (auto simp: planInAppCluster_def parseSlot_nat_text split: if_splits option.splits)
  moreover have "servesHttp plan \<and> \<not> runsBackgroundWork plan"
    using assms(4) n by (auto simp: planProcessRole_def)
  moreover have "workerInstanceLabel p (nat n) s = workerInstanceLabel q (nat n) t
      \<longleftrightarrow> parent_number p = parent_number q \<and> s = t"
    unfolding workerInstanceLabel_def nat_text_inj using assms(2,3) by (intro slot_number_inj) auto
  ultimately show ?thesis by blast
qed

definition example_cluster_input :: InAppClusterInput where
  "example_cluster_input = \<lparr>ci_role = Role_api, ci_workers = 4, ci_apiInstances = 4, ci_isPrimary = True, ci_slot = []\<rparr>"

theorem forked_workers_find_their_slot_witness:
  "planInAppCluster (example_cluster_input\<lparr>ci_isPrimary := False, ci_slot := nat_text 3\<rparr>) = Inr (Mode_worker 3)
    \<and> workerInstanceLabel ''1'' 4 3 \<noteq> workerInstanceLabel ''2'' 4 0"
proof -
  have "planInAppCluster example_cluster_input = Inr (Mode_primary 4)"
    by (simp add: planInAppCluster_def example_cluster_input_def isSafeInteger_def MAX_SAFE_INTEGER_def)
  moreover obtain plan where "planProcessRole (ci_role example_cluster_input) (ci_apiInstances example_cluster_input) = Inr plan"
    by (simp add: planProcessRole_def example_cluster_input_def isSafeInteger_def MAX_SAFE_INTEGER_def)
  ultimately show ?thesis
    using forked_workers_find_their_slot [of example_cluster_input 4 3 0 plan "''1''" "''2''"] by simp
qed

end
