(* ===== verification/Cluster_Primary.thy ===== *)
theory Cluster_Primary
  imports Inapp_Cluster Event_System
begin

text \<open>
  The primary of the in-app cluster (config/inapp-cluster-primary.ts): the slots and the worker
  processes, crashes and their restarts, the rolling restart and the shutdown. A worker is the number of
  its fork; \<open>p_forked\<close> holds the slot each worker was forked for, as the closures of its handlers do.
  Every message, exit, timer and signal is an event; a continuation after \<open>await\<close> runs within the event
  that settles it. \<open>p_told\<close> lists the workers that were sent the shutdown message (and disconnected),
  in order, \<open>p_kills\<close> the killed ones, \<open>p_replies\<close> the replies to PM2.
\<close>

section \<open>State\<close>

definition SHUTDOWN_FORCE_EXIT_MS :: int where "SHUTDOWN_FORCE_EXIT_MS = 13500"

definition INAPP_CLUSTER_SHUTDOWN_DEADLINE_MS :: int where
  "INAPP_CLUSTER_SHUTDOWN_DEADLINE_MS = SHUTDOWN_FORCE_EXIT_MS + 1000"

definition KILL_SETTLE_MS :: int where "KILL_SETTLE_MS = 1000"

record cluster_slot =
  cs_slot :: nat
  cs_instance :: string
  cs_worker :: "nat option"
  cs_startedAt :: int
  cs_ready :: bool
  cs_restartDelayMs :: "int option"
  cs_restartTimer :: bool

text \<open>
  Where a rolling restart waits: for the new worker to be ready; for a new worker that will not serve to
  exit (why it failed, whether it was killed); for the replaced worker to exit.
\<close>

datatype roll_wait =
    Wait_ready nat int
  | Drop_incoming nat "RollingRestartFailReason option" bool
  | Drain_previous nat nat int int bool

record roll =
  r_request :: string
  r_startedAt :: int
  r_replaced :: "RollingRestartSlotResult list"
  r_slot :: nat
  r_wait :: roll_wait

text \<open>The shutdown: not begun, waiting for the workers, after the deadline, settling the roll, exited.\<close>

datatype shutdown_state = Serving | Stopping_workers | Killed_workers | Settling bool | Exited nat

record primary =
  p_slots :: "cluster_slot list"
  p_forked :: "nat list"
  p_live :: "nat list"
  p_connected :: "nat list"
  p_told :: "nat list"
  p_kills :: "nat list"
  p_allReadySignalled :: bool
  p_roll :: "roll option"
  p_replies :: "RollingRestartReply list"
  p_shutdown :: shutdown_state
  p_deadlineMs :: int
  p_readyTimeoutMs :: int
  p_now :: int

definition stopping :: "primary \<Rightarrow> bool" where
  "stopping p \<longleftrightarrow> p_shutdown p \<noteq> Serving"

definition slot_at :: "nat \<Rightarrow> primary \<Rightarrow> cluster_slot" where
  "slot_at i p = p_slots p ! i"

definition set_slot :: "nat \<Rightarrow> cluster_slot \<Rightarrow> primary \<Rightarrow> primary" where
  "set_slot i s p = p\<lparr>p_slots := (p_slots p)[i := s]\<rparr>"

section \<open>Workers\<close>

text \<open>A fork: the new state, in which the worker is the number of workers forked before.\<close>

definition fork :: "nat \<Rightarrow> primary \<Rightarrow> primary" where
  "fork i p = p\<lparr>p_live := p_live p @ [length (p_forked p)], p_connected := p_connected p @ [length (p_forked p)],
     p_forked := p_forked p @ [i]\<rparr>"

definition startInSlot :: "nat \<Rightarrow> primary \<Rightarrow> primary" where
  "startInSlot i p = set_slot i ((slot_at i p)\<lparr>cs_worker := Some (length (p_forked p)),
     cs_startedAt := p_now p, cs_ready := False\<rparr>) (fork i p)"

definition new_primary :: "string \<Rightarrow> nat \<Rightarrow> int \<Rightarrow> int \<Rightarrow> int \<Rightarrow> primary" where
  "new_primary primaryInstance workers deadlineMs readyTimeoutMs now =
     \<lparr>p_slots = map (\<lambda>slot. \<lparr>cs_slot = slot, cs_instance = workerInstanceLabel primaryInstance workers slot,
        cs_worker = None, cs_startedAt = 0, cs_ready = False, cs_restartDelayMs = None, cs_restartTimer = False\<rparr>) [0..<workers],
      p_forked = [], p_live = [], p_connected = [], p_told = [], p_kills = [], p_allReadySignalled = False,
      p_roll = None, p_replies = [], p_shutdown = Serving, p_deadlineMs = deadlineMs,
      p_readyTimeoutMs = readyTimeoutMs, p_now = now\<rparr>"

definition start :: "primary \<Rightarrow> primary" where
  "start p = foldl (\<lambda>q i. startInSlot i q) p [0..<length (p_slots p)]"

definition onReady :: "nat \<Rightarrow> primary \<Rightarrow> primary" where
  "onReady w p = (let i = p_forked p ! w in
     if cs_worker (slot_at i p) \<noteq> Some w then p
     else (let q = set_slot i ((slot_at i p)\<lparr>cs_ready := True\<rparr>) p in
       if \<not> p_allReadySignalled q \<and> list_all cs_ready (p_slots q) then q\<lparr>p_allReadySignalled := True\<rparr> else q))"

definition tellToStop :: "nat \<Rightarrow> primary \<Rightarrow> primary" where
  "tellToStop w p = (if w \<in> set (p_told p) \<or> w \<notin> set (p_connected p) then p
     else p\<lparr>p_told := p_told p @ [w]\<rparr>)"

definition killAtDeadline :: "nat \<Rightarrow> primary \<Rightarrow> primary" where
  "killAtDeadline w p = (if w \<notin> set (p_live p) then p else p\<lparr>p_kills := p_kills p @ [w]\<rparr>)"

definition onAllStopped :: "primary \<Rightarrow> primary" where
  "onAllStopped p = (case p_shutdown p of
     Stopping_workers \<Rightarrow> p\<lparr>p_shutdown := Settling False\<rparr>
   | Killed_workers \<Rightarrow> p\<lparr>p_shutdown := Settling True\<rparr>
   | _ \<Rightarrow> p)"

definition onExit :: "nat \<Rightarrow> primary \<Rightarrow> primary" where
  "onExit w p = (let i = p_forked p ! w;
       q = p\<lparr>p_live := removeAll w (p_live p), p_connected := removeAll w (p_connected p)\<rparr>;
       serving = (cs_worker (slot_at i q) = Some w);
       q1 = (if serving then set_slot i ((slot_at i q)\<lparr>cs_worker := None, cs_ready := False\<rparr>) q else q)
     in if stopping q1 then (if p_live q1 = [] then onAllStopped q1 else q1)
        else if \<not> serving then q1
        else (let delayMs = nextWorkerRestartDelayMs (cs_restartDelayMs (slot_at i q1)) (p_now q1 - cs_startedAt (slot_at i q1))
          in set_slot i ((slot_at i q1)\<lparr>cs_restartDelayMs := Some delayMs, cs_restartTimer := True\<rparr>) q1))"

text \<open>The restart timer of a slot fires.\<close>

definition restart_fires :: "nat \<Rightarrow> primary \<Rightarrow> primary" where
  "restart_fires i p = (let q = set_slot i ((slot_at i p)\<lparr>cs_restartTimer := False\<rparr>) p in
     if stopping q then q else startInSlot i q)"

section \<open>Shutdown\<close>

definition shutdown :: "primary \<Rightarrow> primary" where
  "shutdown p = (if stopping p then p
     else (let q = p\<lparr>p_slots := map (\<lambda>s. s\<lparr>cs_restartTimer := False\<rparr>) (p_slots p), p_shutdown := Stopping_workers\<rparr>
       in if p_live q = [] then q\<lparr>p_shutdown := Settling False\<rparr>
          else foldl (\<lambda>r w. tellToStop w r) q (p_live q)))"

definition shutdown_deadline :: "primary \<Rightarrow> primary" where
  "shutdown_deadline p = (if p_shutdown p \<noteq> Stopping_workers then p
     else foldl (\<lambda>r w. killAtDeadline w r) (p\<lparr>p_shutdown := Killed_workers\<rparr>) (p_live p))"

definition shutdown_settle :: "primary \<Rightarrow> primary" where
  "shutdown_settle p = (if p_shutdown p = Killed_workers then p\<lparr>p_shutdown := Settling True\<rparr> else p)"

text \<open>\<open>settleRollingRestart\<close> ends (the roll did, or its timer fired) and the primary exits.\<close>

definition finish_shutdown :: "primary \<Rightarrow> primary" where
  "finish_shutdown p = (case p_shutdown p of
     Settling forced \<Rightarrow> p\<lparr>p_shutdown := Exited (if forced then 1 else 0)\<rparr> | _ \<Rightarrow> p)"

section \<open>The rolling restart\<close>

definition reply :: "RollingRestartReply \<Rightarrow> primary \<Rightarrow> primary" where
  "reply r p = p\<lparr>p_replies := p_replies p @ [r]\<rparr>"

definition rejectReason :: "primary \<Rightarrow> RollingRestartRejectReason option" where
  "rejectReason p = (if stopping p then Some Reject_shutting_down
     else if p_roll p \<noteq> None then Some Reject_in_progress
     else if \<not> list_all cs_ready (p_slots p) then Some Reject_not_ready
     else None)"

definition roll_failed :: "roll \<Rightarrow> RollingRestartFailReason \<Rightarrow> primary \<Rightarrow> primary" where
  "roll_failed r reason p = (reply (Failed (r_request r) reason (r_slot r) (length (r_replaced r))
     (p_now p - r_startedAt r) (failMessage reason (p_readyTimeoutMs p))) p)\<lparr>p_roll := None\<rparr>"

text \<open>The head of the loop over the slots, up to the wait of \<open>replaceSlot\<close> for the new worker.\<close>

definition roll_next :: "roll \<Rightarrow> primary \<Rightarrow> primary" where
  "roll_next r p = (let i = r_slot r in
     if length (p_slots p) \<le> i then
       (reply (Succeeded (r_request r) (length (p_slots p)) (p_now p - r_startedAt r) (r_replaced r)) p)\<lparr>p_roll := None\<rparr>
     else if stopping p then roll_failed r Fail_shutting_down p
     else if \<not> cs_ready (slot_at i p) then roll_failed r Slot_not_ready p
     else (fork i p)\<lparr>p_roll := Some (r\<lparr>r_wait := Wait_ready (length (p_forked p)) (p_now p)\<rparr>)\<rparr>)"

text \<open>\<open>rollingRestart\<close> and the beginning of \<open>roll\<close>.\<close>

definition rollingRestart :: "string \<Rightarrow> primary \<Rightarrow> primary" where
  "rollingRestart requestId p = (case rejectReason p of
     Some reason \<Rightarrow> reply (Rejected requestId reason (rejectMessage reason)) p
   | None \<Rightarrow> (let n = length (p_slots p) in
       roll_next \<lparr>r_request = requestId, r_startedAt = p_now p, r_replaced = [], r_slot = 0, r_wait = Wait_ready 0 0\<rparr>
         (reply (Accepted requestId n (rollingRestartTimeoutMs n (p_readyTimeoutMs p) (p_deadlineMs p + KILL_SETTLE_MS))) p)))"

text \<open>After the wait for the replaced worker.\<close>

definition previous_stopped :: "roll \<Rightarrow> nat \<Rightarrow> nat option \<Rightarrow> int \<Rightarrow> int \<Rightarrow> bool \<Rightarrow> primary \<Rightarrow> primary" where
  "previous_stopped r incoming previous readyMs stopStartedAt forced p = (let i = r_slot r; s = slot_at i p in
     if cs_worker s \<noteq> Some incoming then roll_failed r Replacement_exited p
     else (let result = \<lparr>sr_slot = cs_slot s, sr_instance = cs_instance s, sr_old_pid = previous,
             sr_new_pid = Some incoming, sr_ready_ms = readyMs, sr_stop_ms = p_now p - stopStartedAt,
             sr_forced_stop = forced\<rparr>
       in roll_next (r\<lparr>r_replaced := r_replaced r @ [result], r_slot := i + 1\<rparr>)
            (reply (Slot_replaced (r_request r) result) p)))"

text \<open>The new worker is ready: it takes the slot over, then the old one is told to stop.\<close>

definition take_over :: "roll \<Rightarrow> nat \<Rightarrow> int \<Rightarrow> primary \<Rightarrow> primary" where
  "take_over r incoming startedAt p = (let i = r_slot r; s = slot_at i p; readyMs = p_now p - startedAt;
       q = set_slot i (s\<lparr>cs_restartTimer := False, cs_worker := Some incoming, cs_startedAt := startedAt,
             cs_ready := True, cs_restartDelayMs := None\<rparr>) p
     in (case cs_worker s of
          None \<Rightarrow> previous_stopped r incoming None readyMs (p_now q) False q
        | Some previous \<Rightarrow> (let q1 = tellToStop previous q in
            if previous \<notin> set (p_live q1) then previous_stopped r incoming (Some previous) readyMs (p_now q1) False q1
            else q1\<lparr>p_roll := Some (r\<lparr>r_wait := Drain_previous incoming previous readyMs (p_now q1) False\<rparr>)\<rparr>)))"

text \<open>The new worker that will not serve has exited, or was killed and waited for.\<close>

definition incoming_stopped :: "roll \<Rightarrow> RollingRestartFailReason option \<Rightarrow> primary \<Rightarrow> primary" where
  "incoming_stopped r why p = (case why of
     None \<Rightarrow> roll_failed r Fail_shutting_down p
   | Some reason \<Rightarrow> roll_failed r (if stopping p then Fail_shutting_down else reason) p)"

text \<open>\<open>waitForReady\<close> settles: with no reason when the worker said it is ready.\<close>

definition ready_settled :: "roll \<Rightarrow> nat \<Rightarrow> int \<Rightarrow> RollingRestartFailReason option \<Rightarrow> primary \<Rightarrow> primary" where
  "ready_settled r incoming startedAt why p =
     (if why = None \<and> \<not> stopping p then take_over r incoming startedAt p
      else (let q = tellToStop incoming p in
        if incoming \<notin> set (p_live q) then incoming_stopped r why q
        else q\<lparr>p_roll := Some (r\<lparr>r_wait := Drop_incoming incoming why False\<rparr>)\<rparr>))"

text \<open>What the wait of the roll does when a worker says it is ready, or exits.\<close>

definition roll_hears_ready :: "nat \<Rightarrow> primary \<Rightarrow> primary" where
  "roll_hears_ready w p = (case p_roll p of
     Some r \<Rightarrow> (case r_wait r of
         Wait_ready incoming startedAt \<Rightarrow> if w = incoming then ready_settled r incoming startedAt None p else p
       | _ \<Rightarrow> p)
   | None \<Rightarrow> p)"

definition roll_hears_exit :: "nat \<Rightarrow> primary \<Rightarrow> primary" where
  "roll_hears_exit w p = (case p_roll p of
     Some r \<Rightarrow> (case r_wait r of
         Wait_ready incoming startedAt \<Rightarrow>
           if w = incoming then ready_settled r incoming startedAt (Some Exited_before_ready) p else p
       | Drop_incoming incoming why killed \<Rightarrow> if w = incoming then incoming_stopped r why p else p
       | Drain_previous incoming previous readyMs stopStartedAt killed \<Rightarrow>
           if w = previous then previous_stopped r incoming (Some previous) readyMs stopStartedAt killed p else p)
   | None \<Rightarrow> p)"

definition ready_timeout :: "primary \<Rightarrow> primary" where
  "ready_timeout p = (case p_roll p of
     Some r \<Rightarrow> (case r_wait r of
         Wait_ready incoming startedAt \<Rightarrow> ready_settled r incoming startedAt (Some Ready_timed_out) p
       | _ \<Rightarrow> p)
   | None \<Rightarrow> p)"

text \<open>The deadline of \<open>stopWorker\<close> fires (first the kill, then the wait for the killed worker).\<close>

definition stop_deadline :: "primary \<Rightarrow> primary" where
  "stop_deadline p = (case p_roll p of
     Some r \<Rightarrow> (case r_wait r of
         Drop_incoming incoming why False \<Rightarrow> (let q = killAtDeadline incoming p in
           if incoming \<notin> set (p_live q) then incoming_stopped r why q
           else q\<lparr>p_roll := Some (r\<lparr>r_wait := Drop_incoming incoming why True\<rparr>)\<rparr>)
       | Drain_previous incoming previous readyMs stopStartedAt False \<Rightarrow> (let q = killAtDeadline previous p in
           if previous \<notin> set (p_live q) then previous_stopped r incoming (Some previous) readyMs stopStartedAt True q
           else q\<lparr>p_roll := Some (r\<lparr>r_wait := Drain_previous incoming previous readyMs stopStartedAt True\<rparr>)\<rparr>)
       | _ \<Rightarrow> p)
   | None \<Rightarrow> p)"

definition kill_settled :: "primary \<Rightarrow> primary" where
  "kill_settled p = (case p_roll p of
     Some r \<Rightarrow> (case r_wait r of
         Drop_incoming incoming why True \<Rightarrow> incoming_stopped r why p
       | Drain_previous incoming previous readyMs stopStartedAt True \<Rightarrow>
           previous_stopped r incoming (Some previous) readyMs stopStartedAt True p
       | _ \<Rightarrow> p)
   | None \<Rightarrow> p)"

section \<open>Events\<close>

datatype primary_event = Time_passes nat | Worker_says_ready nat | Worker_exits nat | Channel_closes nat
  | Restart_fires nat | Parent_says jsval | Signal_received | Ready_timer | Stop_timer | Kill_timer
  | Shutdown_timer | Settle_timer | Roll_settles

definition parent_message :: "jsval \<Rightarrow> primary \<Rightarrow> primary" where
  "parent_message m p = (if m = JStr ''shutdown'' then shutdown p
     else (case parseRollingRestartRequest m of None \<Rightarrow> p | Some requestId \<Rightarrow> rollingRestart requestId p))"

fun primary_event_step :: "primary \<Rightarrow> primary_event \<Rightarrow> primary" where
  "primary_event_step p (Time_passes d) = p\<lparr>p_now := p_now p + int d\<rparr>"
| "primary_event_step p (Worker_says_ready w) =
     (if w < length (p_forked p) then roll_hears_ready w (onReady w p) else p)"
| "primary_event_step p (Worker_exits w) =
     (if w \<in> set (p_live p) then roll_hears_exit w (onExit w p) else p)"
| "primary_event_step p (Channel_closes w) = p\<lparr>p_connected := removeAll w (p_connected p)\<rparr>"
| "primary_event_step p (Restart_fires i) =
     (if i < length (p_slots p) \<and> cs_restartTimer (slot_at i p) then restart_fires i p else p)"
| "primary_event_step p (Parent_says m) = parent_message m p"
| "primary_event_step p Signal_received = shutdown p"
| "primary_event_step p Ready_timer = ready_timeout p"
| "primary_event_step p Stop_timer = stop_deadline p"
| "primary_event_step p Kill_timer = kill_settled p"
| "primary_event_step p Shutdown_timer = shutdown_deadline p"
| "primary_event_step p Settle_timer = shutdown_settle p"
| "primary_event_step p Roll_settles = finish_shutdown p"

text \<open>A process that has exited handles nothing.\<close>

definition primary_step :: "primary \<Rightarrow> primary_event \<Rightarrow> primary" where
  "primary_step p e = (case p_shutdown p of Exited code \<Rightarrow> p | _ \<Rightarrow> primary_event_step p e)"

section \<open>The invariant\<close>

text \<open>
  A serving worker is alive and, outside a shutdown, was not told to stop; an empty slot waits for its
  restart timer; a timer is never left set after a shutdown began.
\<close>

definition slot_ok :: "primary \<Rightarrow> nat \<Rightarrow> cluster_slot \<Rightarrow> bool" where
  "slot_ok p i s \<longleftrightarrow> cs_slot s = i
     \<and> (\<forall>d. cs_restartDelayMs s = Some d \<longrightarrow> 1000 \<le> d \<and> d \<le> 15000)
     \<and> (\<forall>w. cs_worker s = Some w \<longrightarrow> w \<in> set (p_live p) \<and> p_forked p ! w = i
          \<and> (w \<in> set (p_told p) \<longrightarrow> stopping p) \<and> \<not> cs_restartTimer s)
     \<and> (cs_worker s = None \<longrightarrow> \<not> cs_ready s \<and> (cs_restartTimer s \<or> stopping p))
     \<and> (stopping p \<longrightarrow> \<not> cs_restartTimer s)"

definition slots_ok :: "primary \<Rightarrow> bool" where
  "slots_ok p \<longleftrightarrow> (\<forall>i < length (p_slots p). slot_ok p i (p_slots p ! i))"

definition workers_ok :: "primary \<Rightarrow> bool" where
  "workers_ok p \<longleftrightarrow> distinct (p_live p) \<and> distinct (p_told p)
     \<and> (\<forall>w \<in> set (p_told p). w < length (p_forked p))
     \<and> (\<forall>w \<in> set (p_live p). w < length (p_forked p)) \<and> (\<forall>i \<in> set (p_forked p). i < length (p_slots p))
     \<and> (stopping p \<longrightarrow> (\<forall>w \<in> set (p_live p). w \<in> set (p_connected p) \<longrightarrow> w \<in> set (p_told p)))
     \<and> (p_shutdown p \<in> {Settling False, Exited 0} \<longrightarrow> p_live p = [])"

definition serving :: "primary \<Rightarrow> nat \<Rightarrow> bool" where
  "serving p w \<longleftrightarrow> cs_worker (slot_at (p_forked p ! w) p) = Some w"

text \<open>Every live worker serves its slot, was killed, or is the one the roll waits for.\<close>

definition owned :: "nat option \<Rightarrow> primary \<Rightarrow> bool" where
  "owned x p \<longleftrightarrow> (\<forall>w \<in> set (p_live p). serving p w \<or> w \<in> set (p_kills p) \<or> x = Some w)"

definition replies_ok :: "primary \<Rightarrow> bool" where
  "replies_ok p \<longleftrightarrow> (\<forall>q n d rs. Succeeded q n d rs \<in> set (p_replies p) \<longrightarrow> map sr_slot rs = [0..<length (p_slots p)])"

definition base_inv :: "nat option \<Rightarrow> primary \<Rightarrow> bool" where
  "base_inv x p \<longleftrightarrow> slots_ok p \<and> workers_ok p \<and> owned x p \<and> replies_ok p"

fun waited_worker :: "roll_wait \<Rightarrow> nat" where
  "waited_worker (Wait_ready w t) = w"
| "waited_worker (Drop_incoming w why k) = w"
| "waited_worker (Drain_previous i w a b k) = w"

definition roll_worker :: "primary \<Rightarrow> nat option" where
  "roll_worker p = map_option (\<lambda>r. waited_worker (r_wait r)) (p_roll p)"

definition roll_progress :: "primary \<Rightarrow> roll \<Rightarrow> bool" where
  "roll_progress p r \<longleftrightarrow> r_slot r < length (p_slots p) \<and> map sr_slot (r_replaced r) = [0..<r_slot r]"

definition wait_ok :: "primary \<Rightarrow> nat \<Rightarrow> roll_wait \<Rightarrow> bool" where
  "wait_ok p i u \<longleftrightarrow> waited_worker u \<in> set (p_live p) \<and> \<not> serving p (waited_worker u)
     \<and> (case u of
         Wait_ready w t \<Rightarrow> p_forked p ! w = i \<and> (w \<in> set (p_told p) \<longrightarrow> stopping p)
       | Drop_incoming w why k \<Rightarrow> k \<longrightarrow> w \<in> set (p_kills p)
       | Drain_previous j w a b k \<Rightarrow> k \<longrightarrow> w \<in> set (p_kills p))"

definition primary_inv :: "primary \<Rightarrow> bool" where
  "primary_inv p \<longleftrightarrow> base_inv (roll_worker p) p
     \<and> (\<forall>r. p_roll p = Some r \<longrightarrow> roll_progress p r \<and> wait_ok p (r_slot r) (r_wait r))"

named_theorems primary_defs "the state and the invariant of the primary"

lemmas primary_inv_parts [primary_defs] = slots_ok_def slot_ok_def workers_ok_def owned_def replies_ok_def base_inv_def
  serving_def stopping_def slot_at_def set_slot_def

lemma base_inv_roll [simp]: "base_inv x (p\<lparr>p_roll := r\<rparr>) = base_inv x p"
  by (simp add: primary_defs)

lemma base_inv_weaken: "base_inv None p \<Longrightarrow> base_inv x p"
  by (auto simp: base_inv_def owned_def)

lemma base_inv_reply [simp]:
  "base_inv x (reply r p) \<longleftrightarrow> base_inv x p
    \<and> (\<forall>q n d rs. r = Succeeded q n d rs \<longrightarrow> map sr_slot rs = [0..<length (p_slots p)])"
  by (auto simp: base_inv_def slots_ok_def slot_ok_def workers_ok_def owned_def replies_ok_def serving_def
      stopping_def slot_at_def reply_def)

lemma reply_slots [simp]: "p_slots (reply r p) = p_slots p"
  by (simp add: reply_def)

lemma primary_inv_no_roll: "p_roll p = None \<Longrightarrow> primary_inv p \<longleftrightarrow> base_inv None p"
  by (simp add: primary_inv_def roll_worker_def)

lemma roll_failed_inv: "base_inv None p \<Longrightarrow> primary_inv (roll_failed r reason p)"
  by (simp add: roll_failed_def primary_inv_no_roll)

lemma base_inv_fork:
  assumes "base_inv None p" "i < length (p_slots p)" "\<not> stopping p"
  shows "base_inv (Some (length (p_forked p))) (fork i p)"
  using assms by (auto simp: primary_defs fork_def nth_append)

lemma roll_next_inv:
  assumes "base_inv None p" "map sr_slot (r_replaced r) = [0..<r_slot r]" "r_slot r \<le> length (p_slots p)"
  shows "primary_inv (roll_next r p)"
proof (cases "r_slot r < length (p_slots p) \<and> \<not> stopping p \<and> cs_ready (slot_at (r_slot r) p)")
  case True
  let ?w = "length (p_forked p)"
  have "base_inv (Some ?w) (fork (r_slot r) p)" using assms True by (intro base_inv_fork) auto
  moreover have "\<not> serving (fork (r_slot r) p) ?w" "?w \<notin> set (p_told p)"
    using assms(1) True by (auto simp: primary_defs fork_def)
  ultimately show ?thesis using True assms
    by (simp add: roll_next_def primary_inv_def roll_worker_def roll_progress_def wait_ok_def fork_def serving_def slot_at_def)
next
  case False
  then show ?thesis using assms
    by (auto simp: roll_next_def Let_def roll_failed_inv primary_inv_no_roll)
qed

lemma previous_stopped_inv:
  assumes "base_inv None p" "roll_progress p r"
  shows "primary_inv (previous_stopped r incoming previous a b k p)"
proof -
  have "cs_slot (slot_at (r_slot r) p) = r_slot r"
    using assms by (auto simp: primary_defs roll_progress_def)
  then show ?thesis using assms
    by (auto simp: previous_stopped_def Let_def roll_failed_inv roll_progress_def intro!: roll_next_inv)
qed

lemma tellToStop_sel [simp]:
  "p_slots (tellToStop w p) = p_slots p" "p_live (tellToStop w p) = p_live p"
  "p_forked (tellToStop w p) = p_forked p" "p_shutdown (tellToStop w p) = p_shutdown p"
  "p_kills (tellToStop w p) = p_kills p" "p_connected (tellToStop w p) = p_connected p"
  "p_roll (tellToStop w p) = p_roll p" "stopping (tellToStop w p) = stopping p"
  "serving (tellToStop w p) = serving p" "slot_at i (tellToStop w p) = slot_at i p"
  by (auto simp: tellToStop_def stopping_def serving_def slot_at_def)

lemma told_tellToStop: "set (p_told (tellToStop w p)) \<subseteq> insert w (set (p_told p))"
  "set (p_told p) \<subseteq> set (p_told (tellToStop w p))"
  by (auto simp: tellToStop_def)

lemma tellToStop_inv:
  assumes "base_inv x p" "w < length (p_forked p)" "\<not> stopping p \<Longrightarrow> \<not> serving p w"
  shows "base_inv x (tellToStop w p)"
  using assms by (auto simp: tellToStop_def primary_defs)

lemma killAtDeadline_inv:
  "base_inv x p \<Longrightarrow> base_inv x (killAtDeadline w p)"
  by (auto simp: killAtDeadline_def primary_defs)

lemma killAtDeadline_sel [simp]:
  "p_slots (killAtDeadline w p) = p_slots p" "p_live (killAtDeadline w p) = p_live p"
  "p_forked (killAtDeadline w p) = p_forked p" "p_shutdown (killAtDeadline w p) = p_shutdown p"
  "p_roll (killAtDeadline w p) = p_roll p" "stopping (killAtDeadline w p) = stopping p"
  "serving (killAtDeadline w p) = serving p" "p_told (killAtDeadline w p) = p_told p"
  by (auto simp: killAtDeadline_def stopping_def serving_def slot_at_def)

lemma set_slot_inv_simps [simp]:
  "slot_ok (set_slot i s p) = slot_ok p" "workers_ok (set_slot i s p) = workers_ok p"
  "replies_ok (set_slot i s p) = replies_ok p" "stopping (set_slot i s p) = stopping p"
  "p_live (set_slot i s p) = p_live p" "p_forked (set_slot i s p) = p_forked p"
  "p_told (set_slot i s p) = p_told p" "p_roll (set_slot i s p) = p_roll p"
  "p_kills (set_slot i s p) = p_kills p" "length (p_slots (set_slot i s p)) = length (p_slots p)"
  by (auto simp: set_slot_def slot_ok_def workers_ok_def replies_ok_def stopping_def fun_eq_iff)

lemma nth_set_slot:
  "j < length (p_slots p) \<Longrightarrow> p_slots (set_slot i s p) ! j = (if j = i then s else p_slots p ! j)"
  by (simp add: set_slot_def nth_list_update)

lemma slots_ok_signalled [simp]: "slots_ok (p\<lparr>p_allReadySignalled := b\<rparr>) = slots_ok p"
  by (simp add: slots_ok_def slot_ok_def stopping_def)

lemma slots_ok_set_slot: "slots_ok p \<Longrightarrow> slot_ok p i s \<Longrightarrow> slots_ok (set_slot i s p)"
  by (cases "i < length (p_slots p)") (auto simp: slots_ok_def nth_list_update set_slot_def slot_ok_def stopping_def)

lemma serving_set_slot:
  "i < length (p_slots p) \<Longrightarrow>
   serving (set_slot i s p) w = (if p_forked p ! w = i then cs_worker s = Some w else serving p w)"
  by (auto simp: serving_def slot_at_def set_slot_def nth_list_update)

lemma slot_okD: "slots_ok p \<Longrightarrow> i < length (p_slots p) \<Longrightarrow> slot_ok p i (slot_at i p)"
  by (simp add: slots_ok_def slot_at_def)

text \<open>Handing the slot to the new worker leaves the old one as the worker the roll waits for.\<close>

lemma hand_over_inv:
  assumes base: "base_inv (Some w) p" and w: "w \<in> set (p_live p)" "p_forked p ! w = i" "\<not> stopping p" "w \<notin> set (p_told p)"
  shows "base_inv (cs_worker (slot_at i p))
    (set_slot i ((slot_at i p)\<lparr>cs_restartTimer := False, cs_worker := Some w, cs_startedAt := t, cs_ready := True,
      cs_restartDelayMs := None\<rparr>) p)"
proof -
  have i: "i < length (p_slots p)" using base w by (auto simp: base_inv_def workers_ok_def)
  then have "slot_ok p i (slot_at i p)" using base by (intro slot_okD) (auto simp: base_inv_def)
  then have "slots_ok (set_slot i ((slot_at i p)\<lparr>cs_restartTimer := False, cs_worker := Some w, cs_startedAt := t,
      cs_ready := True, cs_restartDelayMs := None\<rparr>) p)"
    using base w by (intro slots_ok_set_slot) (auto simp: base_inv_def slot_ok_def)
  moreover have "owned (cs_worker (slot_at i p)) (set_slot i ((slot_at i p)\<lparr>cs_restartTimer := False, cs_worker := Some w,
      cs_startedAt := t, cs_ready := True, cs_restartDelayMs := None\<rparr>) p)"
    using base w i by (auto simp: owned_def serving_set_slot base_inv_def) (auto simp: serving_def)
  ultimately show ?thesis using base by (simp add: base_inv_def)
qed

lemma take_over_inv:
  assumes base: "base_inv (Some w) p" and "w \<in> set (p_live p)" "p_forked p ! w = r_slot r" "\<not> stopping p"
    "w \<notin> set (p_told p)" "\<not> serving p w" and prog: "roll_progress p r"
  shows "primary_inv (take_over r w t p)"
proof -
  let ?s = "slot_at (r_slot r) p"
  let ?q = "set_slot (r_slot r) (?s\<lparr>cs_restartTimer := False, cs_worker := Some w, cs_startedAt := t,
      cs_ready := True, cs_restartDelayMs := None\<rparr>) p"
  have q: "base_inv (cs_worker ?s) ?q" using assms by (intro hand_over_inv) auto
  have progq: "roll_progress ?q r" using prog by (simp add: roll_progress_def set_slot_def)
  show ?thesis
  proof (cases "cs_worker ?s")
    case None
    then show ?thesis using q progq by (simp add: take_over_def Let_def previous_stopped_inv)
  next
    case (Some v)
    have v: "v \<noteq> w" "v \<in> set (p_live p)" "p_forked p ! v = r_slot r" "v < length (p_forked p)"
      using base Some assms by (auto simp: primary_defs roll_progress_def)
    have nv: "\<not> serving ?q v"
      using v prog by (auto simp: serving_def slot_at_def set_slot_def roll_progress_def)
    have "base_inv (Some v) (tellToStop v ?q)"
      using q Some v nv by (intro tellToStop_inv) (auto simp: set_slot_def)
    moreover have "v \<in> set (p_live ?q)" using v by (simp add: set_slot_def)
    moreover have "roll_progress (tellToStop v ?q) r" using progq by (simp add: roll_progress_def)
    ultimately show ?thesis using Some nv
      by (simp add: take_over_def Let_def primary_inv_def roll_worker_def wait_ok_def roll_progress_def serving_def
          slot_at_def)
  qed
qed

lemma incoming_stopped_inv: "base_inv None p \<Longrightarrow> primary_inv (incoming_stopped r why p)"
  by (simp add: incoming_stopped_def roll_failed_inv split: option.splits)

lemma ready_settled_inv:
  assumes "base_inv x p" "x = (if w \<in> set (p_live p) then Some w else None)" "roll_progress p r" "w < length (p_forked p)"
    "\<not> serving p w" "p_forked p ! w = r_slot r" "w \<in> set (p_told p) \<longrightarrow> stopping p" "why = None \<Longrightarrow> w \<in> set (p_live p)"
  shows "primary_inv (ready_settled r w t why p)"
proof (cases "why = None \<and> \<not> stopping p")
  case True
  then show ?thesis using assms by (simp add: ready_settled_def take_over_inv)
next
  case False
  have t: "base_inv x (tellToStop w p)" using assms by (intro tellToStop_inv) auto
  show ?thesis
  proof (cases "w \<in> set (p_live p)")
    case True
    then show ?thesis using False t assms
      by (auto simp: ready_settled_def Let_def primary_inv_def roll_worker_def wait_ok_def roll_progress_def
          serving_def slot_at_def)
  next
    case gone: False
    then show ?thesis using False t assms by (auto simp: ready_settled_def Let_def incoming_stopped_inv)
  qed
qed

section \<open>Every event keeps the invariant\<close>

lemma primary_inv_cong:
  assumes "primary_inv p" "base_inv (roll_worker p) q" "p_roll q = p_roll p"
    "length (p_slots q) = length (p_slots p)" "\<And>i u. wait_ok p i u \<Longrightarrow> wait_ok q i u"
  shows "primary_inv q"
  using assms by (simp add: primary_inv_def roll_worker_def roll_progress_def)

lemma home_slot: "workers_ok p \<Longrightarrow> w < length (p_forked p) \<Longrightarrow> p_forked p ! w < length (p_slots p)"
  by (simp add: workers_ok_def)

lemma onReady_serving:
  assumes "workers_ok p" "w < length (p_forked p)"
  shows "serving (onReady w p) = serving p"
  using home_slot [OF assms]
  by (auto simp: onReady_def Let_def serving_def slot_at_def set_slot_def nth_list_update fun_eq_iff)

lemma onReady_sel [simp]:
  "p_live (onReady w p) = p_live p" "p_forked (onReady w p) = p_forked p" "p_told (onReady w p) = p_told p"
  "p_roll (onReady w p) = p_roll p" "p_kills (onReady w p) = p_kills p" "stopping (onReady w p) = stopping p"
  "length (p_slots (onReady w p)) = length (p_slots p)"
  by (auto simp: onReady_def Let_def set_slot_def stopping_def)

lemma onReady_base:
  assumes "base_inv x p" "w < length (p_forked p)"
  shows "base_inv x (onReady w p)"
proof -
  have i: "p_forked p ! w < length (p_slots p)" using assms by (auto simp: base_inv_def intro: home_slot)
  have "slot_ok p (p_forked p ! w) (slot_at (p_forked p ! w) p)"
    using assms i by (auto simp: base_inv_def intro: slot_okD)
  then have "slots_ok (set_slot (p_forked p ! w) ((slot_at (p_forked p ! w) p)\<lparr>cs_ready := True\<rparr>) p)"
    if "cs_worker (slot_at (p_forked p ! w) p) = Some w"
    using assms that by (intro slots_ok_set_slot) (auto simp: base_inv_def slot_ok_def)
  then have "slots_ok (onReady w p)"
    using assms by (simp add: onReady_def Let_def base_inv_def)
  moreover have "owned x (onReady w p)"
    using assms by (simp add: owned_def onReady_serving base_inv_def)
  moreover have "workers_ok (onReady w p)" "replies_ok (onReady w p)"
    using assms by (auto simp: onReady_def Let_def base_inv_def workers_ok_def replies_ok_def set_slot_def stopping_def)
  ultimately show ?thesis by (simp add: base_inv_def)
qed

lemma onReady_inv:
  assumes "primary_inv p" "w < length (p_forked p)"
  shows "primary_inv (onReady w p)"
proof -
  have "workers_ok p" "base_inv (roll_worker p) p" using assms by (auto simp: primary_inv_def base_inv_def)
  then show ?thesis using assms
    by (intro primary_inv_cong [OF assms(1)])
      (auto simp: onReady_base wait_ok_def onReady_serving split: roll_wait.splits)
qed

lemma primary_inv_roll:
  assumes "primary_inv p" "p_roll p = Some r"
  shows "base_inv (Some (waited_worker (r_wait r))) p" "roll_progress p r" "wait_ok p (r_slot r) (r_wait r)"
    "waited_worker (r_wait r) \<in> set (p_live p)" "waited_worker (r_wait r) < length (p_forked p)"
    "\<not> serving p (waited_worker (r_wait r))"
  using assms by (auto simp: primary_inv_def roll_worker_def wait_ok_def base_inv_def workers_ok_def)

lemma wait_ready_facts:
  assumes "primary_inv p" "p_roll p = Some r" "r_wait r = Wait_ready w t"
  shows "base_inv (Some w) p" "roll_progress p r" "w \<in> set (p_live p)" "w < length (p_forked p)" "\<not> serving p w"
    "p_forked p ! w = r_slot r" "w \<in> set (p_told p) \<longrightarrow> stopping p"
  using primary_inv_roll [OF assms(1,2)] assms(3) by (auto simp: wait_ok_def)

lemma roll_hears_ready_inv: "primary_inv p \<Longrightarrow> primary_inv (roll_hears_ready w p)"
  by (auto simp: roll_hears_ready_def wait_ready_facts intro!: ready_settled_inv split: option.splits roll_wait.splits)

lemma ready_timeout_inv: "primary_inv p \<Longrightarrow> primary_inv (ready_timeout p)"
  by (auto simp: ready_timeout_def wait_ready_facts intro!: ready_settled_inv split: option.splits roll_wait.splits)

lemma killed_owned: "base_inv (Some w) p \<Longrightarrow> w \<in> set (p_kills p) \<Longrightarrow> base_inv None p"
  by (auto simp: base_inv_def owned_def)

lemma kill_settled_inv:
  assumes "primary_inv p"
  shows "primary_inv (kill_settled p)"
proof (cases "p_roll p")
  case (Some r)
  note facts = primary_inv_roll [OF assms Some]
  show ?thesis
  proof (cases "r_wait r")
    case (Drop_incoming w why k)
    then show ?thesis using Some facts assms
      by (auto simp: kill_settled_def wait_ok_def intro!: incoming_stopped_inv intro: killed_owned split: bool.splits)
  next
    case (Drain_previous j w a b k)
    then show ?thesis using Some facts assms
      by (auto simp: kill_settled_def wait_ok_def intro!: previous_stopped_inv intro: killed_owned split: bool.splits)
  qed (use Some assms in \<open>simp add: kill_settled_def\<close>)
qed (use assms in \<open>simp add: kill_settled_def\<close>)

lemma stop_deadline_inv:
  assumes "primary_inv p"
  shows "primary_inv (stop_deadline p)"
proof (cases "p_roll p")
  case (Some r)
  note facts = primary_inv_roll [OF assms Some]
  have kills: "waited_worker (r_wait r) \<in> set (p_kills (killAtDeadline (waited_worker (r_wait r)) p))"
    using facts by (simp add: killAtDeadline_def)
  have base: "base_inv (Some (waited_worker (r_wait r))) (killAtDeadline (waited_worker (r_wait r)) p)"
    using facts by (intro killAtDeadline_inv)
  show ?thesis
  proof (cases "r_wait r")
    case (Drop_incoming w why k)
    then show ?thesis using Some facts assms kills base
      by (cases k) (auto simp: stop_deadline_def Let_def primary_inv_def roll_worker_def wait_ok_def roll_progress_def serving_def slot_at_def)
  next
    case (Drain_previous j w a b k)
    then show ?thesis using Some facts assms kills base
      by (cases k) (auto simp: stop_deadline_def Let_def primary_inv_def roll_worker_def wait_ok_def roll_progress_def serving_def slot_at_def)
  qed (use Some assms in \<open>simp add: stop_deadline_def\<close>)
qed (use assms in \<open>simp add: stop_deadline_def\<close>)

text \<open>A worker that exits leaves its slot to the restart timer; every other slot keeps its worker.\<close>

definition without_worker :: "nat \<Rightarrow> primary \<Rightarrow> primary" where
  "without_worker w p = p\<lparr>p_live := removeAll w (p_live p), p_connected := removeAll w (p_connected p)\<rparr>"

lemma without_worker_sel [simp]:
  "p_slots (without_worker w p) = p_slots p" "p_forked (without_worker w p) = p_forked p"
  "p_told (without_worker w p) = p_told p" "p_roll (without_worker w p) = p_roll p"
  "p_kills (without_worker w p) = p_kills p" "stopping (without_worker w p) = stopping p"
  "slot_at i (without_worker w p) = slot_at i p" "serving (without_worker w p) = serving p"
  "p_live (without_worker w p) = removeAll w (p_live p)" "replies_ok (without_worker w p) = replies_ok p"
  "p_now (without_worker w p) = p_now p" "p_shutdown (without_worker w p) = p_shutdown p"
  by (auto simp: without_worker_def stopping_def slot_at_def serving_def replies_ok_def)

lemma without_worker_ok:
  "workers_ok p \<Longrightarrow> workers_ok (without_worker w p)"
  by (auto simp: workers_ok_def without_worker_def stopping_def distinct_removeAll)

lemma without_worker_slot:
  "slot_ok p i s \<Longrightarrow> cs_worker s \<noteq> Some w \<Longrightarrow> slot_ok (without_worker w p) i s"
  by (auto simp: slot_ok_def)

text \<open>The slot an exit leaves behind.\<close>

definition exited_slot :: "primary \<Rightarrow> cluster_slot \<Rightarrow> cluster_slot" where
  "exited_slot p s = (if stopping p then s\<lparr>cs_worker := None, cs_ready := False\<rparr>
     else s\<lparr>cs_worker := None, cs_ready := False,
       cs_restartDelayMs := Some (nextWorkerRestartDelayMs (cs_restartDelayMs s) (p_now p - cs_startedAt s)),
       cs_restartTimer := True\<rparr>)"

definition after_exit :: "nat \<Rightarrow> primary \<Rightarrow> primary" where
  "after_exit w p = (if serving p w
     then set_slot (p_forked p ! w) (exited_slot p (slot_at (p_forked p ! w) p)) (without_worker w p)
     else without_worker w p)"

lemma onExit_after:
  assumes "p_forked p ! w < length (p_slots p)"
  shows "onExit w p = (if stopping p \<and> p_live (after_exit w p) = [] then onAllStopped (after_exit w p) else after_exit w p)"
  using assms by (auto simp: onExit_def Let_def after_exit_def exited_slot_def serving_def without_worker_def slot_at_def
      set_slot_def stopping_def nth_list_update)

lemma exited_slot_ok:
  assumes "slot_ok p i s"
  shows "slot_ok (without_worker w p) i (exited_slot p s)"
proof -
  have "cs_restartDelayMs s = None \<or> (\<exists>d. cs_restartDelayMs s = Some d \<and> 1000 \<le> d \<and> d \<le> 15000)"
    using assms by (cases "cs_restartDelayMs s") (auto simp: slot_ok_def)
  from restart_delay_bounds [OF this] show ?thesis using assms by (simp add: slot_ok_def exited_slot_def)
qed

lemma after_exit_base:
  assumes base: "base_inv x p" and w: "w < length (p_forked p)"
  shows "base_inv (if x = Some w then None else x) (after_exit w p)"
proof -
  let ?i = "p_forked p ! w"
  have ok: "workers_ok p" "slots_ok p" "owned x p" "replies_ok p" using base by (auto simp: base_inv_def)
  have i: "?i < length (p_slots p)" using ok w by (auto intro: home_slot)
  have slots: "slots_ok (after_exit w p)"
  proof (cases "serving p w")
    case True
    then have "slot_ok (without_worker w p) ?i (exited_slot p (slot_at ?i p))"
      using ok i by (intro exited_slot_ok slot_okD) auto
    moreover have "slot_ok (without_worker w p) j (p_slots p ! j)" if "j < length (p_slots p)" "j \<noteq> ?i" for j
      using ok that by (intro without_worker_slot) (auto simp: slots_ok_def slot_ok_def)
    ultimately show ?thesis using True
      by (simp add: slots_ok_def after_exit_def nth_set_slot)
  next
    case False
    moreover have "slot_ok (without_worker w p) j (p_slots p ! j)" if "j < length (p_slots p)" for j
      using ok that False i by (intro without_worker_slot) (auto simp: slots_ok_def slot_ok_def serving_def slot_at_def)
    ultimately show ?thesis by (simp add: slots_ok_def after_exit_def)
  qed
  have "serving (after_exit w p) v" if "serving p v" "v \<noteq> w" for v
    using that i by (auto simp: after_exit_def serving_set_slot) (auto simp: serving_def)
  then have "owned (if x = Some w then None else x) (after_exit w p)"
    using ok by (auto simp: owned_def after_exit_def split: if_splits)
  then show ?thesis using slots ok without_worker_ok [OF ok(1), of w]
    by (simp add: base_inv_def after_exit_def)
qed

lemma onAllStopped_sel [simp]:
  "p_slots (onAllStopped p) = p_slots p" "p_forked (onAllStopped p) = p_forked p" "p_live (onAllStopped p) = p_live p"
  "p_told (onAllStopped p) = p_told p" "p_roll (onAllStopped p) = p_roll p" "p_kills (onAllStopped p) = p_kills p"
  "stopping (onAllStopped p) = stopping p" "serving (onAllStopped p) = serving p"
  "replies_ok (onAllStopped p) = replies_ok p" "owned x (onAllStopped p) = owned x p" "slots_ok (onAllStopped p) = slots_ok p"
  by (auto simp: onAllStopped_def stopping_def serving_def slot_at_def replies_ok_def owned_def slots_ok_def slot_ok_def
      split: shutdown_state.splits)

lemma onAllStopped_base: "base_inv x p \<Longrightarrow> p_live p = [] \<Longrightarrow> base_inv x (onAllStopped p)"
  by (auto simp: base_inv_def) (auto simp: workers_ok_def onAllStopped_def stopping_def split: shutdown_state.splits)

lemma onExit_base:
  assumes "base_inv x p" "w < length (p_forked p)"
  shows "base_inv (if x = Some w then None else x) (onExit w p)"
proof -
  have "p_forked p ! w < length (p_slots p)" using assms by (auto simp: base_inv_def intro: home_slot)
  then show ?thesis using after_exit_base [OF assms] by (simp add: onExit_after onAllStopped_base)
qed

lemma onExit_sel:
  assumes "p_forked p ! w < length (p_slots p)"
  shows "p_live (onExit w p) = removeAll w (p_live p)" "p_forked (onExit w p) = p_forked p"
    "p_told (onExit w p) = p_told p" "p_roll (onExit w p) = p_roll p" "p_kills (onExit w p) = p_kills p"
    "stopping (onExit w p) = stopping p" "length (p_slots (onExit w p)) = length (p_slots p)"
    "\<not> serving p v \<Longrightarrow> \<not> serving (onExit w p) v" "\<not> serving (onExit w p) w"
  using assms by (auto simp: onExit_after after_exit_def serving_set_slot exited_slot_def)

lemma worker_exits_inv:
  assumes inv: "primary_inv p" and w: "w \<in> set (p_live p)"
  shows "primary_inv (roll_hears_exit w (onExit w p))"
proof -
  have wk: "workers_ok p" "base_inv (roll_worker p) p" using inv by (auto simp: primary_inv_def base_inv_def)
  have len: "w < length (p_forked p)" using wk w by (auto simp: workers_ok_def)
  note sel = onExit_sel [OF home_slot [OF wk(1) len]]
  note base = onExit_base [OF wk(2) len]
  show ?thesis
  proof (cases "p_roll p")
    case None
    then show ?thesis using base sel by (simp add: roll_hears_exit_def primary_inv_no_roll roll_worker_def)
  next
    case (Some r)
    note facts = primary_inv_roll [OF inv Some]
    have prog: "roll_progress (onExit w p) r" using facts sel by (simp add: roll_progress_def)
    show ?thesis
    proof (cases "waited_worker (r_wait r) = w")
      case True
      then have b: "base_inv None (onExit w p)" using base Some by (simp add: roll_worker_def)
      show ?thesis
      proof (cases "r_wait r")
        case (Wait_ready v t)
        then show ?thesis using Some True b facts sel prog wait_ready_facts [OF inv Some Wait_ready]
          by (auto simp: roll_hears_exit_def intro!: ready_settled_inv)
      qed (use Some True b prog sel in \<open>simp_all add: roll_hears_exit_def incoming_stopped_inv previous_stopped_inv\<close>)
    next
      case False
      then have "roll_hears_exit w (onExit w p) = onExit w p"
        using Some sel by (auto simp: roll_hears_exit_def split: roll_wait.splits)
      moreover have "wait_ok (onExit w p) (r_slot r) (r_wait r)"
        using facts(3) False sel by (auto simp: wait_ok_def split: roll_wait.splits)
      ultimately show ?thesis using Some base prog False sel by (simp add: primary_inv_def roll_worker_def)
    qed
  qed
qed

lemma fork_slots_ok: "slots_ok p \<Longrightarrow> workers_ok p \<Longrightarrow> slots_ok (fork i p)"
  by (auto simp: slots_ok_def slot_ok_def workers_ok_def fork_def stopping_def nth_append)

lemma fork_workers_ok: "workers_ok p \<Longrightarrow> i < length (p_slots p) \<Longrightarrow> \<not> stopping p \<Longrightarrow> workers_ok (fork i p)"
  by (auto simp: workers_ok_def fork_def stopping_def)

lemma fork_sel [simp]:
  "p_slots (fork i p) = p_slots p" "p_told (fork i p) = p_told p" "p_kills (fork i p) = p_kills p"
  "p_roll (fork i p) = p_roll p" "stopping (fork i p) = stopping p" "replies_ok (fork i p) = replies_ok p"
  "p_live (fork i p) = p_live p @ [length (p_forked p)]" "p_forked (fork i p) = p_forked p @ [i]"
  by (auto simp: fork_def stopping_def replies_ok_def)

lemma serving_fork: "w < length (p_forked p) \<Longrightarrow> serving (fork i p) w = serving p w"
  by (simp add: serving_def slot_at_def nth_append)

lemma restart_fires_start:
  "\<not> stopping p \<Longrightarrow> i < length (p_slots p) \<Longrightarrow> restart_fires i p = set_slot i ((slot_at i p)\<lparr>cs_restartTimer := False,
     cs_worker := Some (length (p_forked p)), cs_startedAt := p_now p, cs_ready := False\<rparr>) (fork i p)"
  by (simp add: restart_fires_def Let_def startInSlot_def set_slot_def slot_at_def fork_def stopping_def)

lemma restart_fires_inv:
  assumes inv: "primary_inv p" and i: "i < length (p_slots p)" "cs_restartTimer (slot_at i p)"
  shows "primary_inv (restart_fires i p)"
proof -
  have wk: "workers_ok p" "slots_ok p" "owned (roll_worker p) p" "replies_ok p"
    using inv by (auto simp: primary_inv_def base_inv_def)
  note slot = slot_okD [OF wk(2) i(1)]
  have free: "\<not> stopping p" "cs_worker (slot_at i p) = None"
    using slot i by (cases "cs_worker (slot_at i p)"; auto simp: slot_ok_def)+
  note eq = restart_fires_start [OF free(1) i(1)]
  have new: "length (p_forked p) \<notin> set (p_told p)" "length (p_forked p) \<notin> set (p_live p)" using wk by (auto simp: workers_ok_def)
  have "slots_ok (restart_fires i p)" unfolding eq
    using slot free new fork_slots_ok [OF wk(2,1)] by (intro slots_ok_set_slot) (auto simp: slot_ok_def)
  moreover have serv: "serving (restart_fires i p) w \<longleftrightarrow> w = length (p_forked p) \<or> serving p w"
    if "w \<in> set (p_live (fork i p))" for w
    using that free i wk(1)
    by (auto simp: eq serving_set_slot serving_fork workers_ok_def) (auto simp: serving_def nth_append split: if_splits)
  then have "owned (roll_worker p) (restart_fires i p)" using wk(3) by (auto simp: owned_def eq)
  ultimately have base: "base_inv (roll_worker p) (restart_fires i p)"
    using wk i free by (simp add: base_inv_def eq fork_workers_ok)
  have "wait_ok (restart_fires i p) j u" if "wait_ok p j u" for j u
  proof -
    have "waited_worker u < length (p_forked p)" using that wk(1) by (auto simp: wait_ok_def workers_ok_def)
    then show ?thesis using that serv [of "waited_worker u"] new
      by (cases u) (auto simp: wait_ok_def eq nth_append)
  qed
  then show ?thesis using inv base by (auto simp: primary_inv_def roll_worker_def roll_progress_def eq)
qed

section \<open>Shutdown keeps the invariant\<close>

lemma fold_tell:
  "foldl (\<lambda>r w. tellToStop w r) p ws = p\<lparr>p_told := p_told (foldl (\<lambda>r w. tellToStop w r) p ws)\<rparr>
   \<and> set (p_told (foldl (\<lambda>r w. tellToStop w r) p ws)) = set (p_told p) \<union> (set ws \<inter> set (p_connected p))
   \<and> (distinct (p_told p) \<longrightarrow> distinct (p_told (foldl (\<lambda>r w. tellToStop w r) p ws)))"
proof (induction ws arbitrary: p)
  case (Cons w ws)
  have "tellToStop w p = p\<lparr>p_told := p_told (tellToStop w p)\<rparr>"
    "set (p_told (tellToStop w p)) = set (p_told p) \<union> ({w} \<inter> set (p_connected p))"
    "distinct (p_told p) \<longrightarrow> distinct (p_told (tellToStop w p))"
    by (auto simp: tellToStop_def)
  with Cons [of "tellToStop w p"] show ?case by (auto; metis (no_types, lifting) primary.surjective primary.update_convs(5))
qed simp

text \<open>Clearing the timers and beginning to stop.\<close>

definition begin_stop :: "primary \<Rightarrow> primary" where
  "begin_stop p = p\<lparr>p_slots := map (\<lambda>s. s\<lparr>cs_restartTimer := False\<rparr>) (p_slots p), p_shutdown := Stopping_workers\<rparr>"

lemma shutdown_told:
  assumes "\<not> stopping p" "p_live p \<noteq> []"
  shows "\<exists>told. shutdown p = (begin_stop p)\<lparr>p_told := told\<rparr>
    \<and> set told = set (p_told p) \<union> (set (p_live p) \<inter> set (p_connected p)) \<and> (distinct (p_told p) \<longrightarrow> distinct told)"
proof -
  have "shutdown p = foldl (\<lambda>r w. tellToStop w r) (begin_stop p) (p_live p)"
    using assms by (simp add: shutdown_def begin_stop_def Let_def)
  then show ?thesis using fold_tell [of "begin_stop p" "p_live p"]
    by (intro exI [of _ "p_told (shutdown p)"]) (simp add: begin_stop_def)
qed

lemma serving_begin_stop: "workers_ok p \<Longrightarrow> w < length (p_forked p) \<Longrightarrow> serving (begin_stop p) w = serving p w"
  using home_slot [of p w] by (simp add: serving_def slot_at_def begin_stop_def)

lemma shutdown_inv:
  assumes inv: "primary_inv p"
  shows "primary_inv (shutdown p)"
proof (cases "stopping p")
  case False
  have wk: "workers_ok p" "slots_ok p" "owned (roll_worker p) p" "replies_ok p"
    using inv by (auto simp: primary_inv_def base_inv_def)
  show ?thesis
  proof (cases "p_live p = []")
    case True
    then have "p_roll p = None" using inv by (auto simp: primary_inv_def wait_ok_def)
    then show ?thesis using True False wk
      by (auto simp: shutdown_def Let_def primary_inv_no_roll base_inv_def slots_ok_def slot_ok_def workers_ok_def
          owned_def replies_ok_def stopping_def)
  next
    case live: False
    obtain told where eq: "shutdown p = (begin_stop p)\<lparr>p_told := told\<rparr>"
      and told: "set told = set (p_told p) \<union> (set (p_live p) \<inter> set (p_connected p))" "distinct (p_told p) \<longrightarrow> distinct told"
      using shutdown_told [OF False live] by blast
    have stop: "stopping (shutdown p)" by (simp add: eq begin_stop_def stopping_def)
    have serv: "serving (shutdown p) w = serving p w" if "w < length (p_forked p)" for w
      using serving_begin_stop [OF wk(1) that] by (simp add: eq serving_def slot_at_def)
    have "slots_ok (shutdown p)"
      using wk(2) False stop by (auto simp: slots_ok_def slot_ok_def eq begin_stop_def)
    moreover have "workers_ok (shutdown p)"
      using wk(1) told by (auto simp: workers_ok_def eq begin_stop_def)
    moreover have "owned (roll_worker p) (shutdown p)"
      using wk(3,1) serv by (auto simp: owned_def workers_ok_def) (auto simp: eq begin_stop_def)
    moreover have "replies_ok (shutdown p)" using wk(4) by (simp add: replies_ok_def eq begin_stop_def)
    moreover have "wait_ok (shutdown p) j u" if "wait_ok p j u" for j u
    proof -
      have "waited_worker u < length (p_forked p)" using that wk(1) by (auto simp: wait_ok_def workers_ok_def)
      then show ?thesis using that serv [of "waited_worker u"] stop
        by (cases u) (auto simp: wait_ok_def eq begin_stop_def)
    qed
    ultimately show ?thesis using inv
      by (auto simp: primary_inv_def roll_worker_def roll_progress_def base_inv_def) (auto simp: eq begin_stop_def)
  qed
qed (use inv in \<open>simp add: shutdown_def\<close>)

lemma killAtDeadline_primary: "primary_inv p \<Longrightarrow> primary_inv (killAtDeadline w p)"
proof (rule primary_inv_cong)
  assume "primary_inv p"
  then show "base_inv (roll_worker p) (killAtDeadline w p)" by (simp add: primary_inv_def killAtDeadline_inv)
qed (auto simp: wait_ok_def killAtDeadline_def serving_def slot_at_def stopping_def split: roll_wait.splits)

interpretation killing: event_system "\<lambda>r w. killAtDeadline w r" primary_inv
  by unfold_locales (rule killAtDeadline_primary)

text \<open>Steps that change nothing the invariant reads but the shutdown phase, the time or the channels.\<close>

definition same_workers :: "primary \<Rightarrow> primary \<Rightarrow> bool" where
  "same_workers p q \<longleftrightarrow> p_slots q = p_slots p \<and> p_forked q = p_forked p \<and> p_live q = p_live p \<and> p_told q = p_told p
     \<and> p_kills q = p_kills p \<and> p_roll q = p_roll p \<and> p_replies q = p_replies p \<and> stopping q = stopping p
     \<and> set (p_connected q) \<subseteq> set (p_connected p)
     \<and> (p_shutdown q \<in> {Settling False, Exited 0} \<longrightarrow> p_shutdown p \<in> {Settling False, Exited 0})"

lemma same_workers_inv:
  assumes "primary_inv p" "same_workers p q"
  shows "primary_inv q"
proof (rule primary_inv_cong [OF assms(1)])
  show "base_inv (roll_worker p) q"
    using assms by (auto simp: primary_inv_def base_inv_def slots_ok_def slot_ok_def workers_ok_def owned_def serving_def
        slot_at_def replies_ok_def same_workers_def)
qed (use assms in \<open>auto simp: same_workers_def wait_ok_def serving_def slot_at_def split: roll_wait.splits\<close>)

lemma same_workers_steps:
  "same_workers p (p\<lparr>p_now := t\<rparr>)" "same_workers p (p\<lparr>p_connected := removeAll w (p_connected p)\<rparr>)"
  "same_workers p (shutdown_settle p)" "same_workers p (finish_shutdown p)"
  "p_shutdown p = Stopping_workers \<Longrightarrow> same_workers p (p\<lparr>p_shutdown := Killed_workers\<rparr>)"
  by (auto simp: same_workers_def stopping_def shutdown_settle_def finish_shutdown_def split: shutdown_state.splits)

lemma shutdown_deadline_inv: "primary_inv p \<Longrightarrow> primary_inv (shutdown_deadline p)"
  by (auto simp: shutdown_deadline_def intro!: killing.inv_run same_workers_inv [OF _ same_workers_steps(5)])

lemma rejected_inv: "primary_inv p \<Longrightarrow> primary_inv (reply (Rejected q reason m) p)"
  by (rule primary_inv_cong) (auto simp: primary_inv_def wait_ok_def reply_def serving_def slot_at_def stopping_def
      base_inv_reply [unfolded reply_def] split: roll_wait.splits)

lemma rollingRestart_inv:
  assumes "primary_inv p"
  shows "primary_inv (rollingRestart requestId p)"
proof (cases "rejectReason p")
  case None
  then have "p_roll p = None" by (auto simp: rejectReason_def split: if_splits)
  then have "base_inv None p" using assms by (simp add: primary_inv_no_roll)
  then show ?thesis using None by (auto simp: rollingRestart_def Let_def intro!: roll_next_inv)
next
  case (Some reason)
  then show ?thesis using assms by (simp add: rollingRestart_def rejected_inv)
qed

lemma event_step_inv:
  assumes "primary_inv p"
  shows "primary_inv (primary_event_step p e)"
proof (cases e)
  case (Parent_says m)
  then show ?thesis using assms
    by (auto simp: parent_message_def shutdown_inv rollingRestart_inv split: option.splits)
qed (use assms in \<open>auto simp: onReady_inv roll_hears_ready_inv worker_exits_inv restart_fires_inv shutdown_inv
      ready_timeout_inv stop_deadline_inv kill_settled_inv shutdown_deadline_inv
      intro: same_workers_inv [OF _ same_workers_steps(1)] same_workers_inv [OF _ same_workers_steps(2)]
        same_workers_inv [OF _ same_workers_steps(3)] same_workers_inv [OF _ same_workers_steps(4)]\<close>)

lemma primary_step_inv: "primary_inv p \<Longrightarrow> primary_inv (primary_step p e)"
  by (simp add: primary_step_def event_step_inv split: shutdown_state.splits)

interpretation running: event_system primary_step primary_inv
  by unfold_locales (rule primary_step_inv)

section \<open>The start\<close>

definition fresh_slot :: "string \<Rightarrow> nat \<Rightarrow> int \<Rightarrow> nat \<Rightarrow> nat \<Rightarrow> cluster_slot" where
  "fresh_slot primaryInstance workers now started slot =
     \<lparr>cs_slot = slot, cs_instance = workerInstanceLabel primaryInstance workers slot,
      cs_worker = (if slot < started then Some slot else None), cs_startedAt = (if slot < started then now else 0),
      cs_ready = False, cs_restartDelayMs = None, cs_restartTimer = False\<rparr>"

lemma fold_start:
  "k \<le> n \<Longrightarrow> foldl (\<lambda>q i. startInSlot i q) (new_primary pi n d r now) [0..<k] =
     (new_primary pi n d r now)\<lparr>p_slots := map (fresh_slot pi n now k) [0..<n], p_forked := [0..<k], p_live := [0..<k],
        p_connected := [0..<k]\<rparr>"
proof (induction k)
  case 0
  then show ?case by (simp add: new_primary_def fresh_slot_def)
next
  case (Suc k)
  then have "(map (fresh_slot pi n now k) [0..<n])[k := fresh_slot pi n now (Suc k) k] = map (fresh_slot pi n now (Suc k)) [0..<n]"
    by (intro nth_equalityI) (auto simp: nth_list_update fresh_slot_def)
  moreover have "(fresh_slot pi n now k k)\<lparr>cs_worker := Some k, cs_startedAt := now, cs_ready := False\<rparr> = fresh_slot pi n now (Suc k) k"
    by (simp add: fresh_slot_def)
  ultimately show ?case using Suc by (simp add: startInSlot_def fork_def set_slot_def slot_at_def new_primary_def)
qed

lemma start_eq: "start (new_primary pi n d r now) =
    (new_primary pi n d r now)\<lparr>p_slots := map (fresh_slot pi n now n) [0..<n], p_forked := [0..<n], p_live := [0..<n],
      p_connected := [0..<n]\<rparr>"
proof -
  have "length (p_slots (new_primary pi n d r now)) = n" by (simp add: new_primary_def)
  then show ?thesis by (simp add: start_def fold_start)
qed

lemma start_inv: "primary_inv (start (new_primary pi n d r now))"
  unfolding start_eq
  by (simp add: new_primary_def primary_inv_no_roll base_inv_def slots_ok_def slot_ok_def workers_ok_def
      owned_def replies_ok_def serving_def slot_at_def stopping_def fresh_slot_def)

section \<open>Ready slots stay ready\<close>

definition ready_at :: "nat \<Rightarrow> primary \<Rightarrow> bool" where
  "ready_at i p \<longleftrightarrow> i < length (p_slots p) \<and> cs_ready (p_slots p ! i)"

definition keeps :: "primary \<Rightarrow> primary \<Rightarrow> bool" where
  "keeps p q \<longleftrightarrow> length (p_slots q) = length (p_slots p) \<and> (\<forall>i. ready_at i p \<longrightarrow> ready_at i q)"

lemma keeps_same_slots: "p_slots q = p_slots p \<Longrightarrow> keeps p q"
  by (simp add: keeps_def ready_at_def)

lemma keeps_trans: "keeps p q \<Longrightarrow> keeps q r \<Longrightarrow> keeps p r"
  by (simp add: keeps_def)

lemma keeps_set_slot: "cs_ready s \<Longrightarrow> keeps p (set_slot i s p)"
  by (auto simp: keeps_def ready_at_def nth_set_slot)

lemma roll_slots [simp]:
  "p_slots (roll_failed r reason p) = p_slots p" "p_slots (roll_next r p) = p_slots p"
  "p_slots (previous_stopped r w v a b k p) = p_slots p" "p_slots (incoming_stopped r why p) = p_slots p"
  by (auto simp: roll_failed_def roll_next_def previous_stopped_def incoming_stopped_def Let_def split: option.splits)

lemma take_over_keeps: "keeps p (take_over r w t p)"
proof -
  let ?q = "set_slot (r_slot r) ((slot_at (r_slot r) p)\<lparr>cs_restartTimer := False, cs_worker := Some w,
      cs_startedAt := t, cs_ready := True, cs_restartDelayMs := None\<rparr>) p"
  have "p_slots (take_over r w t p) = p_slots ?q" by (auto simp: take_over_def Let_def split: option.splits)
  moreover have "keeps p ?q" by (rule keeps_set_slot) simp
  ultimately show ?thesis by (simp add: keeps_def ready_at_def)
qed

lemma ready_settled_keeps: "keeps p (ready_settled r w t why p)"
  by (auto simp: ready_settled_def take_over_keeps Let_def keeps_same_slots)

lemma roll_hears_keeps: "keeps p (roll_hears_ready w p)" "keeps p (roll_hears_exit w p)" "keeps p (ready_timeout p)"
  "keeps p (stop_deadline p)" "keeps p (kill_settled p)"
  by (auto simp: roll_hears_ready_def roll_hears_exit_def ready_timeout_def stop_deadline_def kill_settled_def Let_def
      ready_settled_keeps keeps_same_slots split: option.splits roll_wait.splits bool.splits)

lemma onReady_keeps: "keeps p (onReady w p)"
proof -
  have "keeps p (set_slot (p_forked p ! w) ((slot_at (p_forked p ! w) p)\<lparr>cs_ready := True\<rparr>) p)"
    by (rule keeps_set_slot) simp
  then show ?thesis by (auto simp: onReady_def Let_def keeps_def ready_at_def)
qed

lemma fold_kill_slots: "p_slots (foldl (\<lambda>r w. killAtDeadline w r) p ws) = p_slots p"
  by (induction ws arbitrary: p) simp_all

lemma shutdown_keeps: "keeps p (shutdown p)"
  using shutdown_told [of p]
  by (cases "stopping p"; cases "p_live p = []")
    (auto simp: shutdown_def Let_def keeps_def ready_at_def begin_stop_def)

lemma rollingRestart_slots: "p_slots (rollingRestart q p) = p_slots p"
  by (simp add: rollingRestart_def Let_def split: option.splits)

lemma onExit_ready:
  assumes "p_forked p ! w < length (p_slots p)" "ready_at i p" "cs_worker (p_slots p ! i) \<noteq> Some w"
  shows "ready_at i (onExit w p)"
  using assms by (auto simp: onExit_after after_exit_def ready_at_def nth_set_slot serving_def slot_at_def)

lemma event_step_keeps:
  assumes inv: "primary_inv p"
  shows "length (p_slots (primary_event_step p e)) = length (p_slots p)
    \<and> (ready_at i p \<longrightarrow> ready_at i (primary_event_step p e) \<or> (\<exists>w. e = Worker_exits w \<and> cs_worker (p_slots p ! i) = Some w))"
proof (cases e)
  case (Worker_says_ready w)
  then show ?thesis using keeps_trans [OF onReady_keeps [of p w] roll_hears_keeps(1) [of "onReady w p" w]]
    by (simp add: keeps_def)
next
  case (Worker_exits w)
  show ?thesis
  proof (cases "w \<in> set (p_live p)")
    case True
    then have home: "p_forked p ! w < length (p_slots p)"
      using inv by (auto simp: primary_inv_def base_inv_def workers_ok_def)
    show ?thesis using Worker_exits True roll_hears_keeps(2) [of "onExit w p" w] onExit_ready [OF home, of i] onExit_sel(7) [OF home]
      by (auto simp: keeps_def)
  qed (simp add: Worker_exits)
next
  case (Restart_fires j)
  have "cs_worker (slot_at j p) = None" "\<not> cs_ready (slot_at j p)" "\<not> stopping p"
    if "j < length (p_slots p)" "cs_restartTimer (slot_at j p)"
    using inv slot_okD [of p j] that
    by (cases "cs_worker (slot_at j p)"; auto simp: primary_inv_def base_inv_def slot_ok_def)+
  then show ?thesis using Restart_fires
    by (auto simp: restart_fires_start ready_at_def nth_set_slot slot_at_def)
next
  case (Parent_says m)
  then show ?thesis using shutdown_keeps [of p]
    by (auto simp: parent_message_def rollingRestart_slots keeps_def ready_at_def split: option.splits)
next
  case Signal_received
  then show ?thesis using shutdown_keeps [of p] by (simp add: keeps_def)
next
  case Shutdown_timer
  then show ?thesis by (simp add: shutdown_deadline_def fold_kill_slots ready_at_def)
next
  case Settle_timer
  then show ?thesis by (simp add: shutdown_settle_def ready_at_def)
next
  case Roll_settles
  then show ?thesis by (simp add: finish_shutdown_def ready_at_def split: shutdown_state.splits)
qed (use roll_hears_keeps(3-5) [of p] in \<open>auto simp: keeps_def ready_at_def\<close>)

lemma primary_step_keeps:
  assumes "primary_inv p"
  shows "length (p_slots (primary_step p e)) = length (p_slots p)"
    "ready_at i p \<Longrightarrow> ready_at i (primary_step p e) \<or> (\<exists>w. e = Worker_exits w \<and> cs_worker (p_slots p ! i) = Some w)"
  using event_step_keeps [OF assms, of e i] by (auto simp: primary_step_def split: shutdown_state.splits)

lemma primary_run_length: "primary_inv p \<Longrightarrow> length (p_slots (foldl primary_step p es)) = length (p_slots p)"
  by (rule running.run_constant) (simp_all add: primary_step_keeps)

lemma unkilled_bound:
  assumes "base_inv x p"
  shows "length (filter (\<lambda>w. w \<notin> set (p_kills p)) (p_live p)) \<le> length (p_slots p) + 1"
proof -
  have wk: "workers_ok p" "owned x p" using assms by (auto simp: base_inv_def)
  let ?S = "{w \<in> set (p_live p). serving p w}"
  have "inj_on ((!) (p_forked p)) ?S"
  proof (rule inj_onI)
    fix v w
    assume "v \<in> ?S" "w \<in> ?S" and eq: "p_forked p ! v = p_forked p ! w"
    then have "cs_worker (slot_at (p_forked p ! w) p) = Some v" "cs_worker (slot_at (p_forked p ! w) p) = Some w"
      by (simp_all add: serving_def)
    then show "v = w" by simp
  qed
  moreover have "(!) (p_forked p) ` ?S \<subseteq> {..<length (p_slots p)}"
    using wk(1) home_slot [OF wk(1)] by (auto simp: workers_ok_def)
  ultimately have "card ?S \<le> card {..<length (p_slots p)}" by (rule card_inj_on_le) simp
  moreover have "set (filter (\<lambda>w. w \<notin> set (p_kills p)) (p_live p)) \<subseteq> ?S \<union> set_option x"
    using wk(2) by (auto simp: owned_def)
  then have "card (set (filter (\<lambda>w. w \<notin> set (p_kills p)) (p_live p))) \<le> card (?S \<union> set_option x)"
    by (rule card_mono [rotated]) simp
  moreover have "card (?S \<union> set_option x) \<le> card ?S + card (set_option x)" by (rule card_Un_le)
  moreover have "card (set_option x) \<le> 1" by (cases x) simp_all
  moreover have "distinct (filter (\<lambda>w. w \<notin> set (p_kills p)) (p_live p))" using wk by (simp add: workers_ok_def)
  ultimately show ?thesis by (simp add: distinct_card [symmetric])
qed

section \<open>Properties\<close>

text \<open>
  C5: a rolling restart, crashes and a shutdown never leave a slot behind. In every run of an in-app
  cluster primary: a ready slot is served by a live worker that was not told to stop unless the whole
  primary is shutting down; a slot without a worker has its restart timer set unless it is shutting down;
  a worker gets the shutdown message at most once; at most one process more than there are slots runs,
  killed ones aside; the primary exits with code 0 only after every worker has exited; a rolling
  restart that reports success has replaced every slot once, in order; and the next event takes a ready
  slot out of service only when the worker serving it exits.
\<close>

theorem rolling_restart_keeps_serving:
  assumes "p = foldl primary_step (start (new_primary primaryInstance n deadline readyTimeout now)) es"
  shows "length (p_slots p) = n
    \<and> (\<forall>i < n. ready_at i p \<longrightarrow> (\<exists>w. cs_worker (p_slots p ! i) = Some w \<and> w \<in> set (p_live p)
          \<and> (w \<in> set (p_told p) \<longrightarrow> stopping p)))
    \<and> (\<forall>i < n. cs_worker (p_slots p ! i) = None \<longrightarrow> cs_restartTimer (p_slots p ! i) \<or> stopping p)
    \<and> distinct (p_told p)
    \<and> length (filter (\<lambda>w. w \<notin> set (p_kills p)) (p_live p)) \<le> n + 1
    \<and> (p_shutdown p = Exited 0 \<longrightarrow> p_live p = [])
    \<and> (\<forall>q k d rs. Succeeded q k d rs \<in> set (p_replies p) \<longrightarrow> map sr_slot rs = [0..<n])
    \<and> (\<forall>i e. ready_at i p \<longrightarrow> ready_at i (primary_step p e)
          \<or> (\<exists>w. e = Worker_exits w \<and> cs_worker (p_slots p ! i) = Some w))"
proof -
  have inv: "primary_inv p" unfolding assms by (intro running.inv_run start_inv)
  have n: "length (p_slots p) = n" unfolding assms using primary_run_length [OF start_inv] by (simp add: start_eq)
  have base: "base_inv (roll_worker p) p" using inv by (simp add: primary_inv_def)
  have slot: "slot_ok p i (p_slots p ! i)" if "i < n" for i using base n that by (simp add: base_inv_def slots_ok_def)
  have "\<exists>w. cs_worker (p_slots p ! i) = Some w \<and> w \<in> set (p_live p) \<and> (w \<in> set (p_told p) \<longrightarrow> stopping p)"
    if "i < n" "ready_at i p" for i
    using slot [OF that(1)] that(2) by (cases "cs_worker (p_slots p ! i)") (auto simp: slot_ok_def ready_at_def)
  moreover have "cs_restartTimer (p_slots p ! i) \<or> stopping p" if "i < n" "cs_worker (p_slots p ! i) = None" for i
    using slot [OF that(1)] that(2) by (simp add: slot_ok_def)
  moreover have "distinct (p_told p)" "p_shutdown p = Exited 0 \<longrightarrow> p_live p = []"
    using base by (auto simp: base_inv_def workers_ok_def)
  moreover have "\<forall>q k d rs. Succeeded q k d rs \<in> set (p_replies p) \<longrightarrow> map sr_slot rs = [0..<n]"
    using base n by (simp add: base_inv_def replies_ok_def)
  ultimately show ?thesis using n unkilled_bound [OF base] primary_step_keeps(2) [OF inv] by blast
qed

text \<open>A roll over two slots: the restart of both succeeds, each old worker draining after its successor is ready.\<close>

definition example_roll_events :: "primary_event list" where
  "example_roll_events = [Worker_says_ready 0, Worker_says_ready 1,
     Parent_says (JObj [(''topic'', JStr ROLLING_RESTART_TOPIC)]),
     Worker_says_ready 2, Worker_exits 0, Worker_says_ready 3, Worker_exits 1]"

theorem rolling_restart_keeps_serving_witness:
  "length (p_slots (foldl primary_step (start (new_primary [] 2 14500 60000 0)) example_roll_events)) = 2
    \<and> map cs_worker (p_slots (foldl primary_step (start (new_primary [] 2 14500 60000 0)) example_roll_events)) = [Some 2, Some 3]"
proof -
  have "map cs_worker (p_slots (foldl primary_step (start (new_primary [] 2 14500 60000 0)) example_roll_events)) = [Some 2, Some 3]"
    by code_simp
  then show ?thesis using rolling_restart_keeps_serving [OF refl, of "[]" 2 14500 60000 0 example_roll_events] by blast
qed

end
