(* ===== verification/Architecture.thy ===== *)
theory Architecture
  imports Planning
begin

text \<open>
  The assembly of a course architecture
  (ai-id/orchestration/lesson-author-orchestration-v2-architecture.logic.ts, over the contract types of
  ai-id/contracts/lesson-author-orchestration-v2-rag-contract.logic.ts): the accepted chapter shards of a
  skeleton become one immutable architecture whose units own every source scope exactly once. The
  contract readers and the IDM extension of an assembly are not part of this theory. \<open>localeCompare\<close> is the
  order of collation keys: \<open>rank\<close> gives the key of a string.
\<close>

section \<open>The contract types\<close>

datatype component_type = C_html | C_problem | C_la_faq | C_la_sortable | C_la_crossword | C_la_diagram

fun component_text :: "component_type \<Rightarrow> string" where
  "component_text C_html = ''html''"
| "component_text C_problem = ''problem''"
| "component_text C_la_faq = ''la_faq''"
| "component_text C_la_sortable = ''la_sortable''"
| "component_text C_la_crossword = ''la_crossword''"
| "component_text C_la_diagram = ''la_diagram''"

record author_review =
  ar_purpose :: "string option"
  ar_example_scenario :: "string option"
  ar_visual_asset :: "string option"
  ar_user_behavior_navigation :: "string option"

record component_plan =
  cp_type :: component_type
  cp_title :: string
  cp_rationale :: string
  cp_author_review :: "author_review option"
  cp_source_scope_ids :: "string list"

datatype media_type = M_video | M_static_infographic

record media_brief =
  mb_type :: media_type
  mb_title :: string
  mb_content_points :: "string list"
  mb_context_description :: string
  mb_rationale :: string

record unit_architecture =
  ua_title :: string
  ua_purpose :: string
  ua_learning_objective_refs :: "string list"
  ua_source_scope_ids :: "string list"
  ua_component_plan :: "component_plan list"
  ua_media_brief :: "media_brief option"

record lesson_architecture =
  la_title :: string
  la_objective :: string
  la_learning_objectives :: "string list"
  la_learning_activities :: "string list"
  la_assessment :: string
  la_units :: "unit_architecture list"

text \<open>The kind, the reason and the status of an obligation are constants of its type.\<close>

record shard_obligation =
  so_planned_slot_key :: string
  so_lesson_index :: int
  so_unit_index :: int
  so_component_index :: int
  so_learning_objective_refs :: "string list"
  so_relevant_scope_ids :: "string list"
  so_relevant_evidence_fact_ids :: "string list"

record chapter_shard =
  hs_contract_version :: int
  hs_source_snapshot_hash :: string
  hs_chapter_key :: string
  hs_order :: int
  hs_shard_index :: int
  hs_shard_count :: int
  hs_source_scope_ids :: "string list"
  hs_title :: string
  hs_objective :: string
  hs_lessons :: "lesson_architecture list"
  hs_assessment_obligations :: "shard_obligation list option"

record shard_artifact =
  sa_artifact_hash :: string
  sa_shard :: chapter_shard

record course_chapter =
  ck_chapter_key :: string
  ck_order :: int
  ck_title :: string
  ck_objective :: string
  ck_learning_outcomes :: "string list option"
  ck_source_scope_ids :: "string list"

record course_skeleton =
  kn_contract_version :: int
  kn_source_snapshot_hash :: string
  kn_locale :: string
  kn_title :: string
  kn_summary :: string
  kn_target_audience :: string
  kn_prerequisites :: "string list"
  kn_learning_outcomes :: "string list"
  kn_assessment_strategy :: string
  kn_assumptions :: "string list"
  kn_chapters :: "course_chapter list"

section \<open>The assembly\<close>

record architecture_chapter =
  ac_chapter_key :: string
  ac_order :: int
  ac_title :: string
  ac_objective :: string
  ac_learning_outcomes :: "string list"
  ac_source_scope_ids :: "string list"
  ac_lessons :: "lesson_architecture list"

record architecture_obligation =
  ao_planned_slot_key :: string
  ao_unit_path :: string
  ao_planned_component_index :: int
  ao_learning_objective_refs :: "string list"
  ao_relevant_scope_ids :: "string list"
  ao_relevant_evidence_fact_ids :: "string list"

record architecture =
  ax_locale :: string
  ax_title :: string
  ax_summary :: string
  ax_target_audience :: string
  ax_prerequisites :: "string list"
  ax_learning_outcomes :: "string list"
  ax_assessment_strategy :: string
  ax_assumptions :: "string list"
  ax_chapters :: "architecture_chapter list"

record assembly =
  as_source_snapshot_hash :: string
  as_skeleton_hash :: string
  as_shard_hashes :: "string list"
  as_admitted_fact_count :: int
  as_allocated_fact_count :: int
  as_chapter_count :: nat
  as_lesson_count :: nat
  as_unit_count :: nat
  as_component_plan_count :: nat
  as_assessment_obligation_count :: nat
  as_assessment_obligation_hash :: string
  as_assessment_obligations :: "architecture_obligation list"
  as_architecture :: architecture
  as_assembly_hash :: string

datatype architecture_error = Architecture_invalid | Architecture_too_large
  | Architecture_hash_error manifest_error | Architecture_json_error canonical_error

definition MAX_SHARDS :: nat where "MAX_SHARDS = 4096"
definition MAX_UNITS :: nat where "MAX_UNITS = 32768"
definition MAX_COMPONENT_PLANS :: nat where "MAX_COMPONENT_PLANS = 98304"
definition MAX_ASSEMBLY_BYTES :: nat where "MAX_ASSEMBLY_BYTES = 16 * 1024 * 1024"

definition archHash :: "(string \<Rightarrow> string) \<Rightarrow> jsval \<Rightarrow> architecture_error + string" where
  "archHash sha v = (case orchestrationV2Hash sha v of Inl e \<Rightarrow> Inl (Architecture_hash_error e) | Inr h \<Rightarrow> Inr h)"

definition archPersisted :: "jsval \<Rightarrow> architecture_error + jsval" where
  "archPersisted v = (case toPersistedJson v of Inl e \<Rightarrow> Inl (Architecture_json_error e) | Inr w \<Rightarrow> Inr w)"

section \<open>JSON of the parts\<close>

definition strings_json :: "string list \<Rightarrow> jsval" where
  "strings_json xs = JArr (map JStr xs)"

definition review_json :: "author_review \<Rightarrow> jsval" where
  "review_json r = JObj [(''purpose'', json_opt (ar_purpose r)), (''example_scenario'', json_opt (ar_example_scenario r)),
     (''visual_asset'', json_opt (ar_visual_asset r)),
     (''user_behavior_navigation'', json_opt (ar_user_behavior_navigation r))]"

text \<open>An optional field that is absent from the object.\<close>

definition opt_field :: "string \<Rightarrow> ('a \<Rightarrow> jsval) \<Rightarrow> 'a option \<Rightarrow> (string \<times> jsval) list" where
  "opt_field k f x = (case x of None \<Rightarrow> [] | Some v \<Rightarrow> [(k, f v)])"

definition component_json :: "component_plan \<Rightarrow> jsval" where
  "component_json c = JObj ([(''type'', JStr (component_text (cp_type c))), (''title'', JStr (cp_title c)),
     (''rationale'', JStr (cp_rationale c))] @ opt_field ''author_review'' review_json (cp_author_review c)
     @ [(''source_scope_ids'', strings_json (cp_source_scope_ids c))])"

definition media_text :: "media_type \<Rightarrow> string" where
  "media_text m = (case m of M_video \<Rightarrow> ''video'' | M_static_infographic \<Rightarrow> ''static_infographic'')"

definition media_json :: "media_brief option \<Rightarrow> jsval" where
  "media_json m = (case m of None \<Rightarrow> JNull
   | Some b \<Rightarrow> JObj [(''type'', JStr (media_text (mb_type b))), (''title'', JStr (mb_title b)),
      (''content_points'', strings_json (mb_content_points b)),
      (''context_description'', JStr (mb_context_description b)), (''rationale'', JStr (mb_rationale b))])"

definition unit_json :: "unit_architecture \<Rightarrow> jsval" where
  "unit_json u = JObj [(''title'', JStr (ua_title u)), (''purpose'', JStr (ua_purpose u)),
     (''learning_objective_refs'', strings_json (ua_learning_objective_refs u)),
     (''source_scope_ids'', strings_json (ua_source_scope_ids u)),
     (''component_plan'', JArr (map component_json (ua_component_plan u))),
     (''media_brief'', media_json (ua_media_brief u))]"

definition lesson_json :: "lesson_architecture \<Rightarrow> jsval" where
  "lesson_json l = JObj [(''title'', JStr (la_title l)), (''objective'', JStr (la_objective l)),
     (''learning_objectives'', strings_json (la_learning_objectives l)),
     (''learning_activities'', strings_json (la_learning_activities l)),
     (''assessment'', JStr (la_assessment l)), (''units'', JArr (map unit_json (la_units l)))]"

definition course_chapter_json :: "course_chapter \<Rightarrow> jsval" where
  "course_chapter_json c = JObj ([(''chapter_key'', JStr (ck_chapter_key c)), (''order'', JInt (ck_order c)),
     (''title'', JStr (ck_title c)), (''objective'', JStr (ck_objective c))]
     @ opt_field ''learning_outcomes'' strings_json (ck_learning_outcomes c)
     @ [(''source_scope_ids'', strings_json (ck_source_scope_ids c))])"

definition skeleton_json :: "course_skeleton \<Rightarrow> jsval" where
  "skeleton_json k = JObj [(''contract_version'', JInt (kn_contract_version k)),
     (''source_snapshot_hash'', JStr (kn_source_snapshot_hash k)), (''locale'', JStr (kn_locale k)),
     (''title'', JStr (kn_title k)), (''summary'', JStr (kn_summary k)),
     (''target_audience'', JStr (kn_target_audience k)), (''prerequisites'', strings_json (kn_prerequisites k)),
     (''learning_outcomes'', strings_json (kn_learning_outcomes k)),
     (''assessment_strategy'', JStr (kn_assessment_strategy k)), (''assumptions'', strings_json (kn_assumptions k)),
     (''chapters'', JArr (map course_chapter_json (kn_chapters k)))]"

definition architecture_chapter_json :: "architecture_chapter \<Rightarrow> jsval" where
  "architecture_chapter_json c = JObj [(''chapter_key'', JStr (ac_chapter_key c)), (''order'', JInt (ac_order c)),
     (''title'', JStr (ac_title c)), (''objective'', JStr (ac_objective c)),
     (''learning_outcomes'', strings_json (ac_learning_outcomes c)),
     (''source_scope_ids'', strings_json (ac_source_scope_ids c)), (''lessons'', JArr (map lesson_json (ac_lessons c)))]"

definition obligation_json :: "architecture_obligation \<Rightarrow> jsval" where
  "obligation_json ob = JObj [(''planned_slot_key'', JStr (ao_planned_slot_key ob)), (''unit_path'', JStr (ao_unit_path ob)),
     (''planned_component_index'', JInt (ao_planned_component_index ob)),
     (''learning_objective_refs'', strings_json (ao_learning_objective_refs ob)),
     (''required_assessment_kind'', JStr ''single_choice''),
     (''relevant_scope_ids'', strings_json (ao_relevant_scope_ids ob)),
     (''relevant_evidence_fact_ids'', strings_json (ao_relevant_evidence_fact_ids ob)),
     (''unresolved_reason'', JStr ''ASSESSMENT_SOURCE_CHECK_REQUIRED''), (''status'', JStr ''open'')]"

definition architecture_json :: "architecture \<Rightarrow> jsval" where
  "architecture_json x = JObj [(''locale'', JStr (ax_locale x)), (''title'', JStr (ax_title x)),
     (''summary'', JStr (ax_summary x)), (''target_audience'', JStr (ax_target_audience x)),
     (''prerequisites'', strings_json (ax_prerequisites x)),
     (''learning_outcomes'', strings_json (ax_learning_outcomes x)),
     (''assessment_strategy'', JStr (ax_assessment_strategy x)), (''assumptions'', strings_json (ax_assumptions x)),
     (''chapters'', JArr (map architecture_chapter_json (ax_chapters x)))]"

text \<open>The assembly without its hash.\<close>

definition assembly_base_json :: "assembly \<Rightarrow> jsval" where
  "assembly_base_json a = JObj [(''contract_version'', JInt 2),
     (''source_snapshot_hash'', JStr (as_source_snapshot_hash a)), (''skeleton_hash'', JStr (as_skeleton_hash a)),
     (''shard_hashes'', strings_json (as_shard_hashes a)),
     (''admitted_fact_count'', JInt (as_admitted_fact_count a)),
     (''allocated_fact_count'', JInt (as_allocated_fact_count a)),
     (''duplicate_scope_count'', JInt 0), (''unresolved_scope_count'', JInt 0),
     (''chapter_count'', JInt (int (as_chapter_count a))), (''lesson_count'', JInt (int (as_lesson_count a))),
     (''unit_count'', JInt (int (as_unit_count a))),
     (''component_plan_count'', JInt (int (as_component_plan_count a))),
     (''assessment_obligation_count'', JInt (int (as_assessment_obligation_count a))),
     (''assessment_obligation_hash'', JStr (as_assessment_obligation_hash a)),
     (''assessment_obligations'', JArr (map obligation_json (as_assessment_obligations a))),
     (''architecture'', architecture_json (as_architecture a))]"

section \<open>Assembling a chapter\<close>

definition chapter_artifacts :: "shard_artifact list \<Rightarrow> course_chapter \<Rightarrow> shard_artifact list" where
  "chapter_artifacts artifacts c = sort_key (\<lambda>a. hs_shard_index (sa_shard a))
     (filter (\<lambda>a. hs_chapter_key (sa_shard a) = ck_chapter_key c) artifacts)"

definition shards_match :: "course_chapter \<Rightarrow> shard_artifact list \<Rightarrow> bool" where
  "shards_match c xs = (case xs of [] \<Rightarrow> False
     | x # _ \<Rightarrow> (let n = hs_shard_count (sa_shard x) in
         isSafeInteger n \<and> n = int (length xs)
         \<and> list_all (\<lambda>(i, a). hs_shard_index (sa_shard a) = int i \<and> hs_shard_count (sa_shard a) = n
              \<and> hs_order (sa_shard a) = ck_order c \<and> hs_title (sa_shard a) = ck_title c
              \<and> hs_objective (sa_shard a) = ck_objective c) (enumerate 0 xs)))"

definition lesson_scopes :: "lesson_architecture \<Rightarrow> string list" where
  "lesson_scopes l = concat (map ua_source_scope_ids (la_units l))"

text \<open>An array read at a computed index: undefined outside the array.\<close>

definition js_at :: "int \<Rightarrow> 'a list \<Rightarrow> 'a option" where
  "js_at i xs = (if 0 \<le> i \<and> i < int (length xs) then Some (xs ! nat i) else None)"

definition unit_path_text :: "nat \<Rightarrow> int \<Rightarrow> int \<Rightarrow> string" where
  "unit_path_text c l u = ''chapter_'' @ nat_text c @ ''.lesson_'' @ int_text l @ ''.unit_'' @ int_text u"

definition place_obligation :: "nat \<Rightarrow> nat \<Rightarrow> chapter_shard \<Rightarrow> shard_obligation
    \<Rightarrow> architecture_error + architecture_obligation" where
  "place_obligation chapter_no offset shard ob =
     (case Option.bind (js_at (so_lesson_index ob - 1) (hs_lessons shard)) (\<lambda>l. js_at (so_unit_index ob - 1) (la_units l)) of
        None \<Rightarrow> Inl Architecture_invalid
      | Some u \<Rightarrow> ensure Architecture_invalid (set (so_relevant_scope_ids ob) \<subseteq> set (ua_source_scope_ids u)
            \<and> set (so_learning_objective_refs ob) \<subseteq> set (ua_learning_objective_refs u))
          (Inr \<lparr>ao_planned_slot_key = so_planned_slot_key ob,
             ao_unit_path = unit_path_text chapter_no (int offset + so_lesson_index ob) (so_unit_index ob),
             ao_planned_component_index = so_component_index ob,
             ao_learning_objective_refs = so_learning_objective_refs ob,
             ao_relevant_scope_ids = so_relevant_scope_ids ob,
             ao_relevant_evidence_fact_ids = so_relevant_evidence_fact_ids ob\<rparr>))"

text \<open>The obligations of the shards of one chapter; \<open>offset\<close> counts the lessons of the shards before.\<close>

fun place_obligations :: "nat \<Rightarrow> nat \<Rightarrow> shard_artifact list \<Rightarrow> architecture_error + architecture_obligation list" where
  "place_obligations chapter_no offset [] = Inr []"
| "place_obligations chapter_no offset (a # xs) =
     bindE (mapE (place_obligation chapter_no offset (sa_shard a))
       (case hs_assessment_obligations (sa_shard a) of None \<Rightarrow> [] | Some os \<Rightarrow> os)) (\<lambda>placed.
      bindE (place_obligations chapter_no (offset + length (hs_lessons (sa_shard a))) xs) (\<lambda>rest.
       Inr (placed @ rest)))"

record assembled_chapter =
  ad_chapter :: architecture_chapter
  ad_shard_hashes :: "string list"
  ad_obligations :: "architecture_obligation list"

definition assemble_chapter :: "shard_artifact list \<Rightarrow> nat \<times> course_chapter \<Rightarrow> architecture_error + assembled_chapter" where
  "assemble_chapter artifacts ic = (let c = snd ic; xs = chapter_artifacts artifacts c;
       chapter_scopes = concat (map (\<lambda>a. hs_source_scope_ids (sa_shard a)) xs);
       lessons = concat (map (\<lambda>a. hs_lessons (sa_shard a)) xs);
       unit_scopes = concat (map lesson_scopes lessons) in
     ensure Architecture_invalid (shards_match c xs)
      (ensure Architecture_invalid (chapter_scopes = ck_source_scope_ids c)
       (ensure Architecture_invalid (length unit_scopes = length chapter_scopes \<and> distinct unit_scopes
            \<and> set unit_scopes \<subseteq> set chapter_scopes)
        (bindE (place_obligations (Suc (fst ic)) 0 xs) (\<lambda>placed.
          Inr \<lparr>ad_chapter = \<lparr>ac_chapter_key = ck_chapter_key c, ac_order = ck_order c, ac_title = ck_title c,
                 ac_objective = ck_objective c,
                 ac_learning_outcomes = (case ck_learning_outcomes c of None \<Rightarrow> [] | Some xs \<Rightarrow> xs),
                 ac_source_scope_ids = ck_source_scope_ids c, ac_lessons = lessons\<rparr>,
               ad_shard_hashes = map sa_artifact_hash xs, ad_obligations = placed\<rparr>)))))"

section \<open>Assembling the architecture\<close>

definition skeleton_scopes :: "course_skeleton \<Rightarrow> string list" where
  "skeleton_scopes k = concat (map ck_source_scope_ids (kn_chapters k))"

definition skeleton_valid :: "course_skeleton \<Rightarrow> source_scope list \<Rightarrow> shard_artifact list \<Rightarrow> bool" where
  "skeleton_valid k scopes artifacts \<longleftrightarrow> kn_contract_version k = 2 \<and> is_hash (kn_source_snapshot_hash k)
     \<and> 1 \<le> length (kn_chapters k) \<and> length (kn_chapters k) \<le> MAX_CHAPTERS
     \<and> 1 \<le> length scopes \<and> length scopes \<le> 4096
     \<and> 1 \<le> length artifacts \<and> length artifacts \<le> MAX_SHARDS
     \<and> distinct (map ss_scope_key scopes)
     \<and> list_all (\<lambda>s. isSafeInteger (ss_fact_count s) \<and> 1 \<le> ss_fact_count s) scopes
     \<and> length (skeleton_scopes k) = length scopes \<and> distinct (skeleton_scopes k)
     \<and> set (skeleton_scopes k) \<subseteq> ss_scope_key ` set scopes"

definition artifacts_valid :: "course_skeleton \<Rightarrow> shard_artifact list \<Rightarrow> bool" where
  "artifacts_valid k artifacts \<longleftrightarrow>
     list_all (\<lambda>a. is_hash (sa_artifact_hash a) \<and> hs_contract_version (sa_shard a) = 2
       \<and> hs_source_snapshot_hash (sa_shard a) = kn_source_snapshot_hash k) artifacts
     \<and> distinct (map sa_artifact_hash artifacts)
     \<and> card ((\<lambda>a. hs_chapter_key (sa_shard a)) ` set artifacts) = length (kn_chapters k)
     \<and> (\<lambda>a. hs_chapter_key (sa_shard a)) ` set artifacts \<subseteq> ck_chapter_key ` set (kn_chapters k)"

definition chapter_units :: "architecture_chapter list \<Rightarrow> unit_architecture list" where
  "chapter_units cs = concat (map la_units (concat (map ac_lessons cs)))"

definition assembly_of :: "course_skeleton \<Rightarrow> string \<Rightarrow> int \<Rightarrow> assembled_chapter list
    \<Rightarrow> architecture_obligation list \<Rightarrow> string \<Rightarrow> assembly" where
  "assembly_of k skeleton_hash facts xs obligations obligation_hash = (let cs = map ad_chapter xs in
     \<lparr>as_source_snapshot_hash = kn_source_snapshot_hash k, as_skeleton_hash = skeleton_hash,
      as_shard_hashes = concat (map ad_shard_hashes xs), as_admitted_fact_count = facts,
      as_allocated_fact_count = facts, as_chapter_count = length cs,
      as_lesson_count = length (concat (map ac_lessons cs)), as_unit_count = length (chapter_units cs),
      as_component_plan_count = sum_list (map (\<lambda>u. length (ua_component_plan u)) (chapter_units cs)),
      as_assessment_obligation_count = length obligations, as_assessment_obligation_hash = obligation_hash,
      as_assessment_obligations = obligations,
      as_architecture = \<lparr>ax_locale = kn_locale k, ax_title = kn_title k, ax_summary = kn_summary k,
        ax_target_audience = kn_target_audience k, ax_prerequisites = kn_prerequisites k,
        ax_learning_outcomes = kn_learning_outcomes k, ax_assessment_strategy = kn_assessment_strategy k,
        ax_assumptions = kn_assumptions k, ax_chapters = cs\<rparr>,
      as_assembly_hash = []\<rparr>)"

definition assembleOrchestrationV2Architecture :: "(string \<Rightarrow> string) \<Rightarrow> (string \<Rightarrow> 'k::linorder) \<Rightarrow> course_skeleton
    \<Rightarrow> source_scope list \<Rightarrow> shard_artifact list \<Rightarrow> architecture_error + assembly" where
  "assembleOrchestrationV2Architecture sha rank k scopes artifacts =
     ensure Architecture_invalid (skeleton_valid k scopes artifacts)
      (ensure Architecture_invalid (artifacts_valid k artifacts)
       (bindE (mapE (assemble_chapter artifacts) (enumerate 0 (sort_key ck_order (kn_chapters k)))) (\<lambda>xs.
        let cs = map ad_chapter xs;
            allocated = concat (map (\<lambda>c. concat (map lesson_scopes (ac_lessons c))) cs);
            units = length (chapter_units cs);
            plans = sum_list (map (\<lambda>u. length (ua_component_plan u)) (chapter_units cs));
            facts = sum_list (map ss_fact_count scopes);
            placed = concat (map ad_obligations xs);
            obligations = sort_key (\<lambda>ob. rank (ao_planned_slot_key ob)) placed in
        ensure Architecture_invalid (length allocated = length scopes \<and> distinct allocated
            \<and> set allocated \<subseteq> ss_scope_key ` set scopes)
         (ensure Architecture_too_large (1 \<le> units \<and> units \<le> MAX_UNITS \<and> units \<le> plans \<and> plans \<le> MAX_COMPONENT_PLANS)
          (ensure Architecture_too_large (safeInteger facts 1 10000000)
           (ensure Architecture_invalid (distinct (map ao_planned_slot_key placed))
            (bindE (archHash sha (JArr (map obligation_json obligations))) (\<lambda>obligation_hash.
              bindE (archHash sha (skeleton_json k)) (\<lambda>skeleton_hash.
               bindE (archPersisted (assembly_base_json (assembly_of k skeleton_hash facts xs obligations obligation_hash))) (\<lambda>base.
                ensure Architecture_too_large (utf8_length (json_text base) \<le> MAX_ASSEMBLY_BYTES)
                 (bindE (archHash sha base) (\<lambda>h.
                   Inr ((assembly_of k skeleton_hash facts xs obligations obligation_hash)\<lparr>as_assembly_hash := h\<rparr>)))))))))))))"

section \<open>The JSON of an assembly is plain\<close>

lemma plain_strings_json [simp]: "plain (strings_json xs)"
  by (simp add: strings_json_def)

lemma plain_component_json [simp]: "plain (component_json c)"
  by (simp add: component_json_def opt_field_def review_json_def split: option.splits)

lemma plain_unit_json [simp]: "plain (unit_json u)"
  by (simp add: unit_json_def media_json_def list_all_iff split: option.splits)

lemma plain_chapter_json [simp]: "plain (architecture_chapter_json c)"
  by (simp add: architecture_chapter_json_def lesson_json_def list_all_iff)

lemma plain_skeleton_json [simp]: "plain (skeleton_json k)"
  by (simp add: skeleton_json_def course_chapter_json_def opt_field_def list_all_iff split: option.splits)

lemma plain_obligations_json [simp]: "plain (JArr (map obligation_json obs))"
  by (simp add: obligation_json_def list_all_iff)

lemma plain_assembly_base [simp]: "plain (assembly_base_json a)"
  using plain_obligations_json [of "as_assessment_obligations a"]
  by (simp add: assembly_base_json_def architecture_json_def list_all_iff)

lemma archHash_plain [simp]: "plain v \<Longrightarrow> archHash sha v = Inr (sha (canon v))"
  by (simp add: archHash_def hash_plain)

lemma archPersisted_plain [simp]: "plain v \<Longrightarrow> archPersisted v = Inr v"
  by (simp add: archPersisted_def toPersistedJson_def persist_plain)

section \<open>What an assembly holds\<close>

definition assembly_units :: "assembly \<Rightarrow> unit_architecture list" where
  "assembly_units a = chapter_units (ax_chapters (as_architecture a))"

definition assembly_scopes :: "assembly \<Rightarrow> string list" where
  "assembly_scopes a = concat (map ua_source_scope_ids (assembly_units a))"

lemma scopes_of_lessons: "concat (map lesson_scopes ls) = concat (map ua_source_scope_ids (concat (map la_units ls)))"
  by (induction ls) (simp_all add: lesson_scopes_def)

lemma scopes_of_units: "concat (map (\<lambda>c. concat (map lesson_scopes (ac_lessons c))) cs) = concat (map ua_source_scope_ids (chapter_units cs))"
  by (induction cs) (simp_all add: chapter_units_def scopes_of_lessons)

lemma chapter_artifacts_mset:
  assumes "distinct (map ck_chapter_key cs)"
  shows "mset (concat (map (chapter_artifacts artifacts) cs))
    = mset (filter (\<lambda>a. hs_chapter_key (sa_shard a) \<in> ck_chapter_key ` set cs) artifacts)"
  using assms
proof (induction cs)
  case (Cons c cs)
  have parts: "mset (filter (\<lambda>a. hs_chapter_key (sa_shard a) \<in> ck_chapter_key ` set (c # cs)) xs)
      = mset (filter (\<lambda>a. hs_chapter_key (sa_shard a) = ck_chapter_key c) xs)
        + mset (filter (\<lambda>a. hs_chapter_key (sa_shard a) \<in> ck_chapter_key ` set cs) xs)" for xs
    using Cons.prems by (induction xs) auto
  have own: "mset (chapter_artifacts artifacts c) = mset (filter (\<lambda>a. hs_chapter_key (sa_shard a) = ck_chapter_key c) artifacts)"
    by (simp add: chapter_artifacts_def)
  have "distinct (map ck_chapter_key cs)" using Cons.prems by simp
  from Cons.IH [OF this] show ?case unfolding parts by (simp only: list.map concat.simps mset_append own)
qed simp

text \<open>A place in the architecture: a chapter, a lesson and a unit of it, from zero.\<close>

definition unit_at :: "architecture_chapter list \<Rightarrow> nat \<Rightarrow> nat \<Rightarrow> nat \<Rightarrow> unit_architecture option" where
  "unit_at cs c l u = (if c < length cs \<and> l < length (ac_lessons (cs ! c)) \<and> u < length (la_units (ac_lessons (cs ! c) ! l))
     then Some (la_units (ac_lessons (cs ! c) ! l) ! u) else None)"

definition placed_in :: "lesson_architecture list \<Rightarrow> nat \<Rightarrow> architecture_obligation \<Rightarrow> bool" where
  "placed_in lessons c ob \<longleftrightarrow> (\<exists>l u. l < length lessons \<and> u < length (la_units (lessons ! l))
     \<and> ao_unit_path ob = unit_path_text (Suc c) (int (Suc l)) (int (Suc u))
     \<and> set (ao_relevant_scope_ids ob) \<subseteq> set (ua_source_scope_ids (la_units (lessons ! l) ! u))
     \<and> set (ao_learning_objective_refs ob) \<subseteq> set (ua_learning_objective_refs (la_units (lessons ! l) ! u)))"

lemma js_at_Some: "js_at i xs = Some x \<longleftrightarrow> (\<exists>n. i = int n \<and> n < length xs \<and> x = xs ! n)"
  by (auto simp: js_at_def) (metis nat_int zero_le_imp_eq_int zless_nat_eq_int_zless)

lemma place_obligation_placed:
  assumes "place_obligation (Suc c) (length before) shard ob = Inr r"
  shows "placed_in (before @ hs_lessons shard @ after) c r"
proof -
  obtain l u where l: "js_at (so_lesson_index ob - 1) (hs_lessons shard) = Some l"
    and u: "js_at (so_unit_index ob - 1) (la_units l) = Some u"
    and sub: "set (so_relevant_scope_ids ob) \<subseteq> set (ua_source_scope_ids u)"
      "set (so_learning_objective_refs ob) \<subseteq> set (ua_learning_objective_refs u)"
    and r: "ao_unit_path r = unit_path_text (Suc c) (int (length before) + so_lesson_index ob) (so_unit_index ob)"
      "ao_relevant_scope_ids r = so_relevant_scope_ids ob"
      "ao_learning_objective_refs r = so_learning_objective_refs ob"
    using assms by (auto simp: place_obligation_def bind_eq_Some_conv split: option.splits)
  obtain i where "so_lesson_index ob - 1 = int i" and i': "i < length (hs_lessons shard)" "l = hs_lessons shard ! i"
    using l unfolding js_at_Some by blast
  then have i: "so_lesson_index ob = int (Suc i)" "i < length (hs_lessons shard)" "l = hs_lessons shard ! i" by simp_all
  obtain j where "so_unit_index ob - 1 = int j" and j': "j < length (la_units l)" "u = la_units l ! j"
    using u unfolding js_at_Some by blast
  then have j: "so_unit_index ob = int (Suc j)" "j < length (la_units l)" "u = la_units l ! j" by simp_all
  show ?thesis unfolding placed_in_def
    by (rule exI [of _ "length before + i"], rule exI [of _ j]) (use i j r sub in \<open>simp add: nth_append add.left_commute\<close>)
qed

lemma place_obligations_placed:
  assumes "place_obligations (Suc c) (length before) xs = Inr os" "ob \<in> set os"
  shows "placed_in (before @ concat (map (\<lambda>a. hs_lessons (sa_shard a)) xs)) c ob"
  using assms
proof (induction xs arbitrary: before os)
  case (Cons a xs)
  then obtain placed rest where p: "mapE (place_obligation (Suc c) (length before) (sa_shard a))
        (case hs_assessment_obligations (sa_shard a) of None \<Rightarrow> [] | Some os \<Rightarrow> os) = Inr placed"
      "place_obligations (Suc c) (length (before @ hs_lessons (sa_shard a))) xs = Inr rest" "os = placed @ rest"
    by auto
  show ?case
  proof (cases "ob \<in> set placed")
    case True
    then obtain o' where "place_obligation (Suc c) (length before) (sa_shard a) o' = Inr ob"
      using mapE_Inr_nth [OF p(1)] mapE_Inr_length [OF p(1)] by (auto simp: in_set_conv_nth)
    then show ?thesis by (simp add: place_obligation_placed)
  next
    case False
    then show ?thesis using Cons.IH [OF p(2)] Cons.prems(2) p(3) by simp
  qed
qed simp

lemma assemble_chapter_Inr:
  assumes "assemble_chapter artifacts (i, c) = Inr r"
  shows "ac_chapter_key (ad_chapter r) = ck_chapter_key c"
    "ad_shard_hashes r = map sa_artifact_hash (chapter_artifacts artifacts c)"
    "ac_lessons (ad_chapter r) = concat (map (\<lambda>a. hs_lessons (sa_shard a)) (chapter_artifacts artifacts c))"
    "\<forall>ob \<in> set (ad_obligations r). placed_in (ac_lessons (ad_chapter r)) i ob"
    "chapter_artifacts artifacts c \<noteq> []"
  using assms place_obligations_placed [of i "[]" "chapter_artifacts artifacts c"]
  by (auto simp: assemble_chapter_def Let_def shards_match_def)

lemma assemble_Inr:
  assumes "assembleOrchestrationV2Architecture sha rank k scopes artifacts = Inr a"
  obtains xs obs where "skeleton_valid k scopes artifacts" "artifacts_valid k artifacts"
    "mapE (assemble_chapter artifacts) (enumerate 0 (sort_key ck_order (kn_chapters k))) = Inr xs"
    "length (assembly_scopes a) = length scopes" "distinct (assembly_scopes a)"
    "set (assembly_scopes a) \<subseteq> ss_scope_key ` set scopes"
    "1 \<le> as_unit_count a" "as_unit_count a \<le> MAX_UNITS" "as_unit_count a \<le> as_component_plan_count a"
    "mset obs = mset (concat (map ad_obligations xs))" "distinct (map ao_planned_slot_key obs)"
    "a = (assembly_of k (sha (canon (skeleton_json k))) (sum_list (map ss_fact_count scopes)) xs obs
        (sha (canon (JArr (map obligation_json obs)))))\<lparr>as_assembly_hash := as_assembly_hash a\<rparr>"
    "as_assembly_hash a = sha (canon (assembly_base_json a))"
    "utf8_length (json_text (assembly_base_json a)) \<le> MAX_ASSEMBLY_BYTES"
proof -
  obtain xs where xs: "mapE (assemble_chapter artifacts) (enumerate 0 (sort_key ck_order (kn_chapters k))) = Inr xs"
    using assms by (auto simp: assembleOrchestrationV2Architecture_def)
  define obs where "obs = sort_key (\<lambda>ob. rank (ao_planned_slot_key ob)) (concat (map ad_obligations xs))"
  define b where "b = assembly_of k (sha (canon (skeleton_json k))) (sum_list (map ss_fact_count scopes)) xs obs
        (sha (canon (JArr (map obligation_json obs))))"
  have base: "assembly_base_json (b\<lparr>as_assembly_hash := h\<rparr>) = assembly_base_json b" for h
    by (simp add: assembly_base_json_def)
  have a: "a = b\<lparr>as_assembly_hash := sha (canon (assembly_base_json b))\<rparr>"
    and checks: "skeleton_valid k scopes artifacts" "artifacts_valid k artifacts"
    "length (concat (map (\<lambda>c. concat (map lesson_scopes (ac_lessons c))) (map ad_chapter xs))) = length scopes"
    "distinct (concat (map (\<lambda>c. concat (map lesson_scopes (ac_lessons c))) (map ad_chapter xs)))"
    "set (concat (map (\<lambda>c. concat (map lesson_scopes (ac_lessons c))) (map ad_chapter xs))) \<subseteq> ss_scope_key ` set scopes"
    "1 \<le> length (chapter_units (map ad_chapter xs))" "length (chapter_units (map ad_chapter xs)) \<le> MAX_UNITS"
    "length (chapter_units (map ad_chapter xs)) \<le> sum_list (map (\<lambda>u. length (ua_component_plan u)) (chapter_units (map ad_chapter xs)))"
    "distinct (map ao_planned_slot_key (concat (map ad_obligations xs)))"
    "utf8_length (json_text (assembly_base_json b)) \<le> MAX_ASSEMBLY_BYTES"
    using assms xs
    by (simp_all add: assembleOrchestrationV2Architecture_def Let_def b_def obs_def del: plain.simps set_concat)
  have scopes: "assembly_scopes a = concat (map (\<lambda>c. concat (map lesson_scopes (ac_lessons c))) (map ad_chapter xs))"
    unfolding scopes_of_units by (simp add: a b_def assembly_scopes_def assembly_units_def assembly_of_def Let_def)
  have counts: "as_unit_count a = length (chapter_units (map ad_chapter xs))"
    "as_component_plan_count a = sum_list (map (\<lambda>u. length (ua_component_plan u)) (chapter_units (map ad_chapter xs)))"
    by (simp_all add: a b_def assembly_of_def Let_def)
  have obs: "mset obs = mset (concat (map ad_obligations xs))" by (simp add: obs_def del: mset_concat)
  have keys: "distinct (map ao_planned_slot_key obs)"
    using checks(9) obs by (metis distinct_map mset_eq_imp_distinct_iff mset_eq_setD)
  have hash: "as_assembly_hash a = sha (canon (assembly_base_json b))" by (simp add: a)
  have same: "a = b\<lparr>as_assembly_hash := as_assembly_hash a\<rparr>" unfolding hash by (rule a)
  have json: "assembly_base_json a = assembly_base_json b" by (simp add: a base)
  show thesis
    by (rule that [OF checks(1,2) xs checks(3-5) [folded scopes] checks(6-8) [folded counts] obs keys
          same [unfolded b_def] hash [folded json] checks(10) [folded json]])
qed

lemma chapters_assembled:
  assumes "mapE (assemble_chapter artifacts) (enumerate 0 cs) = Inr xs"
  shows "length xs = length cs" "i < length cs \<Longrightarrow> assemble_chapter artifacts (i, cs ! i) = Inr (xs ! i)"
  using mapE_Inr_length [OF assms] mapE_Inr_nth [OF assms, of i] by (simp_all add: nth_enumerate_eq)

lemma artifacts_keys_distinct:
  assumes "artifacts_valid k artifacts"
  shows "distinct (map ck_chapter_key (kn_chapters k))"
proof -
  have "length (kn_chapters k) \<le> card (ck_chapter_key ` set (kn_chapters k))"
    using assms card_mono [of "ck_chapter_key ` set (kn_chapters k)" "(\<lambda>a. hs_chapter_key (sa_shard a)) ` set artifacts"]
    by (simp add: artifacts_valid_def)
  then have "card (set (map ck_chapter_key (kn_chapters k))) = length (map ck_chapter_key (kn_chapters k))"
    using card_length [of "map ck_chapter_key (kn_chapters k)"] by simp
  then show ?thesis by (rule card_distinct)
qed

lemma shard_hashes_all:
  assumes "artifacts_valid k artifacts" "mset cs = mset (kn_chapters k)"
    "mapE (assemble_chapter artifacts) (enumerate 0 cs) = Inr xs"
  shows "mset (concat (map ad_shard_hashes xs)) = mset (map sa_artifact_hash artifacts)"
proof -
  note nth = chapters_assembled [OF assms(3)]
  have "ad_shard_hashes (xs ! i) = map sa_artifact_hash (chapter_artifacts artifacts (cs ! i))" if "i < length cs" for i
    using assemble_chapter_Inr(2) [OF nth(2) [OF that]] .
  then have "map ad_shard_hashes xs = map (\<lambda>c. map sa_artifact_hash (chapter_artifacts artifacts c)) cs"
    using nth(1) by (intro nth_equalityI) simp_all
  then have "concat (map ad_shard_hashes xs) = map sa_artifact_hash (concat (map (chapter_artifacts artifacts) cs))"
    by (simp add: map_concat comp_def)
  then have m: "mset (concat (map ad_shard_hashes xs)) = image_mset sa_artifact_hash (mset (concat (map (chapter_artifacts artifacts) cs)))"
    by (simp del: mset_concat)
  have "distinct (map ck_chapter_key cs)"
    using artifacts_keys_distinct [OF assms(1)] assms(2) by (metis mset_eq_imp_distinct_iff mset_map)
  moreover have "set cs = set (kn_chapters k)" using assms(2) by (rule mset_eq_setD)
  ultimately have "mset (concat (map (chapter_artifacts artifacts) cs))
      = mset (filter (\<lambda>a. hs_chapter_key (sa_shard a) \<in> ck_chapter_key ` set (kn_chapters k)) artifacts)"
    by (simp only: chapter_artifacts_mset)
  moreover have "filter (\<lambda>a. hs_chapter_key (sa_shard a) \<in> ck_chapter_key ` set (kn_chapters k)) artifacts = artifacts"
    using assms(1) by (auto simp: artifacts_valid_def filter_id_conv)
  ultimately show ?thesis unfolding m by simp
qed

section \<open>Properties\<close>

text \<open>
  C16: an assembled architecture allocates every source scope to exactly one unit and uses every shard
  once. When the assembly accepts a skeleton, the scope catalogue and the shards: the scopes of its units
  are pairwise distinct and are exactly the catalogue, the admitted facts are the catalogue's total, its
  chapters are the skeleton's in their order, each accepted shard is listed once, every assessment
  obligation names by its path an existing unit that owns all the scopes and objectives it refers to, and
  the assembly hash is the hash of its content.
\<close>

theorem assembly_allocates_every_scope:
  assumes "assembleOrchestrationV2Architecture sha rank k scopes artifacts = Inr a"
  shows "distinct (assembly_scopes a) \<and> set (assembly_scopes a) = ss_scope_key ` set scopes
    \<and> as_admitted_fact_count a = sum_list (map ss_fact_count scopes)
    \<and> map ac_chapter_key (ax_chapters (as_architecture a)) = map ck_chapter_key (sort_key ck_order (kn_chapters k))
    \<and> mset (as_shard_hashes a) = mset (map sa_artifact_hash artifacts)
    \<and> 1 \<le> as_unit_count a \<and> as_unit_count a = length (assembly_units a)
    \<and> (\<forall>ob \<in> set (as_assessment_obligations a). \<exists>c l u unit.
         unit_at (ax_chapters (as_architecture a)) c l u = Some unit
         \<and> ao_unit_path ob = unit_path_text (Suc c) (int (Suc l)) (int (Suc u))
         \<and> set (ao_relevant_scope_ids ob) \<subseteq> set (ua_source_scope_ids unit)
         \<and> set (ao_learning_objective_refs ob) \<subseteq> set (ua_learning_objective_refs unit))
    \<and> as_assembly_hash a = sha (canon (assembly_base_json a))"
proof -
  let ?cs = "sort_key ck_order (kn_chapters k)"
  obtain xs obs where facts: "skeleton_valid k scopes artifacts" "artifacts_valid k artifacts"
    "mapE (assemble_chapter artifacts) (enumerate 0 ?cs) = Inr xs"
    "length (assembly_scopes a) = length scopes" "distinct (assembly_scopes a)"
    "set (assembly_scopes a) \<subseteq> ss_scope_key ` set scopes" "1 \<le> as_unit_count a"
    "mset obs = mset (concat (map ad_obligations xs))"
    and a: "a = (assembly_of k (sha (canon (skeleton_json k))) (sum_list (map ss_fact_count scopes)) xs obs
        (sha (canon (JArr (map obligation_json obs)))))\<lparr>as_assembly_hash := as_assembly_hash a\<rparr>"
    and h: "as_assembly_hash a = sha (canon (assembly_base_json a))"
    using assemble_Inr [OF assms] by metis
  have sel: "ax_chapters (as_architecture a) = map ad_chapter xs" "as_shard_hashes a = concat (map ad_shard_hashes xs)"
    "as_assessment_obligations a = obs" "as_admitted_fact_count a = sum_list (map ss_fact_count scopes)"
    "as_unit_count a = length (assembly_units a)"
    by (subst a, simp add: assembly_of_def Let_def assembly_units_def)+
  note nth = chapters_assembled [OF facts(3)]
  have "card (ss_scope_key ` set scopes) = length scopes"
    using facts(1) distinct_card [of "map ss_scope_key scopes"] by (simp add: skeleton_valid_def)
  then have "set (assembly_scopes a) = ss_scope_key ` set scopes"
    using facts(4-6) by (intro card_subset_eq) (auto simp: distinct_card)
  moreover have "map ac_chapter_key (ax_chapters (as_architecture a)) = map ck_chapter_key ?cs"
    using nth assemble_chapter_Inr(1) [OF nth(2)] by (intro nth_equalityI) (auto simp: sel)
  moreover have "mset (as_shard_hashes a) = mset (map sa_artifact_hash artifacts)"
    unfolding sel using facts(2,3) by (intro shard_hashes_all) auto
  moreover have "\<exists>c l u unit. unit_at (ax_chapters (as_architecture a)) c l u = Some unit
         \<and> ao_unit_path ob = unit_path_text (Suc c) (int (Suc l)) (int (Suc u))
         \<and> set (ao_relevant_scope_ids ob) \<subseteq> set (ua_source_scope_ids unit)
         \<and> set (ao_learning_objective_refs ob) \<subseteq> set (ua_learning_objective_refs unit)"
    if "ob \<in> set (as_assessment_obligations a)" for ob
  proof -
    have "ob \<in> set (concat (map ad_obligations xs))" using that facts(8) unfolding sel by (metis mset_eq_setD)
    then obtain r where "r \<in> set xs" "ob \<in> set (ad_obligations r)" by auto
    then obtain c where c: "c < length xs" "ob \<in> set (ad_obligations (xs ! c))" by (metis in_set_conv_nth)
    then have "placed_in (ac_lessons (ad_chapter (xs ! c))) c ob"
      using nth assemble_chapter_Inr(4) [OF nth(2), of c] by auto
    then obtain l u where "l < length (ac_lessons (ad_chapter (xs ! c)))"
        "u < length (la_units (ac_lessons (ad_chapter (xs ! c)) ! l))"
        "ao_unit_path ob = unit_path_text (Suc c) (int (Suc l)) (int (Suc u))"
        "set (ao_relevant_scope_ids ob) \<subseteq> set (ua_source_scope_ids (la_units (ac_lessons (ad_chapter (xs ! c)) ! l) ! u))"
        "set (ao_learning_objective_refs ob)
          \<subseteq> set (ua_learning_objective_refs (la_units (ac_lessons (ad_chapter (xs ! c)) ! l) ! u))"
      unfolding placed_in_def by blast
    then show ?thesis using c(1)
      by (intro exI [of _ c] exI [of _ l] exI [of _ u]) (simp add: sel unit_at_def)
  qed
  ultimately show ?thesis using facts(5,7) sel h by blast
qed

text \<open>One chapter in two shards, with an obligation in the second.\<close>

definition example_unit :: "string \<Rightarrow> unit_architecture" where
  "example_unit s = \<lparr>ua_title = ''U'', ua_purpose = ''P'', ua_learning_objective_refs = [''lo_1''],
     ua_source_scope_ids = [s], ua_component_plan = [\<lparr>cp_type = C_html, cp_title = ''T'', cp_rationale = ''R'',
       cp_author_review = None, cp_source_scope_ids = [s]\<rparr>], ua_media_brief = None\<rparr>"

definition example_shard :: "string \<Rightarrow> int \<Rightarrow> string \<Rightarrow> shard_obligation list \<Rightarrow> shard_artifact" where
  "example_shard h i s obs = \<lparr>sa_artifact_hash = h, sa_shard = \<lparr>hs_contract_version = 2,
     hs_source_snapshot_hash = replicate 64 (CHR ''a''), hs_chapter_key = ''ch1'', hs_order = 0, hs_shard_index = i,
     hs_shard_count = 2, hs_source_scope_ids = [s], hs_title = ''C'', hs_objective = ''O'',
     hs_lessons = [\<lparr>la_title = ''L'', la_objective = ''O'', la_learning_objectives = [''X''],
       la_learning_activities = [''Y''], la_assessment = ''Z'', la_units = [example_unit s]\<rparr>],
     hs_assessment_obligations = Some obs\<rparr>\<rparr>"

definition example_course :: course_skeleton where
  "example_course = \<lparr>kn_contract_version = 2, kn_source_snapshot_hash = replicate 64 (CHR ''a''), kn_locale = ''en'',
     kn_title = ''T'', kn_summary = ''S'', kn_target_audience = ''A'', kn_prerequisites = [],
     kn_learning_outcomes = [''O''], kn_assessment_strategy = ''Q'', kn_assumptions = [],
     kn_chapters = [\<lparr>ck_chapter_key = ''ch1'', ck_order = 0, ck_title = ''C'', ck_objective = ''O'',
       ck_learning_outcomes = None, ck_source_scope_ids = [''s1'', ''s2'']\<rparr>]\<rparr>"

definition example_catalogue :: "source_scope list" where
  "example_catalogue = [\<lparr>ss_scope_key = ''s1'', ss_fact_count = 2, ss_content_chars = 10\<rparr>,
     \<lparr>ss_scope_key = ''s2'', ss_fact_count = 3, ss_content_chars = 10\<rparr>]"

definition example_artifacts :: "shard_artifact list" where
  "example_artifacts = [example_shard (replicate 64 (CHR ''c'')) 1 ''s2''
       [\<lparr>so_planned_slot_key = ''k'', so_lesson_index = 1, so_unit_index = 1, so_component_index = 1,
         so_learning_objective_refs = [''lo_1''], so_relevant_scope_ids = [''s2''], so_relevant_evidence_fact_ids = [''f'']\<rparr>],
     example_shard (replicate 64 (CHR ''b'')) 0 ''s1'' []]"

lemmas example_defs = example_course_def example_catalogue_def example_artifacts_def example_shard_def example_unit_def

lemma example_valid: "skeleton_valid example_course example_catalogue example_artifacts" "artifacts_valid example_course example_artifacts"
  by (simp_all add: skeleton_valid_def artifacts_valid_def skeleton_scopes_def example_defs is_hash_def list_all_iff
      char_class_defs MAX_CHAPTERS_def MAX_SHARDS_def isSafeInteger_def MAX_SAFE_INTEGER_def)

definition example_chapter :: assembled_chapter where
  "example_chapter = \<lparr>ad_chapter = \<lparr>ac_chapter_key = ''ch1'', ac_order = 0, ac_title = ''C'', ac_objective = ''O'',
       ac_learning_outcomes = [], ac_source_scope_ids = [''s1'', ''s2''],
       ac_lessons = concat (map (\<lambda>a. hs_lessons (sa_shard a)) (rev example_artifacts))\<rparr>,
     ad_shard_hashes = [replicate 64 (CHR ''b''), replicate 64 (CHR ''c'')],
     ad_obligations = [\<lparr>ao_planned_slot_key = ''k'', ao_unit_path = unit_path_text 1 2 1, ao_planned_component_index = 1,
       ao_learning_objective_refs = [''lo_1''], ao_relevant_scope_ids = [''s2''], ao_relevant_evidence_fact_ids = [''f'']\<rparr>]\<rparr>"

lemma example_assembled:
  "mapE (assemble_chapter example_artifacts) (enumerate 0 (sort_key ck_order (kn_chapters example_course))) = Inr [example_chapter]"
  by (simp add: assemble_chapter_def Let_def chapter_artifacts_def shards_match_def example_defs example_chapter_def
      lesson_scopes_def place_obligation_def js_at_def isSafeInteger_def MAX_SAFE_INTEGER_def)

lemma example_units: "chapter_units [ad_chapter example_chapter] = [example_unit ''s1'', example_unit ''s2'']"
  by (simp add: chapter_units_def example_chapter_def example_artifacts_def example_shard_def)

lemma example_size:
  "utf8_length (json_text (assembly_base_json (assembly_of example_course (example_sha t) 5 [example_chapter]
     (ad_obligations example_chapter) (example_sha t')))) \<le> MAX_ASSEMBLY_BYTES"
proof -
  let ?v = "assembly_base_json (assembly_of example_course (example_sha t) 5 [example_chapter]
     (ad_obligations example_chapter) (example_sha t'))"
  have "json_bound ?v \<le> 20000"
    by (simp add: assembly_base_json_def assembly_of_def Let_def example_units)
      (simp add: architecture_json_def architecture_chapter_json_def lesson_json_def unit_json_def component_json_def
        media_json_def obligation_json_def strings_json_def opt_field_def example_chapter_def example_defs example_sha_def
        unit_path_text_def int_text_def nat_text.simps)
  then show ?thesis using json_text_length [of ?v] utf8_length_bound [of "json_text ?v"] by (simp add: MAX_ASSEMBLY_BYTES_def)
qed

lemma example_accepted: "ok (assembleOrchestrationV2Architecture example_sha id example_course example_catalogue example_artifacts)"
proof -
  have cat: "length example_catalogue = 2" "ss_scope_key ` set example_catalogue = {''s1'', ''s2''}"
    "sum_list (map ss_fact_count example_catalogue) = 5" by (simp_all add: example_catalogue_def)
  have scopes: "concat (map (\<lambda>c. concat (map lesson_scopes (ac_lessons c))) [ad_chapter example_chapter]) = [''s1'', ''s2'']"
    unfolding scopes_of_units example_units by (simp add: example_unit_def)
  have plans: "sum_list (map (\<lambda>u. length (ua_component_plan u)) (chapter_units [ad_chapter example_chapter])) = 2"
    unfolding example_units by (simp add: example_unit_def)
  have obs: "concat (map ad_obligations [example_chapter]) = ad_obligations example_chapter"
    "sort_key (\<lambda>ob. id (ao_planned_slot_key ob)) (ad_obligations example_chapter) = ad_obligations example_chapter"
    "distinct (map ao_planned_slot_key (ad_obligations example_chapter))" by (simp_all add: example_chapter_def)
  show ?thesis
    unfolding assembleOrchestrationV2Architecture_def example_assembled Let_def bindE.simps list.map(2) list.map(1) [of ad_chapter]
    using scopes plans obs cat example_size example_valid
    by (simp add: archHash_plain [OF plain_obligations_json] example_units ok_iff MAX_UNITS_def MAX_COMPONENT_PLANS_def safeInteger_def isSafeInteger_def MAX_SAFE_INTEGER_def)
qed

theorem assembly_allocates_every_scope_witness:
  "\<exists>a. distinct (assembly_scopes a) \<and> set (assembly_scopes a) = {''s1'', ''s2''} \<and> as_admitted_fact_count a = 5"
proof -
  obtain a where "assembleOrchestrationV2Architecture example_sha id example_course example_catalogue example_artifacts = Inr a"
    using example_accepted by (auto simp: ok_iff)
  from assembly_allocates_every_scope [OF this] show ?thesis
    by (intro exI [of _ a]) (simp add: example_catalogue_def)
qed

end
