(* ===== verification/Inventory.thy ===== *)
theory Inventory
  imports Architecture Manifest_Seal
begin

text \<open>
  The UI inventory of an accepted architecture and the remaining tasks of its run
  (ai-id/orchestration/steps/lesson-author-orchestration-v2-inventory.logic.ts): the nodes of the course
  tree with their identifiers and contracts, the bindings of the units, and the publication that appends
  one task per unit, one validation per chapter and the finalization to the tasks already planned, and
  seals the whole graph. Assemblies of IDM runs (with their author notes) are not part of this theory;
  \<open>sha\<close> gives the hexadecimal SHA-256 digest of a text.
\<close>

section \<open>Identifiers\<close>

datatype inventory_error = Inventory_invalid | Inventory_too_large
  | Inventory_hash_error manifest_error | Inventory_json_error canonical_error | Inventory_seal_error manifest_error

definition MAX_NODES :: nat where "MAX_NODES = 32768"
definition MAX_INVENTORY_BYTES :: nat where "MAX_INVENTORY_BYTES = 64 * 1024 * 1024"
definition MAX_NODE_BYTES :: nat where "MAX_NODE_BYTES = 1024 * 1024"

definition invHash :: "(string \<Rightarrow> string) \<Rightarrow> jsval \<Rightarrow> inventory_error + string" where
  "invHash sha v = (case orchestrationV2Hash sha v of Inl e \<Rightarrow> Inl (Inventory_hash_error e) | Inr h \<Rightarrow> Inr h)"

definition invPersisted :: "jsval \<Rightarrow> inventory_error + jsval" where
  "invPersisted v = (case toPersistedJson v of Inl e \<Rightarrow> Inl (Inventory_json_error e) | Inr w \<Rightarrow> Inr w)"

definition json_bytes :: "jsval \<Rightarrow> nat" where
  "json_bytes v = utf8_length (json_text v)"

text \<open>The first sixteen bytes of the digest as a UUID: version 8 and the RFC variant are forced into it.\<close>

definition variant_digit :: "char \<Rightarrow> char" where
  "variant_digit c = hex_digit (8 + hex_value c mod 4)"

definition uuid_text :: "string \<Rightarrow> string" where
  "uuid_text d = take 8 d @ ''-'' @ take 4 (drop 8 d) @ ''-8'' @ take 3 (drop 13 d) @ ''-''
     @ [variant_digit (d ! 16)] @ take 3 (drop 17 d) @ ''-'' @ take 12 (drop 20 d)"

definition orchestrationV2DeterministicUuid :: "(string \<Rightarrow> string) \<Rightarrow> string \<Rightarrow> string \<Rightarrow> inventory_error + string" where
  "orchestrationV2DeterministicUuid sha namespace v =
     ensure Inventory_invalid (isUuid namespace \<and> v \<noteq> [] \<and> length v \<le> 512)
       (Inr (uuid_text (sha (to_lower namespace @ [CHR 0x00] @ v))))"

definition orchestrationV2ComponentPlanId :: "(string \<Rightarrow> string) \<Rightarrow> string \<Rightarrow> string \<Rightarrow> inventory_error + string" where
  "orchestrationV2ComponentPlanId sha assembly_hash path =
     ensure Inventory_invalid (is_hash assembly_hash \<and> path \<noteq> [] \<and> length path \<le> 240)
       (bindE (invHash sha (JObj [(''assembly'', JStr assembly_hash), (''path'', JStr path)])) (\<lambda>h.
         Inr (''cp2_'' @ take 32 h)))"

section \<open>Nodes\<close>

datatype node_kind = N_course | N_chapter | N_lesson | N_unit | N_component | N_media_brief

fun node_kind_text :: "node_kind \<Rightarrow> string" where
  "node_kind_text N_course = ''course''"
| "node_kind_text N_chapter = ''chapter''"
| "node_kind_text N_lesson = ''lesson''"
| "node_kind_text N_unit = ''unit''"
| "node_kind_text N_component = ''component''"
| "node_kind_text N_media_brief = ''media_brief''"

text \<open>A node before its identifiers and its contract hash are known.\<close>

record candidate =
  nd_path :: string
  nd_parent_path :: "string option"
  nd_kind :: node_kind
  nd_sort_order :: nat
  nd_protected_contract :: jsval
  nd_baseline :: "jsval option"

record inventory_node = candidate +
  nd_id :: string
  nd_parent_id :: "string option"
  nd_contract_hash :: string

definition baseline_json :: "jsval option \<Rightarrow> jsval" where
  "baseline_json b = (case b of None \<Rightarrow> JNull | Some v \<Rightarrow> v)"

definition node_json :: "inventory_node \<Rightarrow> jsval" where
  "node_json n = JObj [(''canonical_path'', JStr (nd_path n)), (''parent_path'', json_opt (nd_parent_path n)),
     (''kind'', JStr (node_kind_text (nd_kind n))), (''sort_order'', JInt (int (nd_sort_order n))),
     (''protected_contract'', nd_protected_contract n), (''baseline'', baseline_json (nd_baseline n)),
     (''id'', JStr (nd_id n)), (''parent_id'', json_opt (nd_parent_id n)),
     (''contract_hash'', JStr (nd_contract_hash n))]"

definition sibling_key :: "'a candidate_scheme \<Rightarrow> string" where
  "sibling_key c = (case nd_parent_path c of None \<Rightarrow> [] | Some p \<Rightarrow> p) @ '':'' @ nat_text (nd_sort_order c)"

definition path_id :: "inventory_node list \<Rightarrow> string \<Rightarrow> string option" where
  "path_id nodes p = map_option nd_id (find (\<lambda>n. nd_path n = p) nodes)"

definition parent_of :: "inventory_node list \<Rightarrow> string option \<Rightarrow> inventory_error + string option" where
  "parent_of nodes parent = (case parent of None \<Rightarrow> Inr None
     | Some p \<Rightarrow> (case path_id nodes p of None \<Rightarrow> Inl Inventory_invalid | Some i \<Rightarrow> Inr (Some i)))"

text \<open>\<open>add\<close>: the nodes so far and the bytes they take.\<close>

definition add_node :: "(string \<Rightarrow> string) \<Rightarrow> string \<Rightarrow> inventory_node list \<times> nat \<Rightarrow> candidate
    \<Rightarrow> inventory_error + inventory_node list \<times> nat" where
  "add_node sha run st c = (let nodes = fst st in
     bindE (orchestrationV2DeterministicUuid sha run (''node:'' @ nd_path c)) (\<lambda>i.
      bindE (parent_of nodes (nd_parent_path c)) (\<lambda>parent.
       ensure Inventory_invalid (nd_path c \<notin> nd_path ` set nodes \<and> sibling_key c \<notin> sibling_key ` set nodes
          \<and> length (nd_path c) \<le> 240 \<and> json_bytes (nd_protected_contract c) \<le> MAX_NODE_BYTES
          \<and> (case nd_baseline c of None \<Rightarrow> True | Some b \<Rightarrow> json_bytes b \<le> MAX_NODE_BYTES))
        (bindE (invPersisted (nd_protected_contract c)) (\<lambda>contract.
          bindE (invHash sha contract) (\<lambda>h.
           let n = candidate.extend (c\<lparr>nd_protected_contract := contract\<rparr>) (inventory_node.fields i parent h);
               size = snd st + json_bytes (node_json n) in
           ensure Inventory_too_large (length nodes < MAX_NODES \<and> size \<le> MAX_INVENTORY_BYTES)
             (Inr (nodes @ [n], size))))))))"

fun add_nodes :: "(string \<Rightarrow> string) \<Rightarrow> string \<Rightarrow> inventory_node list \<times> nat \<Rightarrow> (inventory_error + candidate) list
    \<Rightarrow> inventory_error + inventory_node list \<times> nat" where
  "add_nodes sha run st [] = Inr st"
| "add_nodes sha run st (c # cs) = bindE c (\<lambda>c. bindE (add_node sha run st c) (\<lambda>st. add_nodes sha run st cs))"

section \<open>The nodes of an architecture\<close>

definition content_of :: "string \<Rightarrow> string option \<Rightarrow> jsval \<Rightarrow> jsval" where
  "content_of title purpose d = JObj [(''title'', JStr title), (''purpose'', json_opt purpose), (''data'', d),
     (''implementation_notes'', JNull)]"

definition refs_json :: "string list \<Rightarrow> string list \<Rightarrow> jsval" where
  "refs_json scopes objectives = JObj [(''source_refs'', JArr []), (''primary_evidence_scope_ids'', strings_json scopes),
     (''supporting_evidence_scope_ids'', JArr []), (''learning_objective_refs'', strings_json objectives)]"

record story_extra =
  se_chapter_count :: nat
  se_objective_slots :: nat
  se_media_type :: "string option"
  se_brief_format :: "string option"

definition no_extra :: story_extra where
  "no_extra = \<lparr>se_chapter_count = 0, se_objective_slots = 0, se_media_type = None, se_brief_format = None\<rparr>"

definition title_field :: "jsval \<Rightarrow> jsval" where
  "title_field b = (case b of JObj ps \<Rightarrow> (case map_of ps ''title'' of Some t \<Rightarrow> t | None \<Rightarrow> JUndefined) | _ \<Rightarrow> JUndefined)"

definition storyboard :: "(string \<Rightarrow> string) \<Rightarrow> node_kind \<Rightarrow> string \<Rightarrow> string option \<Rightarrow> nat \<Rightarrow> jsval
    \<Rightarrow> string list \<Rightarrow> string list \<Rightarrow> story_extra \<Rightarrow> inventory_error + candidate" where
  "storyboard sha kind path parent order baseline scopes objectives extra =
     bindE (invPersisted baseline) (\<lambda>stored. bindE (invHash sha stored) (\<lambda>h.
       Inr \<lparr>nd_path = path, nd_parent_path = parent, nd_kind = kind, nd_sort_order = order,
         nd_protected_contract = JObj [(''storyboard_version'', JInt 1), (''kind'', JStr (node_kind_text kind)),
           (''canonical_path'', JStr path), (''display_title'', title_field stored), (''baseline_hash'', JStr h),
           (''chapter_count'', JInt (int (se_chapter_count extra))),
           (''objective_slots'', JInt (int (se_objective_slots extra))),
           (''media_type'', json_opt (se_media_type extra)), (''brief_format'', json_opt (se_brief_format extra)),
           (''readonly_references'', refs_json scopes objectives)],
         nd_baseline = (if kind = N_unit then None else Some stored)\<rparr>))"

definition course_candidate :: "(string \<Rightarrow> string) \<Rightarrow> assembly \<Rightarrow> inventory_error + candidate" where
  "course_candidate sha a = (let x = as_architecture a in
     storyboard sha N_course ''course'' None 0
       (content_of (ax_title x) None (JObj [(''summary'', JStr (ax_summary x)),
          (''target_audience'', JStr (ax_target_audience x)), (''prerequisites'', strings_json (ax_prerequisites x)),
          (''assessment_strategy'', JStr (ax_assessment_strategy x))]))
       (concat (map ac_source_scope_ids (ax_chapters x))) [] (no_extra\<lparr>se_chapter_count := as_chapter_count a\<rparr>))"

definition chapter_path :: "nat \<Rightarrow> string" where
  "chapter_path c = ''chapter_'' @ nat_text (Suc c)"

definition lesson_path :: "nat \<Rightarrow> nat \<Rightarrow> string" where
  "lesson_path c l = chapter_path c @ ''.lesson_'' @ nat_text (Suc l)"

definition unit_path :: "nat \<Rightarrow> nat \<Rightarrow> nat \<Rightarrow> string" where
  "unit_path c l u = lesson_path c l @ ''.unit_'' @ nat_text (Suc u)"

definition component_path :: "nat \<Rightarrow> nat \<Rightarrow> nat \<Rightarrow> nat \<Rightarrow> string" where
  "component_path c l u k = unit_path c l u @ ''.component_'' @ nat_text (Suc k)"

definition chapter_candidate :: "(string \<Rightarrow> string) \<Rightarrow> nat \<Rightarrow> architecture_chapter \<Rightarrow> inventory_error + candidate" where
  "chapter_candidate sha i c = storyboard sha N_chapter (chapter_path i) (Some ''course'') i
     (content_of (ac_title c) None (JObj [(''objective'', JStr (ac_objective c)),
        (''learning_outcomes'', strings_json (ac_learning_outcomes c))]))
     (ac_source_scope_ids c) [] no_extra"

definition lesson_candidate :: "(string \<Rightarrow> string) \<Rightarrow> nat \<Rightarrow> nat \<Rightarrow> lesson_architecture \<Rightarrow> inventory_error + candidate" where
  "lesson_candidate sha i j l = storyboard sha N_lesson (lesson_path i j) (Some (chapter_path i)) j
     (content_of (la_title l) None (JObj [(''objective'', JStr (la_objective l)),
        (''learning_objectives'', strings_json (la_learning_objectives l)),
        (''learning_activities'', strings_json (la_learning_activities l)), (''assessment'', JStr (la_assessment l))]))
     (lesson_scopes l) (map (\<lambda>n. ''lo_'' @ nat_text (Suc n)) [0..<length (la_learning_objectives l)])
     (no_extra\<lparr>se_objective_slots := length (la_learning_objectives l)\<rparr>)"

definition unit_candidate :: "(string \<Rightarrow> string) \<Rightarrow> nat \<Rightarrow> nat \<Rightarrow> nat \<Rightarrow> unit_architecture \<Rightarrow> inventory_error + candidate" where
  "unit_candidate sha i j k u = storyboard sha N_unit (unit_path i j k) (Some (lesson_path i j)) k
     (content_of (ua_title u) (Some (ua_purpose u)) (JObj [])) (ua_source_scope_ids u) (ua_learning_objective_refs u) no_extra"

definition no_review :: author_review where
  "no_review = \<lparr>ar_purpose = None, ar_example_scenario = None, ar_visual_asset = None, ar_user_behavior_navigation = None\<rparr>"

definition component_candidate :: "(string \<Rightarrow> string) \<Rightarrow> string \<Rightarrow> nat \<Rightarrow> nat \<Rightarrow> nat \<Rightarrow> unit_architecture
    \<Rightarrow> nat \<times> component_plan \<Rightarrow> inventory_error + candidate" where
  "component_candidate sha assembly_hash i j k u nc = (let path = component_path i j k (fst nc); p = snd nc in
     bindE (orchestrationV2ComponentPlanId sha assembly_hash path) (\<lambda>plan_id.
       Inr \<lparr>nd_path = path, nd_parent_path = Some (unit_path i j k), nd_kind = N_component, nd_sort_order = fst nc,
         nd_protected_contract = JObj [(''binding_version'', JInt 1), (''component_type'', JStr (component_text (cp_type p))),
           (''display_title'', JStr (cp_title p)),
           (''metadata'', JObj ([(''component_plan_id'', JStr plan_id), (''source_fact_ids'', JArr []),
              (''covered_source_fact_ids'', JArr []), (''supporting_evidence_fact_ids'', JArr []),
              (''source_scope_ids'', strings_json (cp_source_scope_ids p)),
              (''learning_objective_refs'', strings_json (ua_learning_objective_refs u)),
              (''generated_by'', JStr ''lesson_author_ai''), (''rationale'', JStr (cp_rationale p)),
              (''author_review'', review_json (case cp_author_review p of None \<Rightarrow> no_review | Some r \<Rightarrow> r))]
              @ (if cp_type p = C_problem then [(''weight'', JInt 1)] else [])))],
         nd_baseline = None\<rparr>))"

definition media_candidates :: "(string \<Rightarrow> string) \<Rightarrow> nat \<Rightarrow> nat \<Rightarrow> nat \<Rightarrow> unit_architecture \<Rightarrow> (inventory_error + candidate) list" where
  "media_candidates sha i j k u = (case ua_media_brief u of None \<Rightarrow> []
     | Some m \<Rightarrow> [storyboard sha N_media_brief (unit_path i j k @ ''.media_1'') (Some (unit_path i j k))
         (length (ua_component_plan u))
         (content_of (mb_title m) (Some (mb_rationale m)) (JObj [(''content_points'', strings_json (mb_content_points m)),
            (''context_description'', JStr (mb_context_description m))]))
         (ua_source_scope_ids u) (ua_learning_objective_refs u)
         (no_extra\<lparr>se_media_type := Some (media_text (mb_type m)), se_brief_format := Some ''structured_v2''\<rparr>)])"

definition unit_candidates :: "(string \<Rightarrow> string) \<Rightarrow> string \<Rightarrow> nat \<Rightarrow> nat \<Rightarrow> nat \<times> unit_architecture
    \<Rightarrow> (inventory_error + candidate) list" where
  "unit_candidates sha assembly_hash i j ku = unit_candidate sha i j (fst ku) (snd ku)
     # map (component_candidate sha assembly_hash i j (fst ku) (snd ku)) (enumerate 0 (ua_component_plan (snd ku)))
     @ media_candidates sha i j (fst ku) (snd ku)"

definition chapter_candidates :: "(string \<Rightarrow> string) \<Rightarrow> string \<Rightarrow> nat \<Rightarrow> architecture_chapter
    \<Rightarrow> (inventory_error + candidate) list" where
  "chapter_candidates sha assembly_hash i c = chapter_candidate sha i c
     # concat (map (\<lambda>(j, l). lesson_candidate sha i j l
         # concat (map (unit_candidates sha assembly_hash i j) (enumerate 0 (la_units l)))) (enumerate 0 (ac_lessons c)))"

definition chapter_unit_count :: "architecture_chapter \<Rightarrow> nat" where
  "chapter_unit_count c = length (concat (map la_units (ac_lessons c)))"

fun add_chapters :: "(string \<Rightarrow> string) \<Rightarrow> string \<Rightarrow> string \<Rightarrow> inventory_node list \<times> nat \<Rightarrow> (nat \<times> architecture_chapter) list
    \<Rightarrow> inventory_error + inventory_node list \<times> nat" where
  "add_chapters sha run assembly_hash st [] = Inr st"
| "add_chapters sha run assembly_hash st (ic # cs) =
     bindE (add_nodes sha run st (chapter_candidates sha assembly_hash (fst ic) (snd ic))) (\<lambda>st.
       ensure Inventory_too_large (1 \<le> chapter_unit_count (snd ic) \<and> chapter_unit_count (snd ic) \<le> 4096)
         (add_chapters sha run assembly_hash st cs))"

section \<open>The identity of the inventory\<close>

record unit_binding =
  ub_chapter_key :: string
  ub_chapter_node_id :: string
  ub_unit_node_id :: string
  ub_unit_path :: string
  ub_unit_contract_hash :: string
  ub_source_scope_ids :: "string list"
  ub_unit :: unit_architecture

record inventory_identity =
  iy_nodes :: "inventory_node list"
  iy_unit_bindings :: "unit_binding list"
  iy_inventory_hash :: string
  iy_unit_count :: nat
  iy_component_count :: nat
  iy_media_brief_count :: nat

text \<open>Lookups of nodes the caller has just added: the source asserts that they succeed.\<close>

definition known_id :: "inventory_node list \<Rightarrow> string \<Rightarrow> string" where
  "known_id nodes p = (case path_id nodes p of None \<Rightarrow> [] | Some i \<Rightarrow> i)"

definition contract_hash_of :: "inventory_node list \<Rightarrow> string \<Rightarrow> string" where
  "contract_hash_of nodes i = (case find (\<lambda>n. nd_id n = i) nodes of None \<Rightarrow> [] | Some n \<Rightarrow> nd_contract_hash n)"

definition unit_binding_of :: "inventory_node list \<Rightarrow> nat \<Rightarrow> architecture_chapter \<Rightarrow> nat \<Rightarrow> nat \<times> unit_architecture \<Rightarrow> unit_binding" where
  "unit_binding_of nodes i c j ku = (let path = unit_path i j (fst ku); node = known_id nodes path in
     \<lparr>ub_chapter_key = ac_chapter_key c, ub_chapter_node_id = known_id nodes (chapter_path i), ub_unit_node_id = node,
      ub_unit_path = path, ub_unit_contract_hash = contract_hash_of nodes node,
      ub_source_scope_ids = ua_source_scope_ids (snd ku), ub_unit = snd ku\<rparr>)"

definition chapter_bindings :: "inventory_node list \<Rightarrow> nat \<times> architecture_chapter \<Rightarrow> unit_binding list" where
  "chapter_bindings nodes ic = concat (map (\<lambda>(j, l). map (unit_binding_of nodes (fst ic) (snd ic) j) (enumerate 0 (la_units l)))
     (enumerate 0 (ac_lessons (snd ic))))"

definition identity_json :: "(string \<Rightarrow> string) \<Rightarrow> inventory_node \<Rightarrow> inventory_error + jsval" where
  "identity_json sha n =
     bindE (case nd_baseline n of None \<Rightarrow> Inr JNull | Some b \<Rightarrow> bindE (invHash sha b) (\<lambda>h. Inr (JStr h))) (\<lambda>baseline_hash.
       Inr (JObj [(''id'', JStr (nd_id n)), (''path'', JStr (nd_path n)), (''parent_id'', json_opt (nd_parent_id n)),
         (''kind'', JStr (node_kind_text (nd_kind n))), (''order'', JInt (int (nd_sort_order n))),
         (''contract_hash'', JStr (nd_contract_hash n)), (''baseline_hash'', baseline_hash)]))"

definition component_count :: "assembly \<Rightarrow> nat" where
  "component_count a = sum_list (map (\<lambda>u. length (ua_component_plan u)) (assembly_units a))"

definition prepareOrchestrationV2InventoryIdentity :: "(string \<Rightarrow> string) \<Rightarrow> string \<Rightarrow> assembly
    \<Rightarrow> inventory_error + inventory_identity" where
  "prepareOrchestrationV2InventoryIdentity sha run a = (let chapters = enumerate 0 (ax_chapters (as_architecture a)) in
     ensure Inventory_invalid (isUuid run \<and> is_hash (as_assembly_hash a))
      (bindE (add_nodes sha run ([], 0) [course_candidate sha a]) (\<lambda>st.
        bindE (add_chapters sha run (as_assembly_hash a) st chapters) (\<lambda>st.
         let nodes = fst st; units = length (assembly_units a); components = component_count a in
         ensure Inventory_invalid (units = as_unit_count a \<and> components = as_component_plan_count a \<and> units \<noteq> 0)
          (bindE (mapE (identity_json sha) nodes) (\<lambda>js.
           bindE (invHash sha (JArr js)) (\<lambda>h.
            Inr \<lparr>iy_nodes = nodes, iy_unit_bindings = concat (map (chapter_bindings nodes) chapters),
              iy_inventory_hash = h, iy_unit_count = units, iy_component_count = components,
              iy_media_brief_count = length (filter (\<lambda>u. ua_media_brief u \<noteq> None) (assembly_units a))\<rparr>)))))))"

section \<open>The publication\<close>

record stored_task = persisted_task +
  st_id :: string

record inventory_budgets =
  ib_unit :: budget
  ib_chapter_validation_budget_ms :: int
  ib_finalization_budget_ms :: int

record inventory_publication =
  ip_assembly_hash :: string
  ip_admitted_fact_count :: int
  ip_inventory_hash :: string
  ip_unit_count :: nat
  ip_component_count :: nat
  ip_media_brief_count :: nat
  ip_nodes :: "inventory_node list"
  ip_unit_bindings :: "unit_binding list"
  ip_new_tasks :: "stored_task list"
  ip_manifest :: persisted_manifest
  ip_receipt_hash :: string

definition planned_kinds :: "task_kind set" where
  "planned_kinds = {Source_snapshot, Course_skeleton, Chapter_blueprint, Validate_architecture, Publish_inventory}"

definition existing_ok :: "stored_task list \<Rightarrow> bool" where
  "existing_ok ts \<longleftrightarrow> ts \<noteq> [] \<and> list_all (\<lambda>(i, t). isUuid (st_id t) \<and> pt_ordinal t = int i) (enumerate 0 ts)
     \<and> pt_kind (last ts) = Publish_inventory \<and> list_all (\<lambda>t. pt_kind t \<in> planned_kinds) ts"

text \<open>\<open>append\<close>: a new task under the next ordinal.\<close>

definition new_task :: "(string \<Rightarrow> string) \<Rightarrow> string \<Rightarrow> nat \<Rightarrow> persisted_task \<Rightarrow> inventory_error + stored_task" where
  "new_task sha run ordinal t = ensure Inventory_invalid (is_key (pt_key t))
     (bindE (orchestrationV2DeterministicUuid sha run (''task:'' @ pt_key t)) (\<lambda>i.
       Inr (persisted_task.extend (t\<lparr>pt_ordinal := int ordinal\<rparr>) (stored_task.fields i))))"

definition unit_task :: "(string \<Rightarrow> string) \<Rightarrow> assembly \<Rightarrow> string \<Rightarrow> budget \<Rightarrow> string \<Rightarrow> nat \<Rightarrow> unit_binding
    \<Rightarrow> inventory_error + persisted_task" where
  "unit_task sha a inventory_hash b publish_key n ub = (let key = unit_task_key (ub_chapter_key ub) n in
     bindE (invHash sha (JObj [(''assembly_hash'', JStr (as_assembly_hash a)), (''inventory_hash'', JStr inventory_hash),
        (''node_id'', JStr (ub_unit_node_id ub)), (''contract_hash'', JStr (ub_unit_contract_hash ub)),
        (''source_scope_ids'', strings_json (ub_source_scope_ids ub))])) (\<lambda>context.
      bindE (invHash sha (JObj [(''contract_version'', JInt 2), (''task_key'', JStr key), (''kind'', JStr (kind_text Generate_unit)),
        (''chapter_key'', JStr (ub_chapter_key ub)), (''node_id'', JStr (ub_unit_node_id ub)),
        (''input_context_hash'', JStr context), (''budget'', budget_json b)])) (\<lambda>contract.
       Inr \<lparr>pt_ordinal = 0, pt_key = key, pt_kind = Generate_unit, pt_chapter_key = Some (ub_chapter_key ub),
         pt_node_id = Some (ub_unit_node_id ub), pt_contract_hash = contract, pt_input_context_hash = Some context,
         pt_priority = 50, pt_max_attempts = 2, pt_depends_on = [publish_key], pt_budget = b\<rparr>)))"

definition keys_of_chapter :: "(string \<times> string list) list \<Rightarrow> string \<Rightarrow> string list" where
  "keys_of_chapter keys ch = (case map_of keys ch of None \<Rightarrow> [] | Some ks \<Rightarrow> ks)"

text \<open>The unit tasks in the order of the bindings, and the keys of each chapter's units.\<close>

fun unit_tasks :: "(string \<Rightarrow> string) \<Rightarrow> string \<Rightarrow> assembly \<Rightarrow> string \<Rightarrow> budget \<Rightarrow> string \<Rightarrow> nat
    \<Rightarrow> (string \<times> string list) list \<Rightarrow> unit_binding list \<Rightarrow> inventory_error + stored_task list \<times> (string \<times> string list) list" where
  "unit_tasks sha run a ih b pk ordinal keys [] = Inr ([], keys)"
| "unit_tasks sha run a ih b pk ordinal keys (ub # ubs) = (let ks = keys_of_chapter keys (ub_chapter_key ub) in
     bindE (unit_task sha a ih b pk (length ks) ub) (\<lambda>t.
      bindE (new_task sha run ordinal t) (\<lambda>t.
       bindE (unit_tasks sha run a ih b pk (Suc ordinal) (js_map_set (ub_chapter_key ub) (ks @ [pt_key t]) keys) ubs) (\<lambda>r.
        Inr (t # fst r, snd r)))))"

definition chapter_task :: "(string \<Rightarrow> string) \<Rightarrow> assembly \<Rightarrow> string \<Rightarrow> int \<Rightarrow> (string \<times> string list) list \<Rightarrow> unit_binding list
    \<Rightarrow> architecture_chapter \<Rightarrow> inventory_error + persisted_task" where
  "chapter_task sha a ih ms keys ubs c = (let ch = ac_chapter_key c; key = validate_task_key ch in
     (case (map_of keys ch, find (\<lambda>ub. ub_chapter_key ub = ch) ubs) of
        (Some unit_keys, Some ub) \<Rightarrow>
          bindE (invHash sha (JObj [(''assembly_hash'', JStr (as_assembly_hash a)), (''inventory_hash'', JStr ih),
             (''chapter_key'', JStr ch), (''unit_task_keys'', strings_json unit_keys)])) (\<lambda>context.
           bindE (invHash sha (JObj [(''contract_version'', JInt 2), (''task_key'', JStr key),
              (''kind'', JStr (kind_text Validate_chapter)), (''chapter_key'', JStr ch),
              (''node_id'', JStr (ub_chapter_node_id ub)), (''input_context_hash'', JStr context),
              (''budget'', budget_json (idle_budget ms))])) (\<lambda>contract.
            Inr \<lparr>pt_ordinal = 0, pt_key = key, pt_kind = Validate_chapter, pt_chapter_key = Some ch,
              pt_node_id = Some (ub_chapter_node_id ub), pt_contract_hash = contract,
              pt_input_context_hash = Some context, pt_priority = 60, pt_max_attempts = 2,
              pt_depends_on = unit_keys, pt_budget = idle_budget ms\<rparr>))
      | _ \<Rightarrow> Inl Inventory_invalid))"

fun validation_tasks :: "(string \<Rightarrow> string) \<Rightarrow> string \<Rightarrow> assembly \<Rightarrow> string \<Rightarrow> int \<Rightarrow> (string \<times> string list) list
    \<Rightarrow> unit_binding list \<Rightarrow> nat \<Rightarrow> architecture_chapter list \<Rightarrow> inventory_error + stored_task list" where
  "validation_tasks sha run a ih ms keys ubs ordinal [] = Inr []"
| "validation_tasks sha run a ih ms keys ubs ordinal (c # cs) =
     bindE (chapter_task sha a ih ms keys ubs c) (\<lambda>t.
      bindE (new_task sha run ordinal t) (\<lambda>t.
       bindE (validation_tasks sha run a ih ms keys ubs (Suc ordinal) cs) (\<lambda>ts. Inr (t # ts))))"

definition final_course_task :: "(string \<Rightarrow> string) \<Rightarrow> assembly \<Rightarrow> string \<Rightarrow> int \<Rightarrow> string list \<Rightarrow> inventory_error + persisted_task" where
  "final_course_task sha a ih ms validations =
     bindE (invHash sha (JObj [(''assembly_hash'', JStr (as_assembly_hash a)), (''inventory_hash'', JStr ih),
        (''chapter_validation_keys'', strings_json validations)])) (\<lambda>context.
      bindE (invHash sha (JObj [(''contract_version'', JInt 2), (''task_key'', JStr ''course:finalize''),
        (''kind'', JStr (kind_text Finalize_course)), (''input_context_hash'', JStr context),
        (''budget'', budget_json (idle_budget ms))])) (\<lambda>contract.
       Inr \<lparr>pt_ordinal = 0, pt_key = ''course:finalize'', pt_kind = Finalize_course, pt_chapter_key = None,
         pt_node_id = None, pt_contract_hash = contract, pt_input_context_hash = Some context, pt_priority = 70,
         pt_max_attempts = 2, pt_depends_on = validations, pt_budget = idle_budget ms\<rparr>))"

definition publication_receipt_json :: "assembly \<Rightarrow> inventory_identity \<Rightarrow> persisted_manifest \<Rightarrow> jsval" where
  "publication_receipt_json a y m = JObj [(''contract'', JStr ''lesson-author-inventory-publication-v2''),
     (''assembly_hash'', JStr (as_assembly_hash a)), (''admitted_fact_count'', JInt (as_admitted_fact_count a)),
     (''inventory_hash'', JStr (iy_inventory_hash y)), (''manifest_hash'', JStr (mf_hash m)),
     (''node_count'', JInt (int (length (iy_nodes y)))), (''unit_count'', JInt (int (iy_unit_count y))),
     (''component_count'', JInt (int (iy_component_count y))),
     (''media_brief_count'', JInt (int (iy_media_brief_count y))), (''task_count'', JInt (int (length (mf_tasks m))))]"

definition seal_result :: "manifest_error + persisted_manifest \<Rightarrow> inventory_error + persisted_manifest" where
  "seal_result r = (case r of Inl e \<Rightarrow> Inl (Inventory_seal_error e) | Inr m \<Rightarrow> Inr m)"

definition prepareOrchestrationV2InventoryPublication :: "(string \<Rightarrow> string) \<Rightarrow> string \<Rightarrow> assembly \<Rightarrow> stored_task list
    \<Rightarrow> inventory_budgets \<Rightarrow> inventory_error + inventory_publication" where
  "prepareOrchestrationV2InventoryPublication sha run a existing_tasks budgets =
     ensure Inventory_invalid (isUuid run \<and> is_hash (as_assembly_hash a) \<and> existing_tasks \<noteq> []
         \<and> isSafeInteger (ib_chapter_validation_budget_ms budgets) \<and> isSafeInteger (ib_finalization_budget_ms budgets))
      (let existing = sort_key pt_ordinal existing_tasks; n = length existing in
       ensure Inventory_invalid (existing_ok existing)
        (bindE (prepareOrchestrationV2InventoryIdentity sha run a) (\<lambda>y.
         let ih = iy_inventory_hash y; ubs = iy_unit_bindings y in
         bindE (unit_tasks sha run a ih (ib_unit budgets) (pt_key (last existing)) n [] ubs) (\<lambda>(units, keys).
          bindE (validation_tasks sha run a ih (ib_chapter_validation_budget_ms budgets) keys ubs (n + length units)
             (ax_chapters (as_architecture a))) (\<lambda>validations.
           bindE (final_course_task sha a ih (ib_finalization_budget_ms budgets) (map pt_key validations)) (\<lambda>f.
            bindE (new_task sha run (n + length units + length validations) f) (\<lambda>final.
             let tasks = units @ validations @ [final] in
             bindE (seal_result (sealOrchestrationV2PersistedManifest sha (as_source_snapshot_hash a)
                (map persisted_task.truncate (existing @ tasks)))) (\<lambda>m.
              bindE (invHash sha (publication_receipt_json a y m)) (\<lambda>receipt.
               Inr \<lparr>ip_assembly_hash = as_assembly_hash a, ip_admitted_fact_count = as_admitted_fact_count a,
                 ip_inventory_hash = ih, ip_unit_count = iy_unit_count y, ip_component_count = iy_component_count y,
                 ip_media_brief_count = iy_media_brief_count y, ip_nodes = iy_nodes y, ip_unit_bindings = ubs,
                 ip_new_tasks = tasks, ip_manifest = m, ip_receipt_hash = receipt\<rparr>)))))))))"

section \<open>The nodes form a tree\<close>

text \<open>
  Paths and places among siblings are unique, the parent of a node stands before it and gives its
  \<open>parent_id\<close>, and the contract hash is the hash of the stored contract.
\<close>

definition parent_ok :: "inventory_node list \<Rightarrow> inventory_node \<Rightarrow> bool" where
  "parent_ok earlier n \<longleftrightarrow> (case nd_parent_path n of None \<Rightarrow> nd_parent_id n = None
     | Some p \<Rightarrow> (\<exists>q \<in> set earlier. nd_path q = p \<and> nd_parent_id n = Some (nd_id q)))"

fun tree_from :: "(string \<Rightarrow> string) \<Rightarrow> inventory_node list \<Rightarrow> inventory_node list \<Rightarrow> bool" where
  "tree_from sha earlier [] = True"
| "tree_from sha earlier (n # ns) = (nd_path n \<notin> nd_path ` set earlier \<and> sibling_key n \<notin> sibling_key ` set earlier
     \<and> parent_ok earlier n \<and> invHash sha (nd_protected_contract n) = Inr (nd_contract_hash n)
     \<and> tree_from sha (earlier @ [n]) ns)"

definition stands_for :: "inventory_node \<Rightarrow> inventory_error + candidate \<Rightarrow> bool" where
  "stands_for n c \<longleftrightarrow> (\<exists>d. c = Inr d \<and> nd_path n = nd_path d \<and> nd_kind n = nd_kind d
     \<and> nd_parent_path n = nd_parent_path d \<and> nd_sort_order n = nd_sort_order d)"

lemma tree_from_append: "tree_from sha e (xs @ ys) \<longleftrightarrow> tree_from sha e xs \<and> tree_from sha (e @ xs) ys"
  by (induction xs arbitrary: e) auto

lemma tree_from_distinct: "tree_from sha e ns \<Longrightarrow> distinct (map nd_path ns) \<and> nd_path ` set e \<inter> nd_path ` set ns = {}"
proof (induction ns arbitrary: e)
  case (Cons n ns)
  have "distinct (map nd_path ns) \<and> nd_path ` set (e @ [n]) \<inter> nd_path ` set ns = {}"
    by (rule Cons.IH) (use Cons.prems in simp)
  then have "distinct (map nd_path ns)" "nd_path n \<notin> nd_path ` set ns" "nd_path ` set e \<inter> nd_path ` set ns = {}" by auto
  moreover have "nd_path n \<notin> nd_path ` set e" using Cons.prems by simp
  ultimately show ?case by (simp add: Int_insert_right)
qed simp

lemma path_id_Some: "path_id nodes p = Some i \<Longrightarrow> \<exists>q \<in> set nodes. nd_path q = p \<and> nd_id q = i"
  by (auto simp: path_id_def find_Some_iff)

lemma path_id_known: "q \<in> set nodes \<Longrightarrow> nd_path q = p \<Longrightarrow> \<exists>n \<in> set nodes. nd_path n = p \<and> nd_id n = known_id nodes p"
proof -
  assume "q \<in> set nodes" "nd_path q = p"
  then have "find (\<lambda>n. nd_path n = p) nodes \<noteq> None" by (auto simp: find_None_iff)
  then obtain n where "find (\<lambda>n. nd_path n = p) nodes = Some n" by blast
  moreover from this have "n \<in> set nodes" "nd_path n = p" by (auto simp: find_Some_iff)
  ultimately show ?thesis by (auto simp: known_id_def path_id_def)
qed

lemma made_node_sel [simp]:
  "nd_path (candidate.extend c (inventory_node.fields i p h)) = nd_path c"
  "nd_kind (candidate.extend c (inventory_node.fields i p h)) = nd_kind c"
  "nd_parent_path (candidate.extend c (inventory_node.fields i p h)) = nd_parent_path c"
  "nd_sort_order (candidate.extend c (inventory_node.fields i p h)) = nd_sort_order c"
  "nd_protected_contract (candidate.extend c (inventory_node.fields i p h)) = nd_protected_contract c"
  "nd_parent_id (candidate.extend c (inventory_node.fields i p h)) = p"
  "nd_contract_hash (candidate.extend c (inventory_node.fields i p h)) = h"
  "sibling_key (candidate.extend c (inventory_node.fields i p h)) = sibling_key c"
  by (simp_all add: candidate.defs inventory_node.defs sibling_key_def)

lemma add_node_Inr:
  assumes "add_node sha run st c = Inr st'"
  shows "\<exists>n. fst st' = fst st @ [n] \<and> tree_from sha (fst st) [n] \<and> stands_for n (Inr c)"
proof -
  obtain i parent contract h where parts: "parent_of (fst st) (nd_parent_path c) = Inr parent"
    "nd_path c \<notin> nd_path ` set (fst st)" "sibling_key c \<notin> sibling_key ` set (fst st)"
    "invPersisted (nd_protected_contract c) = Inr contract" "invHash sha contract = Inr h"
    "fst st' = fst st @ [candidate.extend (c\<lparr>nd_protected_contract := contract\<rparr>) (inventory_node.fields i parent h)]"
    using assms by (auto simp: add_node_def Let_def)
  let ?n = "candidate.extend (c\<lparr>nd_protected_contract := contract\<rparr>) (inventory_node.fields i parent h)"
  have "parent_ok (fst st) ?n"
  proof (cases "nd_parent_path c")
    case None
    then show ?thesis using parts(1) by (simp add: parent_ok_def parent_of_def)
  next
    case (Some p)
    then obtain j where "path_id (fst st) p = Some j" "parent = Some j"
      using parts(1) by (auto simp: parent_of_def split: option.splits)
    moreover from this obtain q where "q \<in> set (fst st)" "nd_path q = p" "nd_id q = j"
      using path_id_Some [of "fst st" p j] by blast
    ultimately show ?thesis using Some by (auto simp: parent_ok_def)
  qed
  moreover have "sibling_key (c\<lparr>nd_protected_contract := contract\<rparr>) = sibling_key c" by (simp add: sibling_key_def)
  ultimately have "tree_from sha (fst st) [?n] \<and> stands_for ?n (Inr c)"
    using parts by (simp add: stands_for_def)
  then show ?thesis using parts(6) by blast
qed

lemma add_nodes_Inr:
  "add_nodes sha run st cs = Inr st' \<Longrightarrow>
   \<exists>new. fst st' = fst st @ new \<and> tree_from sha (fst st) new \<and> list_all2 stands_for new cs"
proof (induction cs arbitrary: st)
  case (Cons c cs)
  then obtain d st1 where d: "c = Inr d" "add_node sha run st d = Inr st1" "add_nodes sha run st1 cs = Inr st'" by auto
  obtain n where n: "fst st1 = fst st @ [n]" "tree_from sha (fst st) [n]" "stands_for n (Inr d)"
    using add_node_Inr [OF d(2)] by blast
  obtain new where "fst st' = fst st1 @ new" "tree_from sha (fst st1) new" "list_all2 stands_for new cs"
    using Cons.IH [OF d(3)] by blast
  then show ?case using n d(1) by (intro exI [of _ "n # new"]) auto
qed simp

lemma add_chapters_Inr:
  "add_chapters sha run ah st ics = Inr st' \<Longrightarrow>
   \<exists>new. fst st' = fst st @ new \<and> tree_from sha (fst st) new
     \<and> list_all2 stands_for new (concat (map (\<lambda>ic. chapter_candidates sha ah (fst ic) (snd ic)) ics))"
proof (induction ics arbitrary: st)
  case (Cons ic ics)
  then obtain st1 where st1: "add_nodes sha run st (chapter_candidates sha ah (fst ic) (snd ic)) = Inr st1"
    "add_chapters sha run ah st1 ics = Inr st'" by auto
  obtain xs where xs: "fst st1 = fst st @ xs" "tree_from sha (fst st) xs"
    "list_all2 stands_for xs (chapter_candidates sha ah (fst ic) (snd ic))" using add_nodes_Inr [OF st1(1)] by blast
  obtain ys where "fst st' = fst st1 @ ys" "tree_from sha (fst st1) ys"
    "list_all2 stands_for ys (concat (map (\<lambda>ic. chapter_candidates sha ah (fst ic) (snd ic)) ics))"
    using Cons.IH [OF st1(2)] by blast
  then show ?case using xs by (intro exI [of _ "xs @ ys"]) (auto simp: tree_from_append list_all2_appendI)
qed simp

lemma stands_for_member:
  "list_all2 stands_for ns cs \<Longrightarrow> c \<in> set cs \<Longrightarrow> \<exists>n \<in> set ns. stands_for n c"
  by (induction rule: list_all2_induct) auto

section \<open>The bindings are the units\<close>

lemma concat_enumerate: "concat (map (\<lambda>(j, x). f x) (enumerate n xs)) = concat (map f xs)"
  by (induction xs arbitrary: n) simp_all

lemma chapter_bindings_units: "map ub_unit (chapter_bindings nodes ic) = concat (map la_units (ac_lessons (snd ic)))"
proof -
  have one: "map (\<lambda>ku. ub_unit (unit_binding_of nodes i c j ku)) (enumerate 0 us) = us" for i c j us
    by (simp add: unit_binding_of_def Let_def)
  have "map ub_unit (chapter_bindings nodes ic) = concat (map (\<lambda>(j, l). la_units l) (enumerate 0 (ac_lessons (snd ic))))"
    by (simp add: chapter_bindings_def map_concat comp_def split_def one)
  then show ?thesis by (simp add: concat_enumerate)
qed

lemma bindings_units:
  "map ub_unit (concat (map (chapter_bindings nodes) (enumerate n cs))) = chapter_units cs"
  by (induction cs arbitrary: n) (simp_all add: chapter_units_def chapter_bindings_units)

lemma binding_candidate:
  assumes "ub \<in> set (chapter_bindings nodes ic)"
  obtains j k u where "unit_candidate sha (fst ic) j k u \<in> set (chapter_candidates sha ah (fst ic) (snd ic))"
    "ub_unit_path ub = unit_path (fst ic) j k" "ub_unit_node_id ub = known_id nodes (unit_path (fst ic) j k)"
proof -
  obtain j l k u where jl: "(j, l) \<in> set (enumerate 0 (ac_lessons (snd ic)))" "(k, u) \<in> set (enumerate 0 (la_units l))"
    "ub = unit_binding_of nodes (fst ic) (snd ic) j (k, u)"
    using assms by (auto simp: chapter_bindings_def)
  have "unit_candidate sha (fst ic) j k u \<in> set (unit_candidates sha ah (fst ic) j (k, u))"
    by (simp add: unit_candidates_def)
  then have "unit_candidate sha (fst ic) j k u \<in> set (chapter_candidates sha ah (fst ic) (snd ic))"
    using jl(1,2) unfolding chapter_candidates_def by fastforce
  then show thesis using that jl(3) by (simp add: unit_binding_of_def Let_def)
qed

lemma storyboard_Inr:
  "storyboard sha kind path parent order b ss os e = Inr d \<Longrightarrow> nd_path d = path \<and> nd_kind d = kind \<and> nd_parent_path d = parent"
  by (auto simp: storyboard_def)

lemma identity_Inr:
  assumes "prepareOrchestrationV2InventoryIdentity sha run a = Inr y"
  shows "tree_from sha [] (iy_nodes y)" "map ub_unit (iy_unit_bindings y) = assembly_units a"
    "ub \<in> set (iy_unit_bindings y) \<Longrightarrow>
       \<exists>n \<in> set (iy_nodes y). nd_kind n = N_unit \<and> nd_path n = ub_unit_path ub \<and> nd_id n = ub_unit_node_id ub"
proof -
  let ?ics = "enumerate 0 (ax_chapters (as_architecture a))"
  obtain st1 st2 where st: "add_nodes sha run ([], 0) [course_candidate sha a] = Inr st1"
    "add_chapters sha run (as_assembly_hash a) st1 ?ics = Inr st2"
    and y: "iy_nodes y = fst st2" "iy_unit_bindings y = concat (map (chapter_bindings (fst st2)) ?ics)"
    using assms by (auto simp: prepareOrchestrationV2InventoryIdentity_def Let_def)
  obtain xs where xs: "fst st1 = xs" "tree_from sha [] xs" using add_nodes_Inr [OF st(1)] by auto
  obtain ys where ys: "fst st2 = xs @ ys" "tree_from sha xs ys"
    "list_all2 stands_for ys (concat (map (\<lambda>ic. chapter_candidates sha (as_assembly_hash a) (fst ic) (snd ic)) ?ics))"
    using add_chapters_Inr [OF st(2)] xs by auto
  show tree: "tree_from sha [] (iy_nodes y)" using xs ys y by (simp add: tree_from_append)
  show "map ub_unit (iy_unit_bindings y) = assembly_units a" by (simp add: y bindings_units assembly_units_def)
  assume "ub \<in> set (iy_unit_bindings y)"
  then obtain ic where ic: "ic \<in> set ?ics" "ub \<in> set (chapter_bindings (fst st2) ic)" by (auto simp: y)
  obtain j k u where u: "unit_candidate sha (fst ic) j k u \<in> set (chapter_candidates sha (as_assembly_hash a) (fst ic) (snd ic))"
    "ub_unit_path ub = unit_path (fst ic) j k" "ub_unit_node_id ub = known_id (fst st2) (unit_path (fst ic) j k)"
    using binding_candidate [OF ic(2)] by metis
  have "unit_candidate sha (fst ic) j k u \<in> set (concat (map (\<lambda>ic. chapter_candidates sha (as_assembly_hash a) (fst ic) (snd ic)) ?ics))"
    using u(1) ic(1) by auto
  then obtain n where n: "n \<in> set ys" "stands_for n (unit_candidate sha (fst ic) j k u)"
    using stands_for_member [OF ys(3)] by blast
  then have n': "n \<in> set (fst st2)" "nd_kind n = N_unit" "nd_path n = unit_path (fst ic) j k"
    using storyboard_Inr by (auto simp: stands_for_def unit_candidate_def ys)
  have "distinct (map nd_path (fst st2))" using tree_from_distinct [of sha "[]" "fst st2"] tree y by simp
  moreover obtain m where m: "m \<in> set (fst st2)" "nd_path m = unit_path (fst ic) j k" "nd_id m = known_id (fst st2) (unit_path (fst ic) j k)"
    using path_id_known [OF n'(1,3)] by blast
  ultimately have "m = n" using n' inj_onD [of nd_path "set (fst st2)" m n] by (simp add: distinct_map)
  then show "\<exists>n \<in> set (iy_nodes y). nd_kind n = N_unit \<and> nd_path n = ub_unit_path ub \<and> nd_id n = ub_unit_node_id ub"
    using n' m u y by auto
qed

section \<open>The new tasks\<close>

lemma truncate_sel [simp]:
  "pt_ordinal (persisted_task.truncate t) = pt_ordinal t" "pt_key (persisted_task.truncate t) = pt_key t"
  "pt_kind (persisted_task.truncate t) = pt_kind t" "pt_chapter_key (persisted_task.truncate t) = pt_chapter_key t"
  "pt_node_id (persisted_task.truncate t) = pt_node_id t"
  by (simp_all add: persisted_task.defs)

text \<open>What \<open>append\<close> keeps of a task: everything but its ordinal.\<close>

definition appended :: "nat \<Rightarrow> persisted_task \<Rightarrow> stored_task \<Rightarrow> bool" where
  "appended n t s \<longleftrightarrow> persisted_task.truncate s = t\<lparr>pt_ordinal := int n\<rparr>"

lemma appendedD:
  assumes "appended n t s"
  shows "pt_ordinal s = int n" "pt_key s = pt_key t" "pt_kind s = pt_kind t" "pt_chapter_key s = pt_chapter_key t"
    "pt_node_id s = pt_node_id t"
proof -
  have "persisted_task.truncate s = t\<lparr>pt_ordinal := int n\<rparr>" using assms by (simp add: appended_def)
  from this [THEN arg_cong [of _ _ pt_ordinal]] this [THEN arg_cong [of _ _ pt_key]] this [THEN arg_cong [of _ _ pt_kind]]
    this [THEN arg_cong [of _ _ pt_chapter_key]] this [THEN arg_cong [of _ _ pt_node_id]]
  show "pt_ordinal s = int n" "pt_key s = pt_key t" "pt_kind s = pt_kind t" "pt_chapter_key s = pt_chapter_key t"
    "pt_node_id s = pt_node_id t" by simp_all
qed

lemma new_task_Inr: "new_task sha run n t = Inr s \<Longrightarrow> appended n t s"
  by (auto simp: new_task_def appended_def persisted_task.defs stored_task.defs)

lemma unit_tasks_Inr:
  assumes "unit_tasks sha run a ih b pk n keys ubs = Inr (ts, keys')"
  shows "map pt_node_id ts = map (Some \<circ> ub_unit_node_id) ubs \<and> map pt_kind ts = map (\<lambda>_. Generate_unit) ubs
    \<and> map pt_ordinal ts = map int [n..<n + length ubs]"
  using assms
proof (induction ubs arbitrary: n keys ts)
  case (Cons ub ubs)
  obtain t0 t rest where t: "unit_task sha a ih b pk (length (keys_of_chapter keys (ub_chapter_key ub))) ub = Inr t0"
    "new_task sha run n t0 = Inr t"
    "unit_tasks sha run a ih b pk (Suc n) (js_map_set (ub_chapter_key ub) (keys_of_chapter keys (ub_chapter_key ub) @ [pt_key t]) keys) ubs
       = Inr (rest, keys')" "ts = t # rest"
    using Cons.prems by (auto simp: Let_def)
  have "pt_kind t0 = Generate_unit" "pt_node_id t0 = Some (ub_unit_node_id ub)" using t(1) by (auto simp: unit_task_def Let_def)
  then show ?case using Cons.IH [OF t(3)] appendedD [OF new_task_Inr [OF t(2)]] t(4) by (simp add: upt_conv_Cons del: upt_Suc)
qed simp

lemma validation_tasks_Inr:
  assumes "validation_tasks sha run a ih ms keys ubs n cs = Inr ts"
  shows "map pt_chapter_key ts = map (Some \<circ> ac_chapter_key) cs \<and> map pt_kind ts = map (\<lambda>_. Validate_chapter) cs
    \<and> map pt_ordinal ts = map int [n..<n + length cs]"
  using assms
proof (induction cs arbitrary: n ts)
  case (Cons c cs)
  obtain t0 t rest where t: "chapter_task sha a ih ms keys ubs c = Inr t0" "new_task sha run n t0 = Inr t"
    "validation_tasks sha run a ih ms keys ubs (Suc n) cs = Inr rest" "ts = t # rest"
    using Cons.prems by auto
  have "pt_kind t0 = Validate_chapter" "pt_chapter_key t0 = Some (ac_chapter_key c)"
    using t(1) by (auto simp: chapter_task_def Let_def split: option.splits)
  then show ?case using Cons.IH [OF t(3)] appendedD [OF new_task_Inr [OF t(2)]] t(4) by (simp add: upt_conv_Cons del: upt_Suc)
qed simp

lemma finalization_Inr: "final_course_task sha a ih ms vs = Inr f \<Longrightarrow> pt_kind f = Finalize_course"
  by (auto simp: final_course_task_def)

lemma existing_facts:
  assumes "existing_ok ts"
  shows "map pt_ordinal ts = map int [0..<length ts]" "t \<in> set ts \<Longrightarrow> pt_kind t \<in> planned_kinds"
proof -
  have "pt_ordinal (ts ! i) = int i" if "i < length ts" for i
    using assms that by (auto simp: existing_ok_def list_all_iff in_set_enumerate_eq)
  then show "map pt_ordinal ts = map int [0..<length ts]" by (intro nth_equalityI) simp_all
  show "t \<in> set ts \<Longrightarrow> pt_kind t \<in> planned_kinds" using assms by (auto simp: existing_ok_def list_all_iff)
qed

lemma publication_Inr:
  assumes "prepareOrchestrationV2InventoryPublication sha run a existing_tasks budgets = Inr pub"
  obtains y existing units validations final where "existing = sort_key pt_ordinal existing_tasks" "existing_ok existing"
    "prepareOrchestrationV2InventoryIdentity sha run a = Inr y"
    "ip_nodes pub = iy_nodes y" "ip_unit_bindings pub = iy_unit_bindings y" "ip_new_tasks pub = units @ validations @ [final]"
    "map pt_node_id units = map (Some \<circ> ub_unit_node_id) (iy_unit_bindings y)"
    "map pt_kind units = map (\<lambda>_. Generate_unit) (iy_unit_bindings y)"
    "map pt_chapter_key validations = map (Some \<circ> ac_chapter_key) (ax_chapters (as_architecture a))"
    "map pt_kind validations = map (\<lambda>_. Validate_chapter) (ax_chapters (as_architecture a))" "pt_kind final = Finalize_course"
    "map pt_ordinal (existing @ units @ validations @ [final])
       = map int [0..<length existing + (length units + (length validations + 1))]"
    "sealOrchestrationV2PersistedManifest sha (as_source_snapshot_hash a)
       (map persisted_task.truncate (existing @ units @ validations @ [final])) = Inr (ip_manifest pub)"
proof -
  define existing where "existing = sort_key pt_ordinal existing_tasks"
  obtain y units keys validations f final where parts: "existing_ok existing"
    "prepareOrchestrationV2InventoryIdentity sha run a = Inr y"
    "unit_tasks sha run a (iy_inventory_hash y) (ib_unit budgets) (pt_key (last existing)) (length existing) []
       (iy_unit_bindings y) = Inr (units, keys)"
    "validation_tasks sha run a (iy_inventory_hash y) (ib_chapter_validation_budget_ms budgets) keys (iy_unit_bindings y)
       (length existing + length units) (ax_chapters (as_architecture a)) = Inr validations"
    "final_course_task sha a (iy_inventory_hash y) (ib_finalization_budget_ms budgets) (map pt_key validations) = Inr f"
    "new_task sha run (length existing + length units + length validations) f = Inr final"
    "seal_result (sealOrchestrationV2PersistedManifest sha (as_source_snapshot_hash a)
       (map persisted_task.truncate (existing @ units @ validations @ [final]))) = Inr (ip_manifest pub)"
    "ip_nodes pub = iy_nodes y" "ip_unit_bindings pub = iy_unit_bindings y" "ip_new_tasks pub = units @ validations @ [final]"
    using assms
    by (auto simp: prepareOrchestrationV2InventoryPublication_def Let_def existing_def [symmetric] simp del: unit_tasks.simps)
  note u = unit_tasks_Inr [OF parts(3)] and v = validation_tasks_Inr [OF parts(4)] and f = appendedD [OF new_task_Inr [OF parts(6)]]
  have len: "length units = length (iy_unit_bindings y)" "length validations = length (ax_chapters (as_architecture a))"
    using u v map_eq_imp_length_eq by blast+
  have "sealOrchestrationV2PersistedManifest sha (as_source_snapshot_hash a)
       (map persisted_task.truncate (existing @ units @ validations @ [final])) = Inr (ip_manifest pub)"
    using parts(7) by (simp add: seal_result_def split: sum.splits)
  moreover have "map pt_ordinal (existing @ units @ validations @ [final])
       = map int [0..<length existing + (length units + (length validations + 1))]"
    using u v f existing_facts(1) [OF parts(1)] len by (simp add: upt_add_eq_append [of 0] flip: add.assoc)
  ultimately show thesis
    using that [OF existing_def parts(1,2,8,9,10)] u v f(3) finalization_Inr [OF parts(5)] by simp
qed

section \<open>Properties\<close>

lemma tree_from_siblings: "tree_from sha e ns \<Longrightarrow> distinct (map sibling_key ns) \<and> sibling_key ` set e \<inter> sibling_key ` set ns = {}"
proof (induction ns arbitrary: e)
  case (Cons n ns)
  have "distinct (map sibling_key ns) \<and> sibling_key ` set (e @ [n]) \<inter> sibling_key ` set ns = {}"
    by (rule Cons.IH) (use Cons.prems in simp)
  then have "distinct (map sibling_key ns)" "sibling_key n \<notin> sibling_key ` set ns"
    "sibling_key ` set e \<inter> sibling_key ` set ns = {}" by auto
  moreover have "sibling_key n \<notin> sibling_key ` set e" using Cons.prems by simp
  ultimately show ?case by (simp add: Int_insert_right)
qed simp

lemma tree_from_parent:
  "tree_from sha e ns \<Longrightarrow> i < length ns \<Longrightarrow> parent_ok (e @ take i ns) (ns ! i)"
proof (induction ns arbitrary: e i)
  case (Cons n ns)
  show ?case
  proof (cases i)
    case (Suc j)
    then show ?thesis using Cons.IH [of "e @ [n]" j] Cons.prems by simp
  qed (use Cons.prems in simp)
qed simp

lemma filter_kind:
  assumes "map pt_kind ts = map (\<lambda>_. k) xs"
  shows "filter (\<lambda>t. pt_kind t = j) ts = (if j = k then ts else [])"
proof -
  have "\<forall>t \<in> set ts. pt_kind t = k" using arg_cong [OF assms, of set] by auto
  then show ?thesis by (auto simp: filter_empty_conv filter_id_conv)
qed

lemma filter_planned:
  "\<forall>t \<in> set ts. pt_kind t \<in> planned_kinds \<Longrightarrow> j \<in> {Generate_unit, Validate_chapter} \<Longrightarrow> filter (\<lambda>t. pt_kind t = j) ts = []"
  by (auto simp: filter_empty_conv planned_kinds_def)

lemma sorted_map_int: "sorted (map int [0..<n])"
  by (simp add: sorted_wrt_map)

text \<open>
  C15: a published inventory is a tree, and its sealed tasks cover it and can run to the end. When
  the publication of an assembly succeeds: paths and places among siblings are unique and every node
  with a parent comes after it and names its id; the bindings are the units of the architecture in
  order, each bound to the id of a unit node of its own path; the manifest has exactly one generation
  task per unit, for the node it is bound to, and one validation per chapter, in order; and from
  nothing done every task of the manifest can be run.
\<close>

theorem published_inventory_is_complete:
  assumes "prepareOrchestrationV2InventoryPublication sha run a existing_tasks budgets = Inr pub"
  shows "distinct (map nd_path (ip_nodes pub)) \<and> distinct (map sibling_key (ip_nodes pub))
    \<and> (\<forall>i < length (ip_nodes pub). parent_ok (take i (ip_nodes pub)) (ip_nodes pub ! i))
    \<and> map ub_unit (ip_unit_bindings pub) = assembly_units a
    \<and> (\<forall>ub \<in> set (ip_unit_bindings pub). \<exists>n \<in> set (ip_nodes pub).
          nd_kind n = N_unit \<and> nd_path n = ub_unit_path ub \<and> nd_id n = ub_unit_node_id ub)
    \<and> map pt_node_id (by_kind Generate_unit (mf_tasks (ip_manifest pub))) = map (Some \<circ> ub_unit_node_id) (ip_unit_bindings pub)
    \<and> map pt_chapter_key (by_kind Validate_chapter (mf_tasks (ip_manifest pub)))
        = map (Some \<circ> ac_chapter_key) (ax_chapters (as_architecture a))
    \<and> runs pt_key pt_depends_on (mf_tasks (ip_manifest pub)) {} (pt_key ` set (mf_tasks (ip_manifest pub)))"
proof -
  obtain y existing units validations final where parts: "existing_ok existing"
    "prepareOrchestrationV2InventoryIdentity sha run a = Inr y"
    "ip_nodes pub = iy_nodes y" "ip_unit_bindings pub = iy_unit_bindings y"
    "map pt_node_id units = map (Some \<circ> ub_unit_node_id) (iy_unit_bindings y)"
    "map pt_kind units = map (\<lambda>_. Generate_unit) (iy_unit_bindings y)"
    "map pt_chapter_key validations = map (Some \<circ> ac_chapter_key) (ax_chapters (as_architecture a))"
    "map pt_kind validations = map (\<lambda>_. Validate_chapter) (ax_chapters (as_architecture a))" "pt_kind final = Finalize_course"
    and ord: "map pt_ordinal (existing @ units @ validations @ [final])
       = map int [0..<length existing + (length units + (length validations + 1))]"
    and seal: "sealOrchestrationV2PersistedManifest sha (as_source_snapshot_hash a)
       (map persisted_task.truncate (existing @ units @ validations @ [final])) = Inr (ip_manifest pub)"
    using publication_Inr [OF assms] by metis
  let ?all = "existing @ units @ validations @ [final]"
  have "map pt_ordinal (map persisted_task.truncate ?all) = map pt_ordinal ?all"
    unfolding map_map comp_def truncate_sel ..
  then have "sorted (map pt_ordinal (map persisted_task.truncate ?all))" unfolding ord by (simp only: sorted_map_int)
  then have "sort_key pt_ordinal (map persisted_task.truncate ?all) = map persisted_task.truncate ?all"
    by (rule sort_key_id_if_sorted)
  then have tasks: "mf_tasks (ip_manifest pub) = map persisted_task.truncate ?all"
    using seal unfolding seal_iff by (simp add: sealed_manifest_def Let_def)
  have kinds: "filter (\<lambda>t. pt_kind t = j) ?all = (if j = Generate_unit then units else if j = Validate_chapter then validations else [])"
    if "j \<in> {Generate_unit, Validate_chapter}" for j
    using that filter_planned [of existing j] existing_facts(2) [OF parts(1)] parts(9)
    by (auto simp: filter_kind [OF parts(6)] filter_kind [OF parts(8)])
  have by_kind: "by_kind j (mf_tasks (ip_manifest pub)) = map persisted_task.truncate (filter (\<lambda>t. pt_kind t = j) ?all)" for j
    unfolding by_kind_def tasks filter_map comp_def truncate_sel by simp
  note tree = identity_Inr(1) [OF parts(2)]
  have wf: "runtime_manifest (ip_manifest pub)" using seal unfolding runtime_manifest_def by blast
  have "map pt_node_id (by_kind Generate_unit (mf_tasks (ip_manifest pub))) = map (Some \<circ> ub_unit_node_id) (ip_unit_bindings pub)"
    unfolding by_kind using kinds [of Generate_unit] parts(4,5) by (simp add: comp_def)
  moreover have "map pt_chapter_key (by_kind Validate_chapter (mf_tasks (ip_manifest pub)))
        = map (Some \<circ> ac_chapter_key) (ax_chapters (as_architecture a))"
    unfolding by_kind using kinds [of Validate_chapter] parts(7) by (simp add: comp_def)
  moreover have "\<forall>i < length (ip_nodes pub). parent_ok (take i (ip_nodes pub)) (ip_nodes pub ! i)"
    using tree_from_parent [OF tree] by (simp add: parts(3))
  ultimately show ?thesis
    using tree_from_distinct [OF tree] tree_from_siblings [OF tree] identity_Inr(2,3) [OF parts(2)]
      sealed.all_succeed [OF wf, of "{}"] unfolding parts(3,4) by blast
qed


text \<open>One chapter with one lesson, one unit and one component, after the five planned tasks.\<close>

definition small_run :: string where "small_run = ''00000000-0000-0000-0000-000000000001''"
definition small_hash :: string where "small_hash = replicate 64 (CHR ''d'')"
definition small_id :: string where "small_id = uuid_text small_hash"

lemma small_sha: "example_sha = (\<lambda>t. small_hash)"
  by (simp add: fun_eq_iff example_sha_def small_hash_def del: replicate.simps)

lemma small_patterns: "isUuid small_run" "isUuid small_id" "is_hash small_hash" "length small_hash = 64" "length small_id = 36"
proof -
  show "isUuid small_run" by (simp add: small_run_def example_patterns)
  show id: "isUuid small_id" unfolding small_id_def small_hash_def by code_simp
  show "is_hash small_hash" "length small_hash = 64" by (simp_all add: small_hash_def example_patterns del: replicate.simps) 
  show "length small_id = 36" by (rule isUuid_length [OF id])
qed

definition small_chapter :: architecture_chapter where
  "small_chapter = \<lparr>ac_chapter_key = ''ch1'', ac_order = 0, ac_title = ''C'', ac_objective = ''O'',
     ac_learning_outcomes = [], ac_source_scope_ids = [''s1''],
     ac_lessons = [\<lparr>la_title = ''L'', la_objective = ''O'', la_learning_objectives = [''X''],
       la_learning_activities = [''Y''], la_assessment = ''Z'', la_units = [example_unit ''s1'']\<rparr>]\<rparr>"

definition small_assembly :: assembly where
  "small_assembly = \<lparr>as_source_snapshot_hash = small_hash, as_skeleton_hash = small_hash, as_shard_hashes = [small_hash],
     as_admitted_fact_count = 2, as_allocated_fact_count = 2, as_chapter_count = 1, as_lesson_count = 1,
     as_unit_count = 1, as_component_plan_count = 1, as_assessment_obligation_count = 0,
     as_assessment_obligation_hash = small_hash, as_assessment_obligations = [],
     as_architecture = \<lparr>ax_locale = ''en'', ax_title = ''T'', ax_summary = ''S'', ax_target_audience = ''A'',
       ax_prerequisites = [], ax_learning_outcomes = [''O''], ax_assessment_strategy = ''Q'', ax_assumptions = [],
       ax_chapters = [small_chapter]\<rparr>, as_assembly_hash = small_hash\<rparr>"

definition small_task :: "nat \<Rightarrow> string \<Rightarrow> task_kind \<Rightarrow> string list \<Rightarrow> budget \<Rightarrow> stored_task" where
  "small_task i key kind deps b = \<lparr>pt_ordinal = int i, pt_key = key, pt_kind = kind, pt_chapter_key = None, pt_node_id = None,
     pt_contract_hash = small_hash, pt_input_context_hash = None, pt_priority = 0, pt_max_attempts = 1, pt_depends_on = deps,
     pt_budget = b, st_id = small_id\<rparr>"

definition small_tasks :: "stored_task list" where
  "small_tasks = [small_task 0 ''source:snapshot'' Source_snapshot [] (idle_budget 1000),
     small_task 1 ''architecture:course'' Course_skeleton [''source:snapshot''] example_budget,
     small_task 2 (chapter_task_key ''ch1'') Chapter_blueprint [''architecture:course''] example_budget,
     small_task 3 ''architecture:validate'' Validate_architecture [chapter_task_key ''ch1''] (idle_budget 1000),
     small_task 4 ''inventory:publish'' Publish_inventory [''architecture:validate''] (idle_budget 1000)]"

definition small_node :: "candidate \<Rightarrow> string option \<Rightarrow> inventory_node" where
  "small_node c parent = candidate.extend c (inventory_node.fields small_id parent small_hash)"

lemma small_node_sel [simp]:
  "nd_path (small_node c p) = nd_path c" "nd_parent_path (small_node c p) = nd_parent_path c"
  "nd_kind (small_node c p) = nd_kind c" "nd_sort_order (small_node c p) = nd_sort_order c"
  "nd_protected_contract (small_node c p) = nd_protected_contract c" "nd_baseline (small_node c p) = nd_baseline c"
  "nd_id (small_node c p) = small_id" "nd_parent_id (small_node c p) = p" "nd_contract_hash (small_node c p) = small_hash"
  by (simp_all add: small_node_def candidate.defs inventory_node.defs)

lemma json_bytes_bound: "json_bytes v \<le> 2 * json_bound v"
  using json_text_length [of v] utf8_length_bound [of "json_text v"] by (simp add: json_bytes_def)


lemma invHash_plain [simp]: "plain v \<Longrightarrow> invHash sha v = Inr (sha (canon v))"
  by (simp add: invHash_def hash_plain)

lemma invPersisted_plain [simp]: "plain v \<Longrightarrow> invPersisted v = Inr v"
  by (simp add: invPersisted_def toPersistedJson_def persist_plain)

definition small_enough :: "candidate \<Rightarrow> bool" where
  "small_enough c \<longleftrightarrow> plain (nd_protected_contract c) \<and> plain (baseline_json (nd_baseline c)) \<and> length (nd_path c) \<le> 100
     \<and> (\<forall>p. nd_parent_path c = Some p \<longrightarrow> length p \<le> 100) \<and> nd_sort_order c < 10
     \<and> json_bound (nd_protected_contract c) \<le> 5000 \<and> json_bound (baseline_json (nd_baseline c)) \<le> 5000"

lemma small_uuid: "length p \<le> 200 \<Longrightarrow> p \<noteq> [] \<Longrightarrow> orchestrationV2DeterministicUuid example_sha small_run p = Inr small_id"
  by (simp add: orchestrationV2DeterministicUuid_def small_patterns small_sha small_id_def)

lemma add_node_small:
  assumes "small_enough c" "nd_path c \<notin> nd_path ` set nodes" "sibling_key c \<notin> sibling_key ` set nodes"
    "parent_of nodes (nd_parent_path c) = Inr par" "par \<in> {None, Some small_id}" "length nodes < 100" "m \<le> 1000000"
  shows "\<exists>m'. add_node example_sha small_run (nodes, m) c = Inr (nodes @ [small_node c par], m') \<and> m' \<le> m + 50000"
proof -
  note c = assms(1) [unfolded small_enough_def]
  let ?n = "small_node c par"
  have "nd_sort_order c \<in> {0, 1, 2, 3, 4, 5, 6, 7, 8, 9}" using c by auto
  then have order: "length (int_text (int (nd_sort_order c))) = 1" by (auto simp: int_text_def nat_text.simps)
  have kind: "length (node_kind_text (nd_kind c)) \<le> 11" by (cases "nd_kind c") simp_all
  have parent: "json_bound (json_opt (nd_parent_path c)) \<le> 602" "json_bound (json_opt par) \<le> 602"
    using c assms(5) by (auto simp: json_opt_def small_patterns split: option.splits)
  have "json_bound (node_json ?n) \<le> 14000"
    using c order kind parent by (simp add: node_json_def small_patterns)
  then have node: "json_bytes (node_json ?n) \<le> 28000" using json_bytes_bound [of "node_json ?n"] by simp
  have "json_bytes (nd_protected_contract c) \<le> MAX_NODE_BYTES"
    using c json_bytes_bound [of "nd_protected_contract c"] by (simp add: MAX_NODE_BYTES_def)
  moreover have "case nd_baseline c of None \<Rightarrow> True | Some b \<Rightarrow> json_bytes b \<le> MAX_NODE_BYTES"
    using c by (auto simp: MAX_NODE_BYTES_def baseline_json_def split: option.splits intro!: order_trans [OF json_bytes_bound])
  moreover have "invPersisted (nd_protected_contract c) = Inr (nd_protected_contract c)" "invHash example_sha (nd_protected_contract c) = Inr small_hash"
    using c by (simp_all add: small_sha)
  moreover have "c\<lparr>nd_protected_contract := nd_protected_contract c\<rparr> = c" by simp
  ultimately have "add_node example_sha small_run (nodes, m) c = Inr (nodes @ [?n], m + json_bytes (node_json ?n))"
    using assms(2-7) c node
    by (simp add: add_node_def Let_def small_uuid MAX_NODES_def MAX_INVENTORY_BYTES_def small_node_def)
  then show ?thesis using node by simp
qed


section \<open>The candidates\<close>

lemma storyboard_small:
  "plain b \<Longrightarrow> storyboard example_sha kind path parent order b ss os e
     = Inr \<lparr>nd_path = path, nd_parent_path = parent, nd_kind = kind, nd_sort_order = order,
         nd_protected_contract = JObj [(''storyboard_version'', JInt 1), (''kind'', JStr (node_kind_text kind)),
           (''canonical_path'', JStr path), (''display_title'', title_field b), (''baseline_hash'', JStr small_hash),
           (''chapter_count'', JInt (int (se_chapter_count e))), (''objective_slots'', JInt (int (se_objective_slots e))),
           (''media_type'', json_opt (se_media_type e)), (''brief_format'', json_opt (se_brief_format e)),
           (''readonly_references'', refs_json ss os)],
         nd_baseline = (if kind = N_unit then None else Some b)\<rparr>"
  by (simp add: storyboard_def small_sha)

lemmas small_candidate_defs = course_candidate_def chapter_candidate_def lesson_candidate_def unit_candidate_def
  component_candidate_def orchestrationV2ComponentPlanId_def

lemma small_candidates:
  obtains c0 c1 c2 c3 c4 where "course_candidate example_sha small_assembly = Inr c0"
    "chapter_candidates example_sha small_hash 0 small_chapter = [Inr c1, Inr c2, Inr c3, Inr c4]"
    "list_all small_enough [c0, c1, c2, c3, c4]"
    "map nd_path [c0, c1, c2, c3, c4] = [''course'', chapter_path 0, lesson_path 0 0, unit_path 0 0 0, component_path 0 0 0 0]"
    "map nd_parent_path [c0, c1, c2, c3, c4]
       = [None, Some ''course'', Some (chapter_path 0), Some (lesson_path 0 0), Some (unit_path 0 0 0)]"
    "map nd_sort_order [c0, c1, c2, c3, c4] = [0, 0, 0, 0, 0]"
proof -
  obtain c0 where c0: "course_candidate example_sha small_assembly = Inr c0" "nd_path c0 = ''course''"
      "nd_parent_path c0 = None" "nd_sort_order c0 = 0" "small_enough c0"
    by (simp add: course_candidate_def Let_def storyboard_small small_assembly_def small_chapter_def content_of_def json_opt_def strings_json_def
      small_enough_def baseline_json_def refs_json_def title_field_def small_patterns no_extra_def int_text_def nat_text.simps)
  obtain c1 where c1: "chapter_candidate example_sha 0 small_chapter = Inr c1" "nd_path c1 = chapter_path 0"
      "nd_parent_path c1 = Some ''course''" "nd_sort_order c1 = 0" "small_enough c1"
    by (simp add: chapter_candidate_def storyboard_small small_chapter_def content_of_def json_opt_def strings_json_def
      small_enough_def baseline_json_def refs_json_def title_field_def small_patterns no_extra_def int_text_def nat_text.simps chapter_path_def)
  obtain c2 where c2: "lesson_candidate example_sha 0 0 (hd (ac_lessons small_chapter)) = Inr c2" "nd_path c2 = lesson_path 0 0"
      "nd_parent_path c2 = Some (chapter_path 0)" "nd_sort_order c2 = 0" "small_enough c2"
    by (simp add: lesson_candidate_def storyboard_small small_chapter_def content_of_def json_opt_def strings_json_def lesson_scopes_def
      example_unit_def small_enough_def baseline_json_def refs_json_def title_field_def small_patterns no_extra_def int_text_def
      nat_text.simps chapter_path_def lesson_path_def)
  obtain c3 where c3: "unit_candidate example_sha 0 0 0 (example_unit ''s1'') = Inr c3" "nd_path c3 = unit_path 0 0 0"
      "nd_parent_path c3 = Some (lesson_path 0 0)" "nd_sort_order c3 = 0" "small_enough c3"
    by (simp add: unit_candidate_def storyboard_small content_of_def json_opt_def strings_json_def
      example_unit_def small_enough_def baseline_json_def refs_json_def title_field_def small_patterns no_extra_def int_text_def
      nat_text.simps chapter_path_def lesson_path_def unit_path_def)
  obtain c4 where c4: "component_candidate example_sha small_hash 0 0 0 (example_unit ''s1'') (0, hd (ua_component_plan (example_unit ''s1''))) = Inr c4"
      "nd_path c4 = component_path 0 0 0 0" "nd_parent_path c4 = Some (unit_path 0 0 0)" "nd_sort_order c4 = 0" "small_enough c4"
    by (simp add: component_candidate_def orchestrationV2ComponentPlanId_def Let_def json_opt_def strings_json_def review_json_def no_review_def
      example_unit_def small_enough_def baseline_json_def small_patterns int_text_def small_sha
      nat_text.simps chapter_path_def lesson_path_def unit_path_def component_path_def)
  have "chapter_candidates example_sha small_hash 0 small_chapter = [Inr c1, Inr c2, Inr c3, Inr c4]"
    using c1(1) c2(1) c3(1) c4(1)
    by (simp add: chapter_candidates_def unit_candidates_def media_candidates_def small_chapter_def example_unit_def)
  then show thesis using that c0 c1 c2 c3 c4 by simp
qed


lemma small_paths: "chapter_path 0 = ''chapter_1''" "lesson_path 0 0 = ''chapter_1.lesson_1''"
  "unit_path 0 0 0 = ''chapter_1.lesson_1.unit_1''" "component_path 0 0 0 0 = ''chapter_1.lesson_1.unit_1.component_1''"
  by code_simp+

lemma identity_json_small:
  "small_enough c \<Longrightarrow> \<exists>j. identity_json example_sha (small_node c p) = Inr j \<and> plain j"
  by (auto simp: identity_json_def small_enough_def baseline_json_def split: option.splits)

lemma small_identity:
  obtains y ub where "prepareOrchestrationV2InventoryIdentity example_sha small_run small_assembly = Inr y"
    "iy_unit_bindings y = [ub]" "ub_chapter_key ub = ''ch1''" "ub_unit_node_id ub = small_id" "ub_chapter_node_id ub = small_id"
    "iy_inventory_hash y = small_hash"
proof -
  obtain c0 c1 c2 c3 c4 where c: "course_candidate example_sha small_assembly = Inr c0"
    "chapter_candidates example_sha small_hash 0 small_chapter = [Inr c1, Inr c2, Inr c3, Inr c4]"
    "list_all small_enough [c0, c1, c2, c3, c4]"
    "map nd_path [c0, c1, c2, c3, c4] = [''course'', chapter_path 0, lesson_path 0 0, unit_path 0 0 0, component_path 0 0 0 0]"
    "map nd_parent_path [c0, c1, c2, c3, c4]
       = [None, Some ''course'', Some (chapter_path 0), Some (lesson_path 0 0), Some (unit_path 0 0 0)]"
    "map nd_sort_order [c0, c1, c2, c3, c4] = [0, 0, 0, 0, 0]"
    by (rule small_candidates)
  note simps = c(4-6) [simplified small_paths list.map list.inject] sibling_key_def parent_of_def path_id_def
  let ?s = "small_node"
  note small = c(3) [simplified]
  have "\<exists>m'. add_node example_sha small_run ([], 0) c0 = Inr ([] @ [?s c0 None], m') \<and> m' \<le> 0 + 50000"
    by (rule add_node_small) (simp_all add: simps small)
  then obtain m0 where m0: "add_node example_sha small_run ([], 0) c0 = Inr ([?s c0 None], m0)" "m0 \<le> 50000" by auto
  let ?n0 = "[?s c0 None]"
  have "\<exists>m'. add_node example_sha small_run (?n0, m0) c1 = Inr (?n0 @ [?s c1 (Some small_id)], m') \<and> m' \<le> m0 + 50000"
    by (rule add_node_small) (use m0 in \<open>simp_all add: simps small\<close>)
  then obtain m1 where m1: "add_node example_sha small_run (?n0, m0) c1 = Inr (?n0 @ [?s c1 (Some small_id)], m1)"
    "m1 \<le> 100000" using m0 by auto
  let ?n1 = "?n0 @ [?s c1 (Some small_id)]"
  have "\<exists>m'. add_node example_sha small_run (?n1, m1) c2 = Inr (?n1 @ [?s c2 (Some small_id)], m') \<and> m' \<le> m1 + 50000"
    by (rule add_node_small) (use m1 in \<open>simp_all add: simps small\<close>)
  then obtain m2 where m2: "add_node example_sha small_run (?n1, m1) c2 = Inr (?n1 @ [?s c2 (Some small_id)], m2)"
    "m2 \<le> 150000" using m1 by auto
  let ?n2 = "?n1 @ [?s c2 (Some small_id)]"
  have "\<exists>m'. add_node example_sha small_run (?n2, m2) c3 = Inr (?n2 @ [?s c3 (Some small_id)], m') \<and> m' \<le> m2 + 50000"
    by (rule add_node_small) (use m2 in \<open>simp_all add: simps small\<close>)
  then obtain m3 where m3: "add_node example_sha small_run (?n2, m2) c3 = Inr (?n2 @ [?s c3 (Some small_id)], m3)"
    "m3 \<le> 200000" using m2 by auto
  let ?n3 = "?n2 @ [?s c3 (Some small_id)]"
  have "\<exists>m'. add_node example_sha small_run (?n3, m3) c4 = Inr (?n3 @ [?s c4 (Some small_id)], m') \<and> m' \<le> m3 + 50000"
    by (rule add_node_small) (use m3 in \<open>simp_all add: simps small\<close>)
  then obtain m4 where m4: "add_node example_sha small_run (?n3, m3) c4 = Inr (?n3 @ [?s c4 (Some small_id)], m4)" by auto
  let ?n4 = "?n3 @ [?s c4 (Some small_id)]"
  define N where "N = ?n4"
  have added: "add_nodes example_sha small_run ([], 0) [course_candidate example_sha small_assembly] = Inr ([?s c0 None], m0)"
    "add_chapters example_sha small_run small_hash ([?s c0 None], m0) [(0, small_chapter)] = Inr (N, m4)"
    using m0 m1 m2 m3 m4 by (simp_all add: c(1,2) chapter_unit_count_def N_def) (simp add: small_chapter_def)
  obtain j0 j1 j2 j3 j4 where j: "identity_json example_sha (?s c0 None) = Inr j0" "identity_json example_sha (?s c1 (Some small_id)) = Inr j1"
    "identity_json example_sha (?s c2 (Some small_id)) = Inr j2" "identity_json example_sha (?s c3 (Some small_id)) = Inr j3"
    "identity_json example_sha (?s c4 (Some small_id)) = Inr j4" "list_all plain [j0, j1, j2, j3, j4]"
    using identity_json_small [of c0 None] identity_json_small [of c1 "Some small_id"] identity_json_small [of c2 "Some small_id"]
      identity_json_small [of c3 "Some small_id"] identity_json_small [of c4 "Some small_id"] small by auto
  have hash: "invHash example_sha (JArr [j0, j1, j2, j3, j4]) = Inr small_hash" using j(6) by (simp add: small_sha)
  have units: "assembly_units small_assembly = [example_unit ''s1'']" "component_count small_assembly = 1"
    by (simp_all add: assembly_units_def component_count_def chapter_units_def small_assembly_def small_chapter_def example_unit_def)
  have collected: "mapE (identity_json example_sha) N = Inr [j0, j1, j2, j3, j4]" using j(1-5) by (simp add: N_def)
  let ?ub = "unit_binding_of N 0 small_chapter 0 (0, example_unit ''s1'')"
  have sel: "ax_chapters (as_architecture small_assembly) = [small_chapter]" "as_assembly_hash small_assembly = small_hash"
    "as_unit_count small_assembly = 1" "as_component_plan_count small_assembly = 1" by (simp_all add: small_assembly_def)
  have bindings: "chapter_bindings N (0, small_chapter) = [?ub]"
    by (simp add: chapter_bindings_def) (simp add: small_chapter_def)
  have "\<exists>y. prepareOrchestrationV2InventoryIdentity example_sha small_run small_assembly = Inr y \<and> iy_unit_bindings y = [?ub]
      \<and> iy_inventory_hash y = small_hash"
    unfolding prepareOrchestrationV2InventoryIdentity_def Let_def sel enumerate_simps added bindE.simps fst_conv collected hash units
    using bindings by (simp add: small_patterns)
  moreover have known: "known_id N (unit_path 0 0 0) = small_id" "known_id N (chapter_path 0) = small_id"
    unfolding small_paths by (simp_all add: known_id_def path_id_def N_def simps)
  have "ub_chapter_key ?ub = ''ch1''" "ub_unit_node_id ?ub = small_id" "ub_chapter_node_id ?ub = small_id"
    unfolding unit_binding_of_def Let_def fst_conv known by (simp_all add: small_chapter_def)
  ultimately show thesis using that by metis
qed

section \<open>The publication\<close>

definition small_budgets :: inventory_budgets where
  "small_budgets = \<lparr>ib_unit = example_budget, ib_chapter_validation_budget_ms = 1000, ib_finalization_budget_ms = 1000\<rparr>"

definition made_small :: "nat \<Rightarrow> string \<Rightarrow> task_kind \<Rightarrow> string option \<Rightarrow> string option \<Rightarrow> int \<Rightarrow> string list \<Rightarrow> budget \<Rightarrow> stored_task" where
  "made_small i key kind ch node p deps b = \<lparr>pt_ordinal = int i, pt_key = key, pt_kind = kind, pt_chapter_key = ch, pt_node_id = node,
     pt_contract_hash = small_hash, pt_input_context_hash = Some small_hash, pt_priority = p, pt_max_attempts = 2, pt_depends_on = deps,
     pt_budget = b, st_id = small_id\<rparr>"

definition small_unit where "small_unit = made_small 5 (unit_task_key ''ch1'' 0) Generate_unit (Some ''ch1'') (Some small_id) 50 [''inventory:publish''] example_budget"
definition small_validation where "small_validation = made_small 6 (validate_task_key ''ch1'') Validate_chapter (Some ''ch1'') (Some small_id) 60 [unit_task_key ''ch1'' 0] (idle_budget 1000)"
definition small_final where "small_final = made_small 7 ''course:finalize'' Finalize_course None None 70 [validate_task_key ''ch1''] (idle_budget 1000)"

lemmas small_new_defs = small_unit_def small_validation_def small_final_def made_small_def

lemma small_new_task:
  "is_key (pt_key t) \<Longrightarrow> length (pt_key t) \<le> 100
    \<Longrightarrow> new_task example_sha small_run i t = Inr (persisted_task.extend (t\<lparr>pt_ordinal := int i\<rparr>) (stored_task.fields small_id))"
  by (simp add: new_task_def small_uuid)

lemmas small_new_task' = small_new_task [unfolded small_sha]

lemma small_key_lengths: "length (unit_task_key ''ch1'' 0) \<le> 100" "length (validate_task_key ''ch1'') \<le> 100"
  by code_simp+

lemma small_tasks_made:
  assumes "ub_chapter_key ub = ''ch1''" "ub_unit_node_id ub = small_id" "ub_chapter_node_id ub = small_id"
  shows "unit_tasks example_sha small_run small_assembly small_hash example_budget ''inventory:publish'' 5 [] [ub]
      = Inr ([small_unit], [(''ch1'', [unit_task_key ''ch1'' 0])])"
    "validation_tasks example_sha small_run small_assembly small_hash 1000 [(''ch1'', [unit_task_key ''ch1'' 0])] [ub] 6 [small_chapter]
      = Inr [small_validation]"
    "bindE (final_course_task example_sha small_assembly small_hash 1000 [validate_task_key ''ch1'']) (new_task example_sha small_run 7)
      = Inr small_final"
proof -
  note keys = example_keys [simplified]
  show "unit_tasks example_sha small_run small_assembly small_hash example_budget ''inventory:publish'' 5 [] [ub]
      = Inr ([small_unit], [(''ch1'', [unit_task_key ''ch1'' 0])])"
    using assms keys small_key_lengths
    by (simp add: unit_task_def Let_def keys_of_chapter_def small_new_task' small_sha small_new_defs
       persisted_task.defs stored_task.defs)
  show "validation_tasks example_sha small_run small_assembly small_hash 1000 [(''ch1'', [unit_task_key ''ch1'' 0])] [ub] 6 [small_chapter]
      = Inr [small_validation]"
    using assms keys small_key_lengths
    by (simp add: chapter_task_def Let_def small_chapter_def small_new_task' small_sha small_new_defs
       persisted_task.defs stored_task.defs)
  show "bindE (final_course_task example_sha small_assembly small_hash 1000 [validate_task_key ''ch1'']) (new_task example_sha small_run 7)
      = Inr small_final"
    using keys small_key_lengths
    by (simp add: final_course_task_def Let_def small_new_task' small_sha small_new_defs persisted_task.defs stored_task.defs)
qed


lemma small_key_texts: "chapter_task_key ''ch1'' = ''architecture:chapter:ch1''" "unit_task_key ''ch1'' 0 = ''content:ch1:unit:1''"
  "validate_task_key ''ch1'' = ''content:ch1:validate''"
  by code_simp+


definition small_rows :: "persisted_task list" where
  "small_rows = map persisted_task.truncate (small_tasks @ [small_unit, small_validation, small_final])"

lemmas small_rows_defs = small_rows_def small_tasks_def small_task_def small_new_defs persisted_task.defs stored_task.defs

lemma small_keys: "map pt_key small_rows = [''source:snapshot'', ''architecture:course'', ''architecture:chapter:ch1'',
    ''architecture:validate'', ''inventory:publish'', ''content:ch1:unit:1'', ''content:ch1:validate'', ''course:finalize'']"
  by (simp add: small_rows_defs small_key_texts)

lemma small_budget_within: "list_all (\<lambda>t. budget_within (pt_budget t) (provider_kind (pt_kind t))) small_rows"
  using example_budget_within
  by (simp add: small_rows_defs provider_kind_def) (simp add: idle_budget_def budget_within_def safeInteger_def isSafeInteger_def manifest_limits)

lemma small_checked: "check_rows 0 {} small_rows"
proof -
  have d: "distinct (map pt_key small_rows)" unfolding small_keys by code_simp
  have k: "list_all is_key (map pt_key small_rows)" unfolding small_keys by code_simp
  have "is_key ''ch1''" by (rule example_patterns)
  then show ?thesis using d k
    by (simp add: small_rows_defs row_valid_def opt_ok_def small_patterns safeInteger_def isSafeInteger_def manifest_limits
      small_key_texts)
qed

lemma small_deps: "dependencies_ok pt_key pt_ordinal pt_depends_on small_rows"
  by (simp add: dependencies_ok_def positions_def js_map_get_def small_rows_defs small_key_texts)

lemma small_kinds: "kinds_complete small_rows" "pipeline_shape small_rows"
  by (simp_all add: kinds_complete_def pipeline_shape_def Let_def by_kind_def deps_of_def key_of_def small_rows_defs)

lemma small_seal: "seal_accepted small_hash small_rows"
proof -
  have "sort_key pt_ordinal small_rows = small_rows"
    by (rule sort_key_id_if_sorted) (simp add: small_rows_defs)
  moreover have "length small_rows = 8" by (simp add: small_rows_defs)
  ultimately show ?thesis
    using small_budget_within small_checked small_deps small_kinds
    by (simp add: seal_accepted_def rows_valid_def small_patterns manifest_limits)
qed

lemma small_sealed: "sealOrchestrationV2PersistedManifest example_sha small_hash small_rows
    = Inr (sealed_manifest example_sha small_hash small_rows)"
  by (simp add: seal_iff small_seal)

lemma small_published: "ok (prepareOrchestrationV2InventoryPublication example_sha small_run small_assembly small_tasks small_budgets)"
proof -
  obtain y ub where y: "prepareOrchestrationV2InventoryIdentity example_sha small_run small_assembly = Inr y"
    "iy_unit_bindings y = [ub]" "iy_inventory_hash y = small_hash"
    and ub: "ub_chapter_key ub = ''ch1''" "ub_unit_node_id ub = small_id" "ub_chapter_node_id ub = small_id"
    by (rule small_identity)
  have existing: "sort_key pt_ordinal small_tasks = small_tasks" "length small_tasks = 5" "pt_key (last small_tasks) = ''inventory:publish''"
    "small_tasks \<noteq> []"
    by (auto intro!: sort_key_id_if_sorted simp: small_tasks_def small_task_def)
  have ok': "existing_ok small_tasks"
    by (simp add: existing_ok_def small_tasks_def small_task_def small_patterns planned_kinds_def)
  have sel: "as_source_snapshot_hash small_assembly = small_hash" "as_assembly_hash small_assembly = small_hash"
    "ax_chapters (as_architecture small_assembly) = [small_chapter]" "ib_unit small_budgets = example_budget"
    "ib_chapter_validation_budget_ms small_budgets = 1000" "ib_finalization_budget_ms small_budgets = 1000"
    by (simp_all add: small_assembly_def small_budgets_def)
  have keys: "pt_key small_validation = validate_task_key ''ch1''" by (simp add: small_new_defs)
  obtain f where f: "final_course_task example_sha small_assembly small_hash 1000 [validate_task_key ''ch1''] = Inr f"
    "new_task example_sha small_run 7 f = Inr small_final" using small_tasks_made(3) [OF ub] by auto
  obtain m where m: "seal_result (sealOrchestrationV2PersistedManifest example_sha small_hash small_rows) = Inr m"
    by (simp add: seal_result_def small_sealed)
  have rows: "map persisted_task.truncate (small_tasks @ [small_unit] @ [small_validation] @ [small_final]) = small_rows"
    by (simp add: small_rows_def)
  have n: "(5::nat) + length [small_unit] = 6" "6 + length [small_validation] = 7" by simp_all
  have guard: "isUuid small_run" "is_hash small_hash" "isSafeInteger 1000" "plain (publication_receipt_json small_assembly y m)"
    by (simp_all add: small_patterns isSafeInteger_def MAX_SAFE_INTEGER_def publication_receipt_json_def)
  show ?thesis
    unfolding prepareOrchestrationV2InventoryPublication_def Let_def existing sel y bindE.simps
      small_tasks_made(1,2) [OF ub] prod.case n list.map keys f rows m
    using guard ok' existing by (simp add: ok_iff)
qed

theorem published_inventory_is_complete_witness:
  "\<exists>pub :: inventory_publication. map ub_unit (ip_unit_bindings pub) = [example_unit ''s1'']
     \<and> length (by_kind Generate_unit (mf_tasks (ip_manifest pub))) = 1 \<and> distinct (map nd_path (ip_nodes pub))"
proof -
  obtain pub where "prepareOrchestrationV2InventoryPublication example_sha small_run small_assembly small_tasks small_budgets = Inr pub"
    using small_published by (auto simp: ok_iff)
  note p = published_inventory_is_complete [OF this]
  have units: "assembly_units small_assembly = [example_unit ''s1'']"
    by (simp add: assembly_units_def chapter_units_def small_assembly_def small_chapter_def)
  then have u: "map ub_unit (ip_unit_bindings pub) = [example_unit ''s1'']" using p by simp
  from u [THEN arg_cong [of _ _ length]] have "length (ip_unit_bindings pub) = 1" by simp
  moreover have "map pt_node_id (by_kind Generate_unit (mf_tasks (ip_manifest pub))) = map (Some \<circ> ub_unit_node_id) (ip_unit_bindings pub)"
    using p by (elim conjE)
  ultimately have "length (by_kind Generate_unit (mf_tasks (ip_manifest pub))) = 1"
    using map_eq_imp_length_eq by metis
  then show ?thesis using u p by (intro exI [of _ pub]) simp
qed

end
