(* ===== verification/Rag_Contract.thy ===== *)
theory Rag_Contract
  imports Architecture Dispatch
begin

text \<open>
  The contract with the course planner (ai-id/contracts/lesson-author-orchestration-v2-rag-contract.logic.ts):
  the readers of a course skeleton and of the shards of its chapters. They take the value of a parsed JSON
  text (numbers are integers). Each reader returns the record of its interface; where the source keeps
  properties outside the interface by spreading the value, they are returned beside the record. A locale
  or media type that \<open>String\<close> turns into an allowed text is read as that text.
\<close>

section \<open>Tests on values\<close>

datatype contract_error = Response_invalid | Identity_mismatch

definition requireRecord :: "jsval \<Rightarrow> contract_error + (string \<times> jsval) list" where
  "requireRecord v = (case v of JObj ps \<Rightarrow> Inr ps | _ \<Rightarrow> Inl Response_invalid)"

definition exactKeys :: "(string \<times> jsval) list \<Rightarrow> string list \<Rightarrow> bool" where
  "exactKeys ps keys \<longleftrightarrow> sort (map fst ps) = sort keys"

definition text_test :: "jsval \<Rightarrow> nat \<Rightarrow> bool" where
  "text_test v maximum \<longleftrightarrow> (case v of JStr s \<Rightarrow> trim s \<noteq> [] \<and> length s \<le> maximum | _ \<Rightarrow> False)"

definition str_of :: "jsval \<Rightarrow> string" where
  "str_of v = (case v of JStr s \<Rightarrow> s | _ \<Rightarrow> [])"

definition int_of_json :: "jsval \<Rightarrow> int" where
  "int_of_json v = (case v of JInt i \<Rightarrow> i | _ \<Rightarrow> 0)"

definition elems_of :: "jsval \<Rightarrow> jsval list" where
  "elems_of v = (case v of JArr xs \<Rightarrow> xs | _ \<Rightarrow> [])"

definition is_array :: "jsval \<Rightarrow> bool" where
  "is_array v \<longleftrightarrow> (case v of JArr xs \<Rightarrow> True | _ \<Rightarrow> False)"

definition is_string :: "jsval \<Rightarrow> bool" where
  "is_string v \<longleftrightarrow> (case v of JStr s \<Rightarrow> True | _ \<Rightarrow> False)"

definition strings_test :: "jsval \<Rightarrow> nat \<Rightarrow> bool \<Rightarrow> bool" where
  "strings_test v maximum allow_empty \<longleftrightarrow> is_array v \<and> (allow_empty \<or> elems_of v \<noteq> []) \<and> length (elems_of v) \<le> maximum
     \<and> list_all (\<lambda>x. text_test x 5000) (elems_of v)"

definition strs_of :: "jsval \<Rightarrow> string list" where
  "strs_of v = map str_of (elems_of v)"

definition one_of :: "string list \<Rightarrow> jsval \<Rightarrow> bool" where
  "one_of texts v \<longleftrightarrow> js_to_string v \<in> Some ` set texts"

text \<open>\<open>/^lo_([1-9][0-9]*)$/\<close>\<close>

definition objective_ref :: "string \<Rightarrow> bool" where
  "objective_ref s \<longleftrightarrow> take 3 s = ''lo_'' \<and> all_digits (drop 3 s) \<and> hd (drop 3 s) \<noteq> CHR ''0''"

definition objective_number :: "string \<Rightarrow> nat" where
  "objective_number s = digits_value (drop 3 s)"

text \<open>\<open>/^ao2_[a-f0-9]{32}$/\<close>\<close>

definition slot_key :: "string \<Rightarrow> bool" where
  "slot_key s \<longleftrightarrow> length s = 36 \<and> take 4 s = ''ao2_'' \<and> list_all is_lower_hex (drop 4 s)"

definition identifiers :: "jsval \<Rightarrow> nat \<Rightarrow> contract_error + string list" where
  "identifiers v maximum = ensure Response_invalid (is_array v \<and> 1 \<le> length (elems_of v) \<and> length (elems_of v) \<le> maximum
       \<and> list_all (\<lambda>x. text_test x 255) (elems_of v) \<and> distinct (strs_of v))
     (Inr (strs_of v))"

section \<open>Usage and quality\<close>

definition usage_field :: "(string \<times> jsval) list \<Rightarrow> string \<Rightarrow> contract_error + (string \<times> int) option" where
  "usage_field ps k = (case field_of ps k of JUndefined \<Rightarrow> Inr None
     | v \<Rightarrow> ensure Response_invalid (int_test v 0 MAX_SAFE_INTEGER) (Inr (Some (k, int_of_json v))))"

definition read_usage :: "jsval \<Rightarrow> contract_error + (string \<times> int) list option" where
  "read_usage v = (case v of
       JObj ps \<Rightarrow> bindE (mapE (usage_field ps) [''inputTokens'', ''outputTokens'', ''embeddingTokens'', ''totalTokens''])
         (\<lambda>fs. Inr (Some (map the (filter (\<lambda>f. f \<noteq> None) fs))))
     | _ \<Rightarrow> Inr None)"

record quality_envelope =
  qe_usage_complete :: bool
  qe_usage_source :: jsval
  qe_content_origin :: jsval
  qe_quality_state :: jsval

definition planningQualityEnvelope :: "(string \<times> jsval) list \<Rightarrow> contract_error + quality_envelope" where
  "planningQualityEnvelope ps = (let f = field_of ps;
       present = length (filter (\<lambda>k. f k \<noteq> JUndefined) [''usage_complete'', ''usage_source'', ''content_origin'', ''quality_state'']) in
     if present = 0 then Inr \<lparr>qe_usage_complete = True, qe_usage_source = JStr ''provider'',
         qe_content_origin = JStr ''provider_validated'', qe_quality_state = JStr ''validated''\<rparr>
     else ensure Response_invalid (present = 4 \<and> f ''usage_complete'' \<in> {JBool True, JBool False}
         \<and> one_of [''provider'', ''reserved_upper_bound''] (f ''usage_source'')
         \<and> one_of [''provider_validated'', ''structured_fallback''] (f ''content_origin'')
         \<and> one_of [''validated'', ''review_required''] (f ''quality_state'')
         \<and> (f ''usage_source'' = JStr ''provider'') = (f ''usage_complete'' = JBool True)
         \<and> (f ''content_origin'' = JStr ''provider_validated'') = (f ''quality_state'' = JStr ''validated''))
       (Inr \<lparr>qe_usage_complete = (f ''usage_complete'' = JBool True), qe_usage_source = f ''usage_source'',
          qe_content_origin = f ''content_origin'', qe_quality_state = f ''quality_state''\<rparr>))"

section \<open>The parts of a lesson\<close>

definition all_component_types :: "component_type list" where
  "all_component_types = [C_html, C_problem, C_la_faq, C_la_sortable, C_la_crossword, C_la_diagram]"

definition component_type_of :: "jsval \<Rightarrow> component_type option" where
  "component_type_of v = find (\<lambda>t. v = JStr (component_text t)) all_component_types"

definition empty_review :: "(string \<times> jsval) list" where
  "empty_review = [(''purpose'', JNull), (''example_scenario'', JNull), (''visual_asset'', JNull), (''user_behavior_navigation'', JNull)]"

definition nullable_text :: "jsval \<Rightarrow> nat \<Rightarrow> bool" where
  "nullable_text v maximum \<longleftrightarrow> v = JNull \<or> text_test v maximum"

definition nullable_of :: "jsval \<Rightarrow> string option" where
  "nullable_of v = (case v of JStr s \<Rightarrow> Some s | _ \<Rightarrow> None)"

definition review_of :: "(string \<times> jsval) list \<Rightarrow> author_review" where
  "review_of r = \<lparr>ar_purpose = nullable_of (field_of r ''purpose''), ar_example_scenario = nullable_of (field_of r ''example_scenario''),
     ar_visual_asset = nullable_of (field_of r ''visual_asset''),
     ar_user_behavior_navigation = nullable_of (field_of r ''user_behavior_navigation'')\<rparr>"

definition architectureComponent :: "jsval \<Rightarrow> contract_error + component_plan" where
  "architectureComponent v = bindE (requireRecord v) (\<lambda>item. let f = field_of item in
     bindE (if f ''author_review'' = JUndefined then Inr empty_review else requireRecord (f ''author_review'')) (\<lambda>review.
     case component_type_of (f ''type'') of None \<Rightarrow> Inl Response_invalid | Some t \<Rightarrow>
     ensure Response_invalid ((exactKeys item [''type'', ''title'', ''rationale'', ''author_review'', ''source_scope_ids'']
            \<or> exactKeys item [''type'', ''title'', ''rationale'', ''source_scope_ids''])
         \<and> exactKeys review [''purpose'', ''example_scenario'', ''visual_asset'', ''user_behavior_navigation'']
         \<and> text_test (f ''title'') 180 \<and> text_test (f ''rationale'') 500
         \<and> nullable_text (field_of review ''purpose'') 1200 \<and> nullable_text (field_of review ''example_scenario'') 2000
         \<and> nullable_text (field_of review ''visual_asset'') 1200 \<and> nullable_text (field_of review ''user_behavior_navigation'') 1200)
      (bindE (identifiers (f ''source_scope_ids'') 4096) (\<lambda>scopes.
        Inr \<lparr>cp_type = t, cp_title = str_of (f ''title''), cp_rationale = str_of (f ''rationale''),
          cp_author_review = Some (review_of review), cp_source_scope_ids = scopes\<rparr>))))"

definition media_type_of :: "jsval \<Rightarrow> media_type" where
  "media_type_of v = (if js_to_string v = Some ''video'' then M_video else M_static_infographic)"

definition architectureMediaBrief :: "jsval \<Rightarrow> contract_error + media_brief option" where
  "architectureMediaBrief v = (if v = JNull then Inr None else
     bindE (requireRecord v) (\<lambda>item. let f = field_of item in
     ensure Response_invalid (exactKeys item [''type'', ''title'', ''content_points'', ''context_description'', ''rationale'']
         \<and> one_of [''video'', ''static_infographic''] (f ''type'') \<and> text_test (f ''title'') 180
         \<and> strings_test (f ''content_points'') 6 False \<and> list_all (\<lambda>p. length p \<le> 600) (strs_of (f ''content_points''))
         \<and> text_test (f ''context_description'') 1000 \<and> text_test (f ''rationale'') 500)
       (Inr (Some \<lparr>mb_type = media_type_of (f ''type''), mb_title = str_of (f ''title''),
          mb_content_points = strs_of (f ''content_points''), mb_context_description = str_of (f ''context_description''),
          mb_rationale = str_of (f ''rationale'')\<rparr>))))"

text \<open>The plan of a unit: each type once, a text first, a FAQ last, and its scopes exactly those of the unit.\<close>

definition plan_fits :: "string list \<Rightarrow> component_plan list \<Rightarrow> bool" where
  "plan_fits unit_scopes plan \<longleftrightarrow> (let types = map cp_type plan; represented = concat (map cp_source_scope_ids plan) in
     distinct types \<and> find_index (\<lambda>t. t = C_html) types \<in> {None, Some 0}
     \<and> find_index (\<lambda>t. t = C_la_faq) types \<in> {None, Some (length types - 1)}
     \<and> list_all (\<lambda>c. set (cp_source_scope_ids c) \<subseteq> set unit_scopes) plan
     \<and> card (set represented) = card (set unit_scopes) \<and> set unit_scopes \<subseteq> set represented)"

definition unitArchitecture :: "jsval \<Rightarrow> contract_error + unit_architecture" where
  "unitArchitecture v = bindE (requireRecord v) (\<lambda>item. let f = field_of item in
     ensure Response_invalid (exactKeys item [''title'', ''purpose'', ''learning_objective_refs'', ''source_scope_ids'', ''component_plan'', ''media_brief'']
         \<and> text_test (f ''title'') 180 \<and> text_test (f ''purpose'') 500 \<and> is_array (f ''component_plan'')
         \<and> 1 \<le> length (elems_of (f ''component_plan'')) \<and> length (elems_of (f ''component_plan'')) \<le> 4)
      (bindE (identifiers (f ''source_scope_ids'') 4096) (\<lambda>scopes.
       bindE (identifiers (f ''learning_objective_refs'') 24) (\<lambda>refs.
       ensure Response_invalid (list_all objective_ref refs)
        (bindE (mapE architectureComponent (elems_of (f ''component_plan''))) (\<lambda>plan.
         ensure Response_invalid (plan_fits scopes plan)
          (bindE (architectureMediaBrief (f ''media_brief'')) (\<lambda>media.
            Inr \<lparr>ua_title = str_of (f ''title''), ua_purpose = str_of (f ''purpose''), ua_learning_objective_refs = refs,
              ua_source_scope_ids = scopes, ua_component_plan = plan, ua_media_brief = media\<rparr>))))))))"

definition lessonArchitecture :: "jsval \<Rightarrow> contract_error + lesson_architecture" where
  "lessonArchitecture v = bindE (requireRecord v) (\<lambda>item. let f = field_of item in
     ensure Response_invalid (exactKeys item [''title'', ''objective'', ''learning_objectives'', ''learning_activities'', ''assessment'', ''units'']
         \<and> text_test (f ''title'') 180 \<and> text_test (f ''objective'') 500
         \<and> strings_test (f ''learning_objectives'') 8 False \<and> strings_test (f ''learning_activities'') 3 False
         \<and> list_all (\<lambda>s. length s \<le> 500) (strs_of (f ''learning_objectives''))
         \<and> list_all (\<lambda>s. length s \<le> 280) (strs_of (f ''learning_activities''))
         \<and> text_test (f ''assessment'') 500 \<and> is_array (f ''units'')
         \<and> 1 \<le> length (elems_of (f ''units'')) \<and> length (elems_of (f ''units'')) \<le> 512)
      (bindE (mapE unitArchitecture (elems_of (f ''units''))) (\<lambda>units.
       ensure Response_invalid (list_all (\<lambda>u. list_all (\<lambda>r. objective_ref r
            \<and> objective_number r \<le> length (strs_of (f ''learning_objectives''))) (ua_learning_objective_refs u)) units)
         (Inr \<lparr>la_title = str_of (f ''title''), la_objective = str_of (f ''objective''),
            la_learning_objectives = strs_of (f ''learning_objectives''),
            la_learning_activities = strs_of (f ''learning_activities''), la_assessment = str_of (f ''assessment''),
            la_units = units\<rparr>))))"

definition assessmentObligation :: "jsval \<Rightarrow> contract_error + shard_obligation" where
  "assessmentObligation v = bindE (requireRecord v) (\<lambda>item. let f = field_of item in
     ensure Response_invalid (exactKeys item [''planned_slot_key'', ''lesson_index'', ''unit_index'', ''component_index'',
           ''learning_objective_refs'', ''required_assessment_kind'', ''relevant_scope_ids'',
           ''relevant_evidence_fact_ids'', ''unresolved_reason'', ''status'']
         \<and> is_string (f ''planned_slot_key'') \<and> slot_key (str_of (f ''planned_slot_key''))
         \<and> int_test (f ''lesson_index'') 1 4096 \<and> int_test (f ''unit_index'') 1 4096 \<and> int_test (f ''component_index'') 1 3
         \<and> f ''required_assessment_kind'' = JStr ''single_choice''
         \<and> f ''unresolved_reason'' = JStr ''ASSESSMENT_SOURCE_CHECK_REQUIRED'' \<and> f ''status'' = JStr ''open'')
      (bindE (identifiers (f ''learning_objective_refs'') 24) (\<lambda>refs.
       ensure Response_invalid (list_all objective_ref refs)
        (bindE (identifiers (f ''relevant_scope_ids'') 4096) (\<lambda>scopes.
         bindE (identifiers (f ''relevant_evidence_fact_ids'') 32768) (\<lambda>facts.
          Inr \<lparr>so_planned_slot_key = str_of (f ''planned_slot_key''), so_lesson_index = int_of_json (f ''lesson_index''),
            so_unit_index = int_of_json (f ''unit_index''), so_component_index = int_of_json (f ''component_index''),
            so_learning_objective_refs = refs, so_relevant_scope_ids = scopes, so_relevant_evidence_fact_ids = facts\<rparr>))))))"

section \<open>The course skeleton\<close>

text \<open>The properties that are not part of an interface.\<close>

definition rest_of :: "string list \<Rightarrow> (string \<times> jsval) list \<Rightarrow> (string \<times> jsval) list" where
  "rest_of keys ps = filter (\<lambda>p. fst p \<notin> set keys) ps"

definition optional_strs :: "jsval \<Rightarrow> string list option" where
  "optional_strs v = (if v = JUndefined then None else Some (strs_of v))"

definition read_chapter :: "jsval \<Rightarrow> contract_error + course_chapter \<times> (string \<times> jsval) list" where
  "read_chapter v = bindE (requireRecord v) (\<lambda>item. let f = field_of item in
     ensure Response_invalid (text_test (f ''chapter_key'') 160 \<and> is_key (str_of (f ''chapter_key''))
         \<and> int_test (f ''order'') 0 511 \<and> text_test (f ''title'') 500 \<and> text_test (f ''objective'') 2000
         \<and> (f ''learning_outcomes'' = JUndefined \<or> strings_test (f ''learning_outcomes'') 24 False)
         \<and> strings_test (f ''source_scope_ids'') 4096 False \<and> distinct (strs_of (f ''source_scope_ids'')))
       (Inr (\<lparr>ck_chapter_key = str_of (f ''chapter_key''), ck_order = int_of_json (f ''order''), ck_title = str_of (f ''title''),
          ck_objective = str_of (f ''objective''), ck_learning_outcomes = optional_strs (f ''learning_outcomes''),
          ck_source_scope_ids = strs_of (f ''source_scope_ids'')\<rparr>,
          rest_of [''chapter_key'', ''order'', ''title'', ''objective'', ''learning_outcomes'', ''source_scope_ids''] item)))"

record read_skeleton = course_skeleton +
  kn_rest :: "(string \<times> jsval) list"
  kn_chapter_rests :: "(string \<times> jsval) list list"

definition courseSkeleton :: "jsval \<Rightarrow> contract_error + read_skeleton" where
  "courseSkeleton v = bindE (requireRecord v) (\<lambda>item. let f = field_of item in
     ensure Response_invalid (f ''contract_version'' = JInt 2 \<and> text_test (f ''source_snapshot_hash'') 64
         \<and> is_hash (str_of (f ''source_snapshot_hash'')) \<and> one_of [''vi'', ''en''] (f ''locale'')
         \<and> text_test (f ''title'') 500 \<and> text_test (f ''summary'') 5000 \<and> text_test (f ''target_audience'') 2000
         \<and> strings_test (f ''prerequisites'') 1000 True \<and> strings_test (f ''learning_outcomes'') 4096 False
         \<and> text_test (f ''assessment_strategy'') 5000 \<and> strings_test (f ''assumptions'') 1000 True
         \<and> is_array (f ''chapters'') \<and> 1 \<le> length (elems_of (f ''chapters'')) \<and> length (elems_of (f ''chapters'')) \<le> 512)
      (bindE (mapE read_chapter (elems_of (f ''chapters''))) (\<lambda>read. let cs = map fst read in
       ensure Response_invalid (distinct (map ck_chapter_key cs) \<and> distinct (concat (map ck_source_scope_ids cs))
           \<and> sort (map ck_order cs) = map int [0..<length cs])
         (Inr \<lparr>kn_contract_version = 2, kn_source_snapshot_hash = str_of (f ''source_snapshot_hash''),
            kn_locale = the (js_to_string (f ''locale'')), kn_title = str_of (f ''title''), kn_summary = str_of (f ''summary''),
            kn_target_audience = str_of (f ''target_audience''), kn_prerequisites = strs_of (f ''prerequisites''),
            kn_learning_outcomes = strs_of (f ''learning_outcomes''), kn_assessment_strategy = str_of (f ''assessment_strategy''),
            kn_assumptions = strs_of (f ''assumptions''), kn_chapters = cs,
            kn_rest = rest_of [''contract_version'', ''source_snapshot_hash'', ''locale'', ''title'', ''summary'',
              ''target_audience'', ''prerequisites'', ''learning_outcomes'', ''assessment_strategy'', ''assumptions'', ''chapters''] item,
            kn_chapter_rests = map snd read\<rparr>))))"

record skeleton_response =
  sr_skeleton :: read_skeleton
  sr_usage :: "(string \<times> int) list option"
  sr_quality :: quality_envelope

definition readOrchestrationV2CourseSkeletonResponse :: "jsval \<Rightarrow> string \<Rightarrow> contract_error + skeleton_response" where
  "readOrchestrationV2CourseSkeletonResponse v expected_hash = bindE (requireRecord v) (\<lambda>item.
     ensure Response_invalid (field_of item ''contract_version'' = JInt 2)
      (bindE (courseSkeleton (field_of item ''skeleton'')) (\<lambda>k.
       ensure Identity_mismatch (kn_source_snapshot_hash k = expected_hash)
        (bindE (read_usage (field_of item ''usage'')) (\<lambda>u.
         bindE (planningQualityEnvelope item) (\<lambda>q.
          Inr \<lparr>sr_skeleton = k, sr_usage = u, sr_quality = q\<rparr>))))))"

section \<open>The shard of a chapter\<close>

record read_shard = chapter_shard +
  hs_rest :: "(string \<times> jsval) list"

record shard_response =
  hr_shard :: read_shard
  hr_usage :: "(string \<times> int) list option"
  hr_quality :: quality_envelope

definition shard_scopes :: "lesson_architecture list \<Rightarrow> string list" where
  "shard_scopes lessons = concat (map lesson_scopes lessons)"

text \<open>An obligation names a unit of the shard, objectives of that unit and scopes of that unit.\<close>

definition obligation_fits :: "lesson_architecture list \<Rightarrow> shard_obligation \<Rightarrow> bool" where
  "obligation_fits lessons ob \<longleftrightarrow>
     (case Option.bind (js_at (so_lesson_index ob - 1) lessons) (\<lambda>l. js_at (so_unit_index ob - 1) (la_units l)) of
        None \<Rightarrow> False
      | Some u \<Rightarrow> set (so_learning_objective_refs ob) \<subseteq> set (ua_learning_objective_refs u)
          \<and> set (so_relevant_scope_ids ob) \<subseteq> set (ua_source_scope_ids u))"

definition shard_identity_ok :: "(string \<times> jsval) list \<Rightarrow> 'a course_skeleton_scheme \<Rightarrow> shard_plan \<Rightarrow> bool" where
  "shard_identity_ok shard k p = (let f = field_of shard in
     case find (\<lambda>c. ck_chapter_key c = sp_chapter_key p) (kn_chapters k) of None \<Rightarrow> False
     | Some c \<Rightarrow> f ''source_snapshot_hash'' = JStr (kn_source_snapshot_hash k) \<and> f ''chapter_key'' = JStr (sp_chapter_key p)
         \<and> f ''order'' = JInt (sp_order p) \<and> f ''shard_index'' = JInt (int (sp_shard_index p))
         \<and> f ''shard_count'' = JInt (int (sp_shard_count p)) \<and> f ''title'' = JStr (ck_title c)
         \<and> f ''objective'' = JStr (ck_objective c)
         \<and> json_text (f ''source_scope_ids'') = json_text (strings_json (sp_source_scope_ids p)))"

definition raw_obligations :: "(string \<times> jsval) list \<Rightarrow> jsval" where
  "raw_obligations shard = (case field_of shard ''assessment_obligations'' of JUndefined \<Rightarrow> JArr [] | v \<Rightarrow> v)"

definition shard_value :: "(string \<times> jsval) list \<Rightarrow> lesson_architecture list \<Rightarrow> shard_obligation list \<Rightarrow> read_shard" where
  "shard_value shard lessons obligations = (let f = field_of shard in
     \<lparr>hs_contract_version = 2, hs_source_snapshot_hash = str_of (f ''source_snapshot_hash''),
      hs_chapter_key = str_of (f ''chapter_key''), hs_order = int_of_json (f ''order''),
      hs_shard_index = int_of_json (f ''shard_index''), hs_shard_count = int_of_json (f ''shard_count''),
      hs_source_scope_ids = strs_of (f ''source_scope_ids''), hs_title = str_of (f ''title''),
      hs_objective = str_of (f ''objective''), hs_lessons = lessons, hs_assessment_obligations = Some obligations,
      hs_rest = rest_of [''contract_version'', ''source_snapshot_hash'', ''chapter_key'', ''order'', ''shard_index'', ''shard_count'',
        ''source_scope_ids'', ''title'', ''objective'', ''lessons'', ''assessment_obligations''] shard\<rparr>)"

definition readOrchestrationV2ChapterShardResponse :: "jsval \<Rightarrow> 'a course_skeleton_scheme \<Rightarrow> shard_plan
    \<Rightarrow> contract_error + shard_response" where
  "readOrchestrationV2ChapterShardResponse v k p = bindE (requireRecord v) (\<lambda>item.
     bindE (requireRecord (field_of item ''shard'')) (\<lambda>shard. let f = field_of shard in
     ensure Response_invalid (field_of item ''contract_version'' = JInt 2 \<and> f ''contract_version'' = JInt 2
         \<and> is_array (f ''source_scope_ids'') \<and> is_array (f ''lessons'')
         \<and> 1 \<le> length (elems_of (f ''lessons'')) \<and> length (elems_of (f ''lessons'')) \<le> 512)
      (bindE (mapE lessonArchitecture (elems_of (f ''lessons''))) (\<lambda>lessons.
       ensure Response_invalid (is_array (raw_obligations shard) \<and> length (elems_of (raw_obligations shard)) \<le> 12288)
        (bindE (mapE assessmentObligation (elems_of (raw_obligations shard))) (\<lambda>obligations.
         ensure Response_invalid (sum_list (map (\<lambda>l. length (la_units l)) lessons) \<le> 4096)
          (ensure Identity_mismatch (shard_identity_ok shard k p)
           (ensure Identity_mismatch (distinct (shard_scopes lessons)
                \<and> length (shard_scopes lessons) = length (sp_source_scope_ids p)
                \<and> set (shard_scopes lessons) \<subseteq> set (sp_source_scope_ids p))
            (ensure Response_invalid (distinct (map so_planned_slot_key obligations)
                 \<and> list_all (obligation_fits lessons) obligations)
             (bindE (read_usage (field_of item ''usage'')) (\<lambda>u.
              bindE (planningQualityEnvelope item) (\<lambda>q.
               Inr \<lparr>hr_shard = shard_value shard lessons obligations, hr_usage = u, hr_quality = q\<rparr>))))))))))))"

section \<open>What an accepted shard is\<close>

lemma field_of_plain: "plain (JObj ps) \<Longrightarrow> field_of ps k = JUndefined \<or> plain (field_of ps k)"
proof (cases "map_of ps k")
  case (Some v)
  assume "plain (JObj ps)"
  moreover have "(k, v) \<in> set ps" using Some by (rule map_of_SomeD)
  ultimately have "plain v" by (auto simp: list_all_iff)
  then show ?thesis by (simp add: field_of_def Some)
qed (simp add: field_of_def)

lemma requireRecord_Inr: "requireRecord v = Inr ps \<longleftrightarrow> v = JObj ps"
  by (cases v) (simp_all add: requireRecord_def)

lemma strs_of_strings_json [simp]: "strs_of (strings_json xs) = xs"
  by (simp add: strs_of_def strings_json_def elems_of_def str_of_def comp_def)

lemma identifiers_Inr:
  "identifiers v n = Inr xs \<Longrightarrow> xs \<noteq> [] \<and> distinct xs \<and> length xs \<le> n"
  by (auto simp: identifiers_def strs_of_def)

text \<open>The typed shape of a unit and of a lesson.\<close>

definition unit_shape :: "unit_architecture \<Rightarrow> bool" where
  "unit_shape u \<longleftrightarrow> ua_source_scope_ids u \<noteq> [] \<and> distinct (ua_source_scope_ids u)
     \<and> ua_learning_objective_refs u \<noteq> [] \<and> distinct (ua_learning_objective_refs u)
     \<and> 1 \<le> length (ua_component_plan u) \<and> length (ua_component_plan u) \<le> 4
     \<and> distinct (map cp_type (ua_component_plan u))
     \<and> (\<forall>i < length (ua_component_plan u). cp_type (ua_component_plan u ! i) = C_html \<longrightarrow> i = 0)
     \<and> (\<forall>i < length (ua_component_plan u). cp_type (ua_component_plan u ! i) = C_la_faq \<longrightarrow> Suc i = length (ua_component_plan u))
     \<and> \<Union> (set ` cp_source_scope_ids ` set (ua_component_plan u)) = set (ua_source_scope_ids u)"

definition lesson_shape :: "lesson_architecture \<Rightarrow> bool" where
  "lesson_shape l \<longleftrightarrow> la_units l \<noteq> [] \<and> 1 \<le> length (la_learning_objectives l) \<and> length (la_learning_objectives l) \<le> 8
     \<and> (\<forall>u \<in> set (la_units l). unit_shape u
          \<and> (\<forall>r \<in> set (ua_learning_objective_refs u). objective_ref r \<and> objective_number r \<le> length (la_learning_objectives l)))"

lemma find_index_place:
  assumes "distinct xs" "find_index (\<lambda>t. t = x) xs \<in> {None, Some n}" "i < length xs" "xs ! i = x"
  shows "i = n"
proof -
  have "find_index (\<lambda>t. t = x) xs \<noteq> None" using assms(3,4) nth_mem by (auto simp: find_index_None)
  then have "find_index (\<lambda>t. t = x) xs = Some n" using assms(2) by auto
  then have "n < length xs \<and> xs ! n = x" using find_index_Some by fastforce
  then show ?thesis using assms nth_eq_iff_index_eq by fastforce
qed

lemma plan_fits_shape:
  assumes "plan_fits scopes plan"
  shows "distinct (map cp_type plan)" "i < length plan \<Longrightarrow> cp_type (plan ! i) = C_html \<Longrightarrow> i = 0"
    "i < length plan \<Longrightarrow> cp_type (plan ! i) = C_la_faq \<Longrightarrow> Suc i = length plan"
    "\<Union> (set ` cp_source_scope_ids ` set plan) = set scopes"
proof -
  note p = assms [unfolded plan_fits_def Let_def]
  show d: "distinct (map cp_type plan)" using p by blast
  show "i < length plan \<Longrightarrow> cp_type (plan ! i) = C_html \<Longrightarrow> i = 0"
    using p find_index_place [OF d, of C_html 0 i] by simp
  show "i < length plan \<Longrightarrow> cp_type (plan ! i) = C_la_faq \<Longrightarrow> Suc i = length plan"
    using p find_index_place [OF d, of C_la_faq "length plan - 1" i] by simp
  show "\<Union> (set ` cp_source_scope_ids ` set plan) = set scopes"
    using p by (auto simp: list_all_iff)
qed

lemma unitArchitecture_shape:
  assumes "unitArchitecture v = Inr u"
  shows "unit_shape u"
proof -
  obtain item scopes refs plan where parts: "identifiers (field_of item ''source_scope_ids'') 4096 = Inr scopes"
    "identifiers (field_of item ''learning_objective_refs'') 24 = Inr refs"
    "plan_fits scopes plan" "1 \<le> length plan" "length plan \<le> 4"
    "ua_source_scope_ids u = scopes" "ua_learning_objective_refs u = refs" "ua_component_plan u = plan"
    using assms by (auto simp: unitArchitecture_def requireRecord_Inr Let_def dest!: mapE_Inr_length)
  then show ?thesis
    using identifiers_Inr plan_fits_shape [OF parts(3)] by (auto simp: unit_shape_def)
qed

lemma lessonArchitecture_shape:
  assumes "lessonArchitecture v = Inr l"
  shows "lesson_shape l"
proof -
  obtain vs where units: "mapE unitArchitecture vs = Inr (la_units l)" "1 \<le> length vs"
    and refs: "list_all (\<lambda>u. list_all (\<lambda>r. objective_ref r \<and> objective_number r \<le> length (la_learning_objectives l))
       (ua_learning_objective_refs u)) (la_units l)"
    and objectives: "1 \<le> length (la_learning_objectives l)" "length (la_learning_objectives l) \<le> 8"
    using assms by (auto simp: lessonArchitecture_def requireRecord_Inr Let_def strings_test_def strs_of_def Suc_le_eq)
  have "unit_shape u" if "u \<in> set (la_units l)" for u
    using that mapE_Inr_nth [OF units(1)] mapE_Inr_length [OF units(1)] unitArchitecture_shape
    by (metis in_set_conv_nth)
  then show ?thesis using units objectives refs mapE_Inr_length [OF units(1)] by (auto simp: lesson_shape_def list_all_iff)
qed

text \<open>What the reader has compared a shard with: the skeleton and the plan it was asked for.\<close>

definition shard_matches :: "'a course_skeleton_scheme \<Rightarrow> shard_plan \<Rightarrow> 'b chapter_shard_scheme \<Rightarrow> bool" where
  "shard_matches k p s \<longleftrightarrow> hs_contract_version s = 2 \<and> hs_source_snapshot_hash s = kn_source_snapshot_hash k
     \<and> hs_chapter_key s = sp_chapter_key p \<and> hs_order s = sp_order p \<and> hs_shard_index s = int (sp_shard_index p)
     \<and> hs_shard_count s = int (sp_shard_count p) \<and> hs_source_scope_ids s = sp_source_scope_ids p
     \<and> (\<exists>c. find (\<lambda>c. ck_chapter_key c = sp_chapter_key p) (kn_chapters k) = Some c
           \<and> hs_title s = ck_title c \<and> hs_objective s = ck_objective c)"

definition shard_shape :: "shard_plan \<Rightarrow> 'a chapter_shard_scheme \<Rightarrow> bool" where
  "shard_shape p s \<longleftrightarrow> hs_lessons s \<noteq> [] \<and> (\<forall>l \<in> set (hs_lessons s). lesson_shape l)
     \<and> distinct (shard_scopes (hs_lessons s)) \<and> mset (shard_scopes (hs_lessons s)) = mset (sp_source_scope_ids p)
     \<and> (\<exists>obs. hs_assessment_obligations s = Some obs \<and> distinct (map so_planned_slot_key obs)
           \<and> list_all (obligation_fits (hs_lessons s)) obs)"

lemma same_scopes:
  assumes "distinct xs" "length xs = length ys" "set xs \<subseteq> set ys"
  shows "mset xs = mset ys"
proof -
  have "card (set ys) \<le> length ys" by (rule card_length)
  then have "set xs = set ys"
    using assms distinct_card [OF assms(1)] by (intro card_seteq) auto
  moreover have "distinct ys" using assms calculation by (metis card_distinct distinct_card)
  ultimately show ?thesis using assms(1) set_eq_iff_mset_eq_distinct by blast
qed

lemma shard_identity_matches:
  assumes "shard_identity_ok shard k p" "plain (JObj shard)" "is_array (field_of shard ''source_scope_ids'')"
  shows "shard_matches k p (shard_value shard lessons obligations)"
proof -
  have "plain (field_of shard ''source_scope_ids'')"
    using field_of_plain [OF assms(2)] assms(3) by (force simp: is_array_def)
  then have "field_of shard ''source_scope_ids'' = strings_json (sp_source_scope_ids p)"
    using assms(1) by (auto simp: shard_identity_ok_def Let_def json_text_inj split: option.splits)
  then show ?thesis
    using assms(1)
    by (auto simp: shard_identity_ok_def shard_matches_def shard_value_def Let_def str_of_def int_of_json_def split: option.splits)
qed

lemma shard_value_sel [simp]:
  "hs_lessons (shard_value shard lessons obligations) = lessons"
  "hs_assessment_obligations (shard_value shard lessons obligations) = Some obligations"
  by (simp_all add: shard_value_def Let_def)

lemma accepted_shard_facts:
  assumes "plain v" "readOrchestrationV2ChapterShardResponse v k p = Inr r"
  shows "shard_matches k p (hr_shard r) \<and> shard_shape p (hr_shard r)"
proof -
  obtain item shard lessons obligations where item: "v = JObj item" "field_of item ''shard'' = JObj shard"
    "is_array (field_of shard ''source_scope_ids'')" "1 \<le> length (elems_of (field_of shard ''lessons''))"
    and lessons: "mapE lessonArchitecture (elems_of (field_of shard ''lessons'')) = Inr lessons"
    and id: "shard_identity_ok shard k p" and scopes: "distinct (shard_scopes lessons)"
      "length (shard_scopes lessons) = length (sp_source_scope_ids p)" "set (shard_scopes lessons) \<subseteq> set (sp_source_scope_ids p)"
    and obs: "distinct (map so_planned_slot_key obligations)" "list_all (obligation_fits lessons) obligations"
    and r: "hr_shard r = shard_value shard lessons obligations"
    using assms(2) by (auto simp: readOrchestrationV2ChapterShardResponse_def requireRecord_Inr Let_def)
  have "plain (JObj shard)" using field_of_plain [of item "''shard''"] assms(1) item(1,2) by simp
  then have "shard_matches k p (hr_shard r)" unfolding r by (rule shard_identity_matches [OF id _ item(3)])
  moreover have "lesson_shape l" if "l \<in> set lessons" for l
    using that mapE_Inr_nth [OF lessons] mapE_Inr_length [OF lessons] lessonArchitecture_shape by (metis in_set_conv_nth)
  moreover have "lessons \<noteq> []" using mapE_Inr_length [OF lessons] item(4) by auto
  ultimately show ?thesis using scopes obs same_scopes [OF scopes] by (simp add: shard_shape_def r)
qed


text \<open>One lesson with one unit, read back from its JSON.\<close>

lemma exactKeys_same [simp]: "map fst ps = keys \<Longrightarrow> exactKeys ps keys"
  by (simp add: exactKeys_def)

lemma trim_nonempty: "trim s \<noteq> [] \<longleftrightarrow> list_ex (\<lambda>c. \<not> is_space c) s"
proof (cases "dropWhile is_space s")
  case Nil
  then show ?thesis by (auto simp: trim_def list_ex_iff dropWhile_eq_Nil_conv dest: set_dropWhileD)
next
  case (Cons c cs)
  then have "\<not> is_space c" by (metis hd_dropWhile list.discI list.sel(1))
  moreover have "c \<in> set s" using Cons by (metis list.set_intros(1) set_dropWhileD)
  ultimately show ?thesis using Cons by (auto simp: trim_def list_ex_iff dropWhile_eq_Nil_conv)
qed

definition sample_component :: component_plan where
  "sample_component = \<lparr>cp_type = C_html, cp_title = ''T'', cp_rationale = ''R'',
     cp_author_review = Some (review_of empty_review), cp_source_scope_ids = [''s1'']\<rparr>"

definition sample_unit :: unit_architecture where
  "sample_unit = \<lparr>ua_title = ''U'', ua_purpose = ''P'', ua_learning_objective_refs = [''lo_1''],
     ua_source_scope_ids = [''s1''], ua_component_plan = [sample_component], ua_media_brief = None\<rparr>"

definition sample_lesson :: lesson_architecture where
  "sample_lesson = \<lparr>la_title = ''L'', la_objective = ''O'', la_learning_objectives = [''X''],
     la_learning_activities = [''Y''], la_assessment = ''Z'', la_units = [sample_unit]\<rparr>"

definition sample_obligation :: shard_obligation where
  "sample_obligation = \<lparr>so_planned_slot_key = ''ao2_'' @ replicate 32 (CHR ''a''), so_lesson_index = 1, so_unit_index = 1,
     so_component_index = 1, so_learning_objective_refs = [''lo_1''], so_relevant_scope_ids = [''s1''],
     so_relevant_evidence_fact_ids = [''f'']\<rparr>"

definition shard_obligation_json :: "shard_obligation \<Rightarrow> jsval" where
  "shard_obligation_json ob = JObj [(''planned_slot_key'', JStr (so_planned_slot_key ob)), (''lesson_index'', JInt (so_lesson_index ob)),
     (''unit_index'', JInt (so_unit_index ob)), (''component_index'', JInt (so_component_index ob)),
     (''learning_objective_refs'', strings_json (so_learning_objective_refs ob)),
     (''required_assessment_kind'', JStr ''single_choice''), (''relevant_scope_ids'', strings_json (so_relevant_scope_ids ob)),
     (''relevant_evidence_fact_ids'', strings_json (so_relevant_evidence_fact_ids ob)),
     (''unresolved_reason'', JStr ''ASSESSMENT_SOURCE_CHECK_REQUIRED''), (''status'', JStr ''open'')]"

lemmas reader_simps = requireRecord_def field_of_def text_test_def trim_nonempty is_space_def str_of_def int_of_json_def elems_of_def
  is_array_def is_string_def strings_test_def strs_of_def one_of_def identifiers_def nullable_text_def nullable_of_def int_test_def
  strings_json_def

lemma sample_patterns: "objective_ref ''lo_1''" "objective_number ''lo_1'' = 1" "slot_key (''ao2_'' @ replicate 32 (CHR ''a''))"
  by code_simp+

lemma sample_component_read: "architectureComponent (component_json sample_component) = Inr sample_component"
  by (simp add: architectureComponent_def sample_component_def component_json_def opt_field_def review_json_def review_of_def empty_review_def
      json_opt_def component_type_of_def all_component_types_def reader_simps)

lemma sample_component_sel: "cp_type sample_component = C_html" "cp_source_scope_ids sample_component = [''s1'']"
  by (simp_all add: sample_component_def)

lemma sample_unit_read: "unitArchitecture (unit_json sample_unit) = Inr sample_unit"
  using sample_component_read sample_patterns(1)
  by (simp add: unitArchitecture_def unit_json_def plan_fits_def media_json_def architectureMediaBrief_def sample_unit_def
      sample_component_sel reader_simps)

lemma sample_lesson_read: "lessonArchitecture (lesson_json sample_lesson) = Inr sample_lesson"
  using sample_unit_read sample_patterns(1,2)
  by (simp add: lessonArchitecture_def lesson_json_def sample_lesson_def reader_simps) (simp add: sample_unit_def)

lemma sample_obligation_read: "assessmentObligation (shard_obligation_json sample_obligation) = Inr sample_obligation"
  using sample_patterns(1,3)
  by (simp add: assessmentObligation_def shard_obligation_json_def sample_obligation_def reader_simps safeInteger_def isSafeInteger_def
     MAX_SAFE_INTEGER_def)

definition sample_chapter :: course_chapter where
  "sample_chapter = \<lparr>ck_chapter_key = ''ch1'', ck_order = 0, ck_title = ''C'', ck_objective = ''O'',
     ck_learning_outcomes = None, ck_source_scope_ids = [''s1'']\<rparr>"

definition sample_course :: course_skeleton where
  "sample_course = \<lparr>kn_contract_version = 2, kn_source_snapshot_hash = replicate 64 (CHR ''a''), kn_locale = ''en'',
     kn_title = ''T'', kn_summary = ''S'', kn_target_audience = ''A'', kn_prerequisites = [], kn_learning_outcomes = [''O''],
     kn_assessment_strategy = ''Q'', kn_assumptions = [], kn_chapters = [sample_chapter]\<rparr>"

definition sample_plan :: shard_plan where
  "sample_plan = \<lparr>sp_chapter_key = ''ch1'', sp_order = 0, sp_shard_index = 0, sp_shard_count = 1, sp_source_scope_ids = [''s1''],
     sp_source_fact_count = 2, sp_source_content_chars = 10\<rparr>"

definition sample_shard_json :: jsval where
  "sample_shard_json = JObj [(''contract_version'', JInt 2), (''shard'', JObj [(''contract_version'', JInt 2),
     (''source_snapshot_hash'', JStr (replicate 64 (CHR ''a''))), (''chapter_key'', JStr ''ch1''), (''order'', JInt 0),
     (''shard_index'', JInt 0), (''shard_count'', JInt 1), (''source_scope_ids'', strings_json [''s1'']), (''title'', JStr ''C''),
     (''objective'', JStr ''O''), (''lessons'', JArr [lesson_json sample_lesson]),
     (''assessment_obligations'', JArr [shard_obligation_json sample_obligation])])]"

lemma sample_shard_read: "\<exists>r. readOrchestrationV2ChapterShardResponse sample_shard_json sample_course sample_plan = Inr r
    \<and> hs_lessons (hr_shard r) = [sample_lesson] \<and> hs_assessment_obligations (hr_shard r) = Some [sample_obligation]"
proof -
  have fits: "obligation_fits [sample_lesson] sample_obligation"
    by (simp add: obligation_fits_def sample_lesson_def sample_obligation_def sample_unit_def js_at_def)
  have scopes: "shard_scopes [sample_lesson] = [''s1'']"
    by (simp add: shard_scopes_def lesson_scopes_def sample_lesson_def sample_unit_def)
  have units: "length (la_units sample_lesson) = 1" by (simp add: sample_lesson_def)
  show ?thesis
    using sample_lesson_read sample_obligation_read fits scopes units
    by (simp add: readOrchestrationV2ChapterShardResponse_def sample_shard_json_def shard_identity_ok_def raw_obligations_def
        sample_course_def sample_chapter_def sample_plan_def read_usage_def planningQualityEnvelope_def
        requireRecord_def field_of_def is_array_def elems_of_def strings_json_def del: replicate.simps)
qed

lemma sample_shard_plain: "plain sample_shard_json"
  by (simp add: sample_shard_json_def lesson_json_def shard_obligation_json_def list_all_iff)


end
