(* ===== verification/Course_Assembly.thy ===== *)
theory Course_Assembly
  imports Rag_Contract
begin

text \<open>
  From the planner's answers to the course architecture: the skeleton reader, the shard planner, the shard
  reader and the assembly together. Whatever the model answers, a skeleton and shards that their readers
  have accepted assemble, whatever order the shards are stored in, unless the course is too large.
\<close>

section \<open>The skeleton as the planner and the assembly see it\<close>

definition planning_chapter :: "course_chapter \<Rightarrow> skeleton_chapter" where
  "planning_chapter c = \<lparr>sk_chapter_key = ck_chapter_key c, sk_order = ck_order c, sk_source_scope_ids = ck_source_scope_ids c\<rparr>"

definition planning_view :: "'a course_skeleton_scheme \<Rightarrow> skeleton" where
  "planning_view k = \<lparr>sk_source_snapshot_hash = kn_source_snapshot_hash k, sk_chapters = map planning_chapter (kn_chapters k)\<rparr>"

lemma planning_sel [simp]:
  "sk_chapter_key (planning_chapter c) = ck_chapter_key c" "sk_order (planning_chapter c) = ck_order c"
  "sk_source_scope_ids (planning_chapter c) = ck_source_scope_ids c"
  "sk_source_snapshot_hash (planning_view k) = kn_source_snapshot_hash k"
  "sk_chapters (planning_view k) = map planning_chapter (kn_chapters k)"
  by (simp_all add: planning_chapter_def planning_view_def)

lemma skeleton_truncate_sel [simp]:
  "kn_contract_version (course_skeleton.truncate k) = kn_contract_version k"
  "kn_source_snapshot_hash (course_skeleton.truncate k) = kn_source_snapshot_hash k"
  "kn_chapters (course_skeleton.truncate k) = kn_chapters k"
  by (simp_all add: course_skeleton.defs)

lemma shard_truncate_sel [simp]:
  "hs_contract_version (chapter_shard.truncate s) = hs_contract_version s"
  "hs_source_snapshot_hash (chapter_shard.truncate s) = hs_source_snapshot_hash s"
  "hs_chapter_key (chapter_shard.truncate s) = hs_chapter_key s" "hs_order (chapter_shard.truncate s) = hs_order s"
  "hs_shard_index (chapter_shard.truncate s) = hs_shard_index s" "hs_shard_count (chapter_shard.truncate s) = hs_shard_count s"
  "hs_source_scope_ids (chapter_shard.truncate s) = hs_source_scope_ids s" "hs_title (chapter_shard.truncate s) = hs_title s"
  "hs_objective (chapter_shard.truncate s) = hs_objective s" "hs_lessons (chapter_shard.truncate s) = hs_lessons s"
  "hs_assessment_obligations (chapter_shard.truncate s) = hs_assessment_obligations s"
  by (simp_all add: chapter_shard.defs)

lemma insort_key_map: "insort_key f (g x) (map g xs) = map g (insort_key (f \<circ> g) x xs)"
  by (induction xs) auto

lemma sort_key_map: "sort_key f (map g xs) = map g (sort_key (f \<circ> g) xs)"
  by (induction xs) (simp_all add: insort_key_map [unfolded comp_def] comp_def)

text \<open>A skeleton that the reader accepts.\<close>

definition skeleton_shape :: "'a course_skeleton_scheme \<Rightarrow> bool" where
  "skeleton_shape k \<longleftrightarrow> kn_contract_version k = 2 \<and> is_hash (kn_source_snapshot_hash k)
     \<and> 1 \<le> length (kn_chapters k) \<and> length (kn_chapters k) \<le> MAX_CHAPTERS
     \<and> distinct (map ck_chapter_key (kn_chapters k)) \<and> (\<forall>c \<in> set (kn_chapters k). ck_source_scope_ids c \<noteq> [])"

lemma read_chapter_scopes: "read_chapter v = Inr r \<Longrightarrow> ck_source_scope_ids (fst r) \<noteq> []"
  by (auto simp: read_chapter_def Let_def requireRecord_Inr strings_test_def strs_of_def)

lemma courseSkeleton_shape:
  assumes "courseSkeleton v = Inr k"
  shows "skeleton_shape k"
proof -
  obtain vs read where read: "mapE read_chapter vs = Inr read" "kn_chapters k = map fst read" "1 \<le> length vs" "length vs \<le> 512"
    and k: "kn_contract_version k = 2" "is_hash (kn_source_snapshot_hash k)" "distinct (map ck_chapter_key (kn_chapters k))"
    using assms by (auto simp: courseSkeleton_def Let_def requireRecord_Inr)
  have "ck_source_scope_ids c \<noteq> []" if member: "c \<in> set (kn_chapters k)" for c
  proof -
    obtain r where r: "c = fst r" "r \<in> set read" using member unfolding read(2) set_map by (rule imageE)
    then obtain i where "i < length read" "read ! i = r" by (auto simp: in_set_conv_nth)
    then have "read_chapter (vs ! i) = Inr r" using mapE_Inr_nth [OF read(1), of i] mapE_Inr_length [OF read(1)] by simp
    then show ?thesis using read_chapter_scopes r(1) by simp
  qed
  then show ?thesis using k read mapE_Inr_length [OF read(1)] by (simp add: skeleton_shape_def MAX_CHAPTERS_def)
qed

lemma skeleton_response_shape:
  "readOrchestrationV2CourseSkeletonResponse v h = Inr sr \<Longrightarrow> skeleton_shape (sr_skeleton sr)"
  by (auto simp: readOrchestrationV2CourseSkeletonResponse_def intro: courseSkeleton_shape)

section \<open>One chapter\<close>

text \<open>The artifact of an accepted answer to a shard task.\<close>

definition answers :: "'a course_skeleton_scheme \<Rightarrow> planning_task \<Rightarrow> shard_artifact \<Rightarrow> bool" where
  "answers k t a \<longleftrightarrow> is_hash (sa_artifact_hash a) \<and> (\<exists>v p r. plain v \<and> pk_shard_plan t = Some p
     \<and> readOrchestrationV2ChapterShardResponse v k p = Inr r \<and> sa_shard a = chapter_shard.truncate (hr_shard r))"

lemma shard_matches_truncate [simp]: "shard_matches k p (chapter_shard.truncate s) = shard_matches k p s"
  by (simp add: shard_matches_def)

lemma shard_shape_truncate [simp]: "shard_shape p (chapter_shard.truncate s) = shard_shape p s"
  by (simp add: shard_shape_def)

lemma answers_shape:
  assumes "answers k t a"
  obtains p where "pk_shard_plan t = Some p" "shard_matches k p (sa_shard a)" "shard_shape p (sa_shard a)" "is_hash (sa_artifact_hash a)"
proof -
  obtain v p r where "plain v" "pk_shard_plan t = Some p" "readOrchestrationV2ChapterShardResponse v k p = Inr r"
    "sa_shard a = chapter_shard.truncate (hr_shard r)" "is_hash (sa_artifact_hash a)" using assms by (auto simp: answers_def)
  then show thesis using that accepted_shard_facts by (metis shard_matches_truncate shard_shape_truncate)
qed

definition slot_keys :: "shard_artifact \<Rightarrow> string list" where
  "slot_keys a = (case hs_assessment_obligations (sa_shard a) of None \<Rightarrow> [] | Some obs \<Rightarrow> map so_planned_slot_key obs)"

text \<open>The shards of one chapter in order.\<close>

definition chapter_block :: "'a course_skeleton_scheme \<Rightarrow> course_chapter \<Rightarrow> shard_artifact list \<Rightarrow> bool" where
  "chapter_block k c xs \<longleftrightarrow> xs \<noteq> []
     \<and> (\<forall>j < length xs. hs_shard_index (sa_shard (xs ! j)) = int j)
     \<and> (\<forall>a \<in> set xs. hs_contract_version (sa_shard a) = 2 \<and> hs_source_snapshot_hash (sa_shard a) = kn_source_snapshot_hash k
          \<and> is_hash (sa_artifact_hash a) \<and> hs_chapter_key (sa_shard a) = ck_chapter_key c
          \<and> hs_order (sa_shard a) = ck_order c \<and> hs_shard_count (sa_shard a) = int (length xs)
          \<and> hs_title (sa_shard a) = ck_title c \<and> hs_objective (sa_shard a) = ck_objective c
          \<and> mset (shard_scopes (hs_lessons (sa_shard a))) = mset (hs_source_scope_ids (sa_shard a))
          \<and> (\<exists>obs. hs_assessment_obligations (sa_shard a) = Some obs \<and> list_all (obligation_fits (hs_lessons (sa_shard a))) obs))
     \<and> concat (map (\<lambda>a. hs_source_scope_ids (sa_shard a)) xs) = ck_source_scope_ids c
     \<and> int (length xs) \<le> MAX_SAFE_INTEGER"

lemma place_obligation_fits:
  assumes "obligation_fits (hs_lessons shard) ob"
  obtains r where "place_obligation n off shard ob = Inr r" "ao_planned_slot_key r = so_planned_slot_key ob"
  using assms by (auto simp: place_obligation_def obligation_fits_def split: option.splits)

lemma place_all_fits:
  assumes "list_all (obligation_fits (hs_lessons shard)) obs"
  shows "\<exists>rs. mapE (place_obligation n off shard) obs = Inr rs \<and> map ao_planned_slot_key rs = map so_planned_slot_key obs"
  using assms
proof (induction obs)
  case (Cons ob obs)
  obtain r where "place_obligation n off shard ob = Inr r" "ao_planned_slot_key r = so_planned_slot_key ob"
    using Cons.prems by (auto intro: place_obligation_fits)
  then show ?case using Cons by auto
qed simp

lemma place_obligations_fit:
  assumes "\<forall>a \<in> set xs. \<exists>obs. hs_assessment_obligations (sa_shard a) = Some obs \<and> list_all (obligation_fits (hs_lessons (sa_shard a))) obs"
  shows "\<exists>rs. place_obligations n off xs = Inr rs \<and> map ao_planned_slot_key rs = concat (map slot_keys xs)"
  using assms
proof (induction xs arbitrary: off)
  case (Cons a xs)
  obtain obs where obs: "hs_assessment_obligations (sa_shard a) = Some obs" "list_all (obligation_fits (hs_lessons (sa_shard a))) obs"
    using Cons.prems by auto
  obtain rs where "mapE (place_obligation n off (sa_shard a)) obs = Inr rs" "map ao_planned_slot_key rs = map so_planned_slot_key obs"
    using place_all_fits [OF obs(2)] by blast
  moreover obtain rs' where "place_obligations n (off + length (hs_lessons (sa_shard a))) xs = Inr rs'"
    "map ao_planned_slot_key rs' = concat (map slot_keys xs)"
    using Cons by force
  ultimately show ?case using obs(1) by (simp add: slot_keys_def [of a])
qed simp

lemma concat_map_lessons:
  "concat (map lesson_scopes (concat (map (\<lambda>a. hs_lessons (sa_shard a)) xs))) = concat (map (\<lambda>a. shard_scopes (hs_lessons (sa_shard a))) xs)"
  by (induction xs) (simp_all add: shard_scopes_def)

lemma assemble_block:
  assumes "chapter_block k c xs" "chapter_artifacts artifacts c = xs" "distinct (ck_source_scope_ids c)"
  shows "\<exists>r. assemble_chapter artifacts (i, c) = Inr r
    \<and> mset (concat (map lesson_scopes (ac_lessons (ad_chapter r)))) = mset (ck_source_scope_ids c)
    \<and> map ao_planned_slot_key (ad_obligations r) = concat (map slot_keys xs)"
proof -
  note b = assms(1) [unfolded chapter_block_def]
  let ?lessons = "concat (map (\<lambda>a. hs_lessons (sa_shard a)) xs)"
  obtain rs where rs: "place_obligations (Suc i) 0 xs = Inr rs" "map ao_planned_slot_key rs = concat (map slot_keys xs)"
    using place_obligations_fit [of xs "Suc i" 0] b by auto
  have "shards_match c xs"
    using b by (auto simp: shards_match_def Let_def list_all_iff in_set_enumerate_eq isSafeInteger_def MAX_SAFE_INTEGER_def split: list.splits)
  moreover have scopes: "mset (concat (map lesson_scopes ?lessons)) = mset (ck_source_scope_ids c)"
  proof -
    have "map (\<lambda>a. mset (shard_scopes (hs_lessons (sa_shard a)))) xs = map (\<lambda>a. mset (hs_source_scope_ids (sa_shard a))) xs"
      using b by simp
    from arg_cong [OF this, of sum_list]
    have "mset (concat (map (\<lambda>a. shard_scopes (hs_lessons (sa_shard a))) xs))
        = mset (concat (map (\<lambda>a. hs_source_scope_ids (sa_shard a)) xs))"
      by (simp only: mset_concat map_map comp_def)
    then show ?thesis using b by (simp add: concat_map_lessons)
  qed
  moreover have "distinct (concat (map lesson_scopes ?lessons))"
    using scopes assms(3) mset_eq_imp_distinct_iff by blast
  moreover have "length (concat (map lesson_scopes ?lessons)) = length (ck_source_scope_ids c)"
    "set (concat (map lesson_scopes ?lessons)) = set (ck_source_scope_ids c)"
    using scopes mset_eq_length mset_eq_setD by blast+
  moreover have "concat (map (\<lambda>a. hs_source_scope_ids (sa_shard a)) xs) = ck_source_scope_ids c" using b by blast
  ultimately show ?thesis
    using rs by (simp add: assemble_chapter_def Let_def assms(2) del: set_concat)
qed

section \<open>All chapters\<close>

lemma chapter_tasks_plans:
  assumes "chapter_tasks sha sk by_scope artifact b c = Inr ts"
  shows "j < length ts \<Longrightarrow> \<exists>p. pk_shard_plan (ts ! j) = Some p \<and> sp_chapter_key p = sk_chapter_key c
    \<and> sp_order p = sk_order c \<and> sp_shard_index p = j \<and> sp_shard_count p = length ts"
proof -
  obtain gs where ts: "mapE (shard_task sha sk artifact b c (length gs)) (enumerate 0 gs) = Inr ts"
    using assms by (auto simp: chapter_tasks_def)
  have len: "length ts = length gs" using mapE_Inr_length [OF ts] by simp
  assume j: "j < length ts"
  have "pk_shard_plan (ts ! j) = Some (shard_of c (length gs) (j, gs ! j))"
    using mapE_Inr_nth [OF ts, of j] j len shard_task_Inr by (simp add: nth_enumerate_eq)
  then show ?thesis by (simp add: shard_of_def len)
qed

lemma find_unique_key:
  assumes "distinct (map f xs)" "x \<in> set xs"
  shows "find (\<lambda>y. f y = f x) xs = Some x"
  using assms by (induction xs) auto

lemma chapter_block_answers:
  assumes "chapter_tasks sha sk by_scope artifact b (planning_chapter c) = Inr ts" "\<And>k s. by_scope k = Some s \<Longrightarrow> ss_scope_key s = k"
    and xs: "list_all2 (answers k) ts xs"
    and k: "skeleton_shape k" "c \<in> set (kn_chapters k)" and len: "int (length ts) \<le> MAX_SAFE_INTEGER"
  shows "chapter_block k c xs"
proof -
  have c: "find (\<lambda>y. ck_chapter_key y = ck_chapter_key c) (kn_chapters k) = Some c"
    using k by (intro find_unique_key) (auto simp: skeleton_shape_def)
  have ids: "concat (map shard_ids ts) = ck_source_scope_ids c" using chapter_tasks_correct [OF assms(1,2)] by simp
  have n: "length ts = length xs" using xs by (rule list_all2_lengthD)
  have each: "\<exists>p. pk_shard_plan (ts ! j) = Some p \<and> shard_matches k p (sa_shard (xs ! j)) \<and> shard_shape p (sa_shard (xs ! j))
      \<and> is_hash (sa_artifact_hash (xs ! j)) \<and> sp_chapter_key p = ck_chapter_key c \<and> sp_order p = ck_order c
      \<and> sp_shard_index p = j \<and> sp_shard_count p = length xs" if "j < length xs" for j
  proof -
    have "answers k (ts ! j) (xs ! j)" using xs that n by (simp add: list_all2_conv_all_nth)
    then obtain p where "pk_shard_plan (ts ! j) = Some p" "shard_matches k p (sa_shard (xs ! j))" "shard_shape p (sa_shard (xs ! j))"
      "is_hash (sa_artifact_hash (xs ! j))" by (rule answers_shape)
    then show ?thesis using chapter_tasks_plans [OF assms(1), of j] that n by auto
  qed
  have shard: "hs_contract_version (sa_shard a) = 2 \<and> hs_source_snapshot_hash (sa_shard a) = kn_source_snapshot_hash k
          \<and> is_hash (sa_artifact_hash a) \<and> hs_chapter_key (sa_shard a) = ck_chapter_key c
          \<and> hs_order (sa_shard a) = ck_order c \<and> hs_shard_count (sa_shard a) = int (length xs)
          \<and> hs_title (sa_shard a) = ck_title c \<and> hs_objective (sa_shard a) = ck_objective c
          \<and> mset (shard_scopes (hs_lessons (sa_shard a))) = mset (hs_source_scope_ids (sa_shard a))
          \<and> (\<exists>obs. hs_assessment_obligations (sa_shard a) = Some obs \<and> list_all (obligation_fits (hs_lessons (sa_shard a))) obs)"
    if member: "a \<in> set xs" for a
  proof -
    obtain j where "j < length xs" "a = xs ! j" using member by (auto simp: in_set_conv_nth)
    then show ?thesis using each [of j] c by (auto simp: shard_matches_def shard_shape_def)
  qed
  have "map (\<lambda>a. hs_source_scope_ids (sa_shard a)) xs = map shard_ids ts"
  proof (rule nth_equalityI)
    show "map (\<lambda>a. hs_source_scope_ids (sa_shard a)) xs ! j = map shard_ids ts ! j"
      if "j < length (map (\<lambda>a. hs_source_scope_ids (sa_shard a)) xs)" for j
    proof -
      have j: "j < length xs" using that by simp
      then obtain p where "pk_shard_plan (ts ! j) = Some p" "hs_source_scope_ids (sa_shard (xs ! j)) = sp_source_scope_ids p"
        using each [OF j] unfolding shard_matches_def by blast
      then show ?thesis using j n by (simp add: shard_ids_def)
    qed
  qed (simp add: n)
  then have scopes: "concat (map (\<lambda>a. hs_source_scope_ids (sa_shard a)) xs) = ck_source_scope_ids c" by (simp add: ids)
  moreover have "ck_source_scope_ids c \<noteq> []" using k by (auto simp: skeleton_shape_def)
  ultimately have "xs \<noteq> []" by auto
  moreover have "hs_shard_index (sa_shard (xs ! j)) = int j" if "j < length xs" for j
    using each [OF that] by (auto simp: shard_matches_def)
  ultimately show ?thesis unfolding chapter_block_def using shard scopes len n by auto
qed

lemma list_all2_member: "list_all2 P xs ys \<Longrightarrow> y \<in> set ys \<Longrightarrow> \<exists>x \<in> set xs. P x y"
  by (metis in_set_conv_nth list_all2_conv_all_nth)

lemma list_all2_concat:
  "list_all2 P (concat tss) xs \<Longrightarrow> \<exists>xss. xs = concat xss \<and> list_all2 (list_all2 P) tss xss"
proof (induction tss arbitrary: xs)
  case (Cons ts tss)
  then obtain us vs where "xs = us @ vs" "list_all2 P ts us" "list_all2 P (concat tss) vs" by (auto simp: list_all2_append1)
  then show ?case using Cons.IH [of vs] by (metis concat.simps(2) list_all2_Cons)
qed simp

lemma filter_block:
  assumes "list_all2 (\<lambda>c xs. \<forall>a \<in> set xs. g a = f c) cs xss" "distinct (map f cs)" "i < length cs"
  shows "filter (\<lambda>a. g a = f (cs ! i)) (concat xss) = xss ! i"
  using assms
proof (induction cs xss arbitrary: i rule: list_all2_induct)
  case (Cons c cs xs xss)
  have len: "length cs = length xss" using list_all2_lengthD [OF Cons.hyps(2)] .
  show ?case
  proof (cases i)
    case 0
    have "f c \<noteq> f d" if "d \<in> set cs" for d using Cons.prems(1) that by auto
    moreover have "\<exists>d \<in> set cs. g a = f d" if a: "a \<in> set (concat xss)" for a
    proof -
      obtain ys where "ys \<in> set xss" "a \<in> set ys" using a by auto
      then show ?thesis using list_all2_member [OF Cons.hyps(2)] by blast
    qed
    ultimately have "filter (\<lambda>a. g a = f c) (concat xss) = []" unfolding filter_empty_conv by metis
    then show ?thesis using 0 Cons.hyps by (simp add: filter_id_conv)
  next
    case (Suc j)
    have "filter (\<lambda>a. g a = f (cs ! j)) xs = []"
      using Cons.hyps Cons.prems Suc by (auto simp: filter_empty_conv)
    then show ?thesis using Suc Cons.IH [of j] Cons.prems by simp
  qed
qed simp

lemma chapter_artifacts_block:
  assumes "mset artifacts = mset (concat xss)" "list_all2 (chapter_block k) cs xss" "distinct (map ck_chapter_key cs)" "i < length cs"
  shows "chapter_artifacts artifacts (cs ! i) = xss ! i"
proof -
  let ?own = "\<lambda>a. hs_chapter_key (sa_shard a) = ck_chapter_key (cs ! i)" and ?index = "\<lambda>a. hs_shard_index (sa_shard a)"
  have "list_all2 (\<lambda>c xs. \<forall>a \<in> set xs. hs_chapter_key (sa_shard a) = ck_chapter_key c) cs xss"
    using assms(2) by (rule list_all2_mono) (simp add: chapter_block_def)
  from filter_block [OF this assms(3,4)] have own: "filter ?own (concat xss) = xss ! i" .
  have block: "chapter_block k (cs ! i) (xss ! i)" using assms(2,4) by (simp add: list_all2_conv_all_nth)
  then have index: "?index (xss ! i ! j) = int j" if "j < length (xss ! i)" for j using that by (simp add: chapter_block_def)
  have same: "mset (filter ?own artifacts) = mset (xss ! i)" using assms(1) own by (metis mset_filter)
  have "inj_on ?index (set (xss ! i))" using index by (auto simp: inj_on_def in_set_conv_nth)
  then have "inj_on ?index (set (filter ?own artifacts))" using same mset_eq_setD by metis
  from sort_key_eq_of_inj [OF same this] have "chapter_artifacts artifacts (cs ! i) = sort_key ?index (xss ! i)"
    by (simp add: chapter_artifacts_def)
  also have "\<dots> = xss ! i" by (rule sort_key_id_if_sorted) (use index in \<open>simp add: sorted_iff_nth_mono\<close>)
  finally show ?thesis .
qed

lemma plan_blocks:
  assumes "planOrchestrationV2ChapterShards sha (planning_view k) scopes budgets artifact = Inr (tasks, v)" "skeleton_shape k"
    and xs: "list_all2 (answers k) tasks xs"
  obtains xss where "xs = concat xss" "list_all2 (chapter_block k) (sort_key ck_order (kn_chapters k)) xss"
    "1 \<le> length xs" "length xs \<le> 4096" "1 \<le> length scopes" "length scopes \<le> 4096"
proof -
  let ?cs = "sort_key ck_order (kn_chapters k)" and ?by = "js_map_get (map (\<lambda>s. (ss_scope_key s, s)) scopes)"
  obtain tss where tss: "mapE (chapter_tasks sha (planning_view k) ?by artifact (pb_chapter budgets))
      (sort_key sk_order (map planning_chapter (kn_chapters k))) = Inr tss" "tasks = concat tss" "tasks \<noteq> []" "length tasks \<le> 4096"
    and scopes: "1 \<le> length scopes" "length scopes \<le> 4096"
    using assms(1) by (auto simp: planOrchestrationV2ChapterShards_def Let_def providerBudget_def Suc_le_eq)
  have cs: "sort_key sk_order (map planning_chapter (kn_chapters k)) = map planning_chapter ?cs"
    by (simp add: sort_key_map comp_def)
  have len: "length tss = length ?cs" using mapE_Inr_length [OF tss(1)] by simp
  have by_key: "ss_scope_key s = x" if "?by x = Some s" for x s
    using that by (auto simp: js_map_get_def dest: map_of_SomeD)
  obtain xss where xss: "xs = concat xss" "list_all2 (list_all2 (answers k)) tss xss"
    using list_all2_concat [of "answers k" tss xs] xs tss(2) by auto
  have "chapter_block k (?cs ! i) (xss ! i)" if i: "i < length ?cs" for i
  proof (rule chapter_block_answers [OF _ by_key])
    show "chapter_tasks sha (planning_view k) ?by artifact (pb_chapter budgets) (planning_chapter (?cs ! i)) = Inr (tss ! i)"
      using mapE_Inr_nth [OF tss(1), of i] i by (simp add: cs)
    show "list_all2 (answers k) (tss ! i) (xss ! i)" using xss(2) i len by (simp add: list_all2_conv_all_nth)
    show "?cs ! i \<in> set (kn_chapters k)" using i by (metis nth_mem set_sort)
    have "length (tss ! i) \<le> length (concat tss)" using i len elem_le_sum_list [of i "map length tss"] by (simp add: length_concat)
    then show "int (length (tss ! i)) \<le> MAX_SAFE_INTEGER" using tss(2,4) by (simp add: MAX_SAFE_INTEGER_def)
  qed (use assms(2) in auto)
  then have "list_all2 (chapter_block k) ?cs xss" using len xss(2) by (simp add: list_all2_conv_all_nth)
  moreover have "length xs = length tasks" using xs by (simp add: list_all2_lengthD)
  moreover have "1 \<le> length tasks" using tss(3) by (cases tasks) simp_all
  ultimately show thesis using that [OF xss(1)] tss(4) scopes by (metis le_trans)
qed

lemma blocks_artifacts_valid:
  assumes "list_all2 (chapter_block k) cs xss" "mset cs = mset (kn_chapters k)" "mset artifacts = mset (concat xss)"
    "distinct (map sa_artifact_hash (concat xss))" "distinct (map ck_chapter_key (kn_chapters k))"
  shows "artifacts_valid (course_skeleton.truncate k) artifacts"
proof -
  have each: "hs_contract_version (sa_shard a) = 2 \<and> hs_source_snapshot_hash (sa_shard a) = kn_source_snapshot_hash k
      \<and> is_hash (sa_artifact_hash a)" if "a \<in> set artifacts" for a
  proof -
    have "a \<in> set (concat xss)" using that assms(3) mset_eq_setD by blast
    then obtain ys where "ys \<in> set xss" "a \<in> set ys" by auto
    then show ?thesis using list_all2_member [OF assms(1)] unfolding chapter_block_def by blast
  qed
  have "(\<lambda>a. hs_chapter_key (sa_shard a)) ` set (concat xss) = ck_chapter_key ` set cs"
    using assms(1)
  proof (induction rule: list_all2_induct)
    case (Cons c cs xs xss)
    then have "\<forall>a \<in> set xs. hs_chapter_key (sa_shard a) = ck_chapter_key c" "xs \<noteq> []" unfolding chapter_block_def by blast+
    then have "(\<lambda>a. hs_chapter_key (sa_shard a)) ` set xs = {ck_chapter_key c}" by (cases xs) auto
    then show ?case using Cons.IH by (simp add: image_Un)
  qed simp
  moreover have "set artifacts = set (concat xss)" "set cs = set (kn_chapters k)" using assms(2,3) mset_eq_setD by blast+
  ultimately have keys: "(\<lambda>a. hs_chapter_key (sa_shard a)) ` set artifacts = ck_chapter_key ` set (kn_chapters k)" by simp
  have "distinct (map sa_artifact_hash artifacts)" using assms(3,4) by (metis mset_eq_imp_distinct_iff mset_map)
  moreover have "card (ck_chapter_key ` set (kn_chapters k)) = length (kn_chapters k)"
    using assms(5) by (metis distinct_card length_map set_map)
  ultimately show ?thesis using each keys by (simp add: artifacts_valid_def list_all_iff)
qed

lemma assembled_blocks:
  assumes "list_all2 (chapter_block k) cs xss" "mset artifacts = mset (concat xss)" "distinct (map ck_chapter_key cs)"
    "distinct (concat (map ck_source_scope_ids cs))"
  obtains rs where "mapE (assemble_chapter artifacts) (enumerate 0 cs) = Inr rs"
    "mset (concat (map (\<lambda>r. concat (map lesson_scopes (ac_lessons (ad_chapter r)))) rs)) = mset (concat (map ck_source_scope_ids cs))"
    "concat (map (\<lambda>r. map ao_planned_slot_key (ad_obligations r)) rs) = concat (map slot_keys (concat xss))"
proof -
  have len: "length cs = length xss" using assms(1) by (rule list_all2_lengthD)
  have each: "\<exists>r. assemble_chapter artifacts (i, cs ! i) = Inr r
    \<and> mset (concat (map lesson_scopes (ac_lessons (ad_chapter r)))) = mset (ck_source_scope_ids (cs ! i))
    \<and> map ao_planned_slot_key (ad_obligations r) = concat (map slot_keys (xss ! i))" if "i < length cs" for i
  proof (rule assemble_block)
    show "chapter_block k (cs ! i) (xss ! i)" using assms(1) that by (simp add: list_all2_conv_all_nth)
    show "chapter_artifacts artifacts (cs ! i) = xss ! i" by (rule chapter_artifacts_block [OF assms(2,1,3) that])
    show "distinct (ck_source_scope_ids (cs ! i))" using assms(4) that by (auto simp: distinct_concat_iff)
  qed
  define rs where "rs = map (\<lambda>i. projr (assemble_chapter artifacts (i, cs ! i))) [0..<length cs]"
  have rs: "assemble_chapter artifacts (i, cs ! i) = Inr (rs ! i)
    \<and> mset (concat (map lesson_scopes (ac_lessons (ad_chapter (rs ! i))))) = mset (ck_source_scope_ids (cs ! i))
    \<and> map ao_planned_slot_key (ad_obligations (rs ! i)) = concat (map slot_keys (xss ! i))" if "i < length cs" for i
    using each [OF that] that by (auto simp: rs_def)
  have "mapE (assemble_chapter artifacts) (enumerate 0 cs)
      = Inr (map (\<lambda>x. projr (assemble_chapter artifacts x)) (enumerate 0 cs))"
    by (rule mapE_all_ok) (use rs in \<open>auto simp: in_set_enumerate_eq\<close>)
  moreover have "map (\<lambda>x. projr (assemble_chapter artifacts x)) (enumerate 0 cs) = rs"
    by (rule nth_equalityI) (simp_all add: rs_def nth_enumerate_eq)
  moreover have "map (\<lambda>r. mset (concat (map lesson_scopes (ac_lessons (ad_chapter r))))) rs = map (\<lambda>c. mset (ck_source_scope_ids c)) cs"
    by (rule nth_equalityI) (use rs in \<open>simp_all add: rs_def\<close>)
  from arg_cong [OF this, of sum_list]
  have "mset (concat (map (\<lambda>r. concat (map lesson_scopes (ac_lessons (ad_chapter r)))) rs)) = mset (concat (map ck_source_scope_ids cs))"
    by (simp only: mset_concat map_map comp_def)
  moreover have "map (\<lambda>r. map ao_planned_slot_key (ad_obligations r)) rs = map (\<lambda>ys. concat (map slot_keys ys)) xss"
    by (rule nth_equalityI) (use rs len in \<open>simp_all add: rs_def\<close>)
  from arg_cong [OF this, of concat]
  have "concat (map (\<lambda>r. map ao_planned_slot_key (ad_obligations r)) rs) = concat (map slot_keys (concat xss))"
    by (simp only: concat_map_concat map_map comp_def)
  ultimately show thesis using that by simp
qed

section \<open>Accepted answers assemble\<close>

text \<open>
  C14: accepted answers always make a course. When the reader accepts the planner's skeleton, the shards are
  planned from it, and the reader accepts an answer to each shard task, then the artifacts of these answers,
  stored in any order under different hashes, are never refused as invalid: they assemble, unless the
  limits on units, components, facts or bytes are exceeded. The source scopes must have at least one fact
  each, and no assessment slot key may appear in two shards (the one thing that no reader can see).
\<close>

theorem accepted_answers_assemble:
  assumes "readOrchestrationV2CourseSkeletonResponse sv h = Inr sr"
    and "planOrchestrationV2ChapterShards sha (planning_view (sr_skeleton sr)) scopes budgets skeleton_artifact = Inr (tasks, v)"
    and "list_all2 (answers (sr_skeleton sr)) tasks xs"
    and "mset artifacts = mset xs" "distinct (map sa_artifact_hash xs)" "distinct (concat (map slot_keys xs))"
    and "list_all (\<lambda>s. isSafeInteger (ss_fact_count s) \<and> 1 \<le> ss_fact_count s) scopes"
  shows "ok (assembleOrchestrationV2Architecture sha rank (course_skeleton.truncate (sr_skeleton sr)) scopes artifacts)
    \<or> assembleOrchestrationV2Architecture sha rank (course_skeleton.truncate (sr_skeleton sr)) scopes artifacts = Inl Architecture_too_large"
proof -
  let ?k = "sr_skeleton sr" and ?K = "course_skeleton.truncate (sr_skeleton sr)"
  let ?cs = "sort_key ck_order (kn_chapters ?k)"
  note shape = skeleton_response_shape [OF assms(1)]
  obtain xss where xss: "xs = concat xss" "list_all2 (chapter_block ?k) ?cs xss" "1 \<le> length xs" "length xs \<le> 4096"
    "1 \<le> length scopes" "length scopes \<le> 4096" using plan_blocks [OF assms(2) shape assms(3)] by metis
  have scopes: "skeleton_scopes ?K = concat (map ck_source_scope_ids (kn_chapters ?k))" by (simp add: skeleton_scopes_def)
  have owned: "distinct (skeleton_scopes ?K)" "length (skeleton_scopes ?K) = length scopes"
    "set (skeleton_scopes ?K) \<subseteq> ss_scope_key ` set scopes" "distinct (map ss_scope_key scopes)"
    unfolding scopes by (rule plan_shards_Inr [OF assms(2)], simp add: comp_def del: set_concat)+
  have sorted: "mset (concat (map ck_source_scope_ids ?cs)) = mset (skeleton_scopes ?K)"
    unfolding scopes by (simp add: mset_concat sum_mset_sum_list [symmetric] del: sum_mset_sum_list)
  have perm: "mset artifacts = mset (concat xss)" using assms(4) xss(1) by simp
  have keys: "distinct (map ck_chapter_key (kn_chapters ?k))" using shape by (simp add: skeleton_shape_def)
  then have sorted_keys: "distinct (map ck_chapter_key ?cs)" by (metis mset_eq_imp_distinct_iff mset_map mset_sort)
  obtain rs where rs: "mapE (assemble_chapter artifacts) (enumerate 0 ?cs) = Inr rs"
    "mset (concat (map (\<lambda>r. concat (map lesson_scopes (ac_lessons (ad_chapter r)))) rs)) = mset (concat (map ck_source_scope_ids ?cs))"
    "concat (map (\<lambda>r. map ao_planned_slot_key (ad_obligations r)) rs) = concat (map slot_keys (concat xss))"
    by (rule assembled_blocks [OF xss(2) perm sorted_keys]) (use sorted owned(1) mset_eq_imp_distinct_iff in blast)
  let ?allocated = "concat (map (\<lambda>c. concat (map lesson_scopes (ac_lessons c))) (map ad_chapter rs))"
  have allocated: "mset ?allocated = mset (skeleton_scopes ?K)" using rs(2) sorted by (simp add: comp_def)
  then have fits: "distinct ?allocated" "length ?allocated = length scopes" "set ?allocated \<subseteq> ss_scope_key ` set scopes"
    using owned mset_eq_imp_distinct_iff mset_eq_length mset_eq_setD by metis+
  have valid: "skeleton_valid ?K scopes artifacts"
    using shape owned xss(3-6) assms(7) mset_eq_length [OF assms(4)]
    by (simp add: skeleton_valid_def skeleton_shape_def MAX_SHARDS_def del: set_concat)
  have artifacts: "artifacts_valid ?K artifacts"
    by (rule blocks_artifacts_valid [OF xss(2) _ perm _ keys]) (use assms(5) xss(1) in simp_all)
  have slots: "distinct (map ao_planned_slot_key (concat (map ad_obligations rs)))"
    using rs(3) assms(6) xss(1) by (simp add: map_concat comp_def)
  show ?thesis
    using valid artifacts rs(1) fits slots
    by (simp add: assembleOrchestrationV2Architecture_def Let_def ensure_def archHash_plain [OF plain_obligations_json] ok_iff
        del: set_concat map_map plain.simps)
qed

text \<open>The sample skeleton, its one shard task and its one answer.\<close>

lemma planning_view_truncate: "planning_view (course_skeleton.truncate k) = planning_view k"
  by (simp add: planning_view_def)

lemma identity_truncate: "shard_identity_ok shard (course_skeleton.truncate k) p = shard_identity_ok shard k p"
  by (simp add: shard_identity_ok_def Let_def split: option.splits)

lemma shard_reader_truncate:
  "readOrchestrationV2ChapterShardResponse v (course_skeleton.truncate k) p = readOrchestrationV2ChapterShardResponse v k p"
  by (simp add: readOrchestrationV2ChapterShardResponse_def identity_truncate)

definition sample_skeleton_json :: jsval where
  "sample_skeleton_json = JObj [(''contract_version'', JInt 2), (''skeleton'', skeleton_json sample_course)]"

lemma sample_chapter_sel: "ck_order sample_chapter = 0" "ck_source_scope_ids sample_chapter = [''s1'']" "ck_chapter_key sample_chapter = ''ch1''"
  by (simp_all add: sample_chapter_def)

lemma sample_skeleton_read:
  "\<exists>sr. readOrchestrationV2CourseSkeletonResponse sample_skeleton_json (replicate 64 (CHR ''a'')) = Inr sr
     \<and> course_skeleton.truncate (sr_skeleton sr) = sample_course"
proof -
  have k: "is_key ''ch1''" "is_hash (replicate 64 (CHR ''a''))" by (simp_all add: example_patterns del: replicate.simps)
  have c: "\<exists>r. read_chapter (course_chapter_json sample_chapter) = Inr r \<and> fst r = sample_chapter"
    using k by (simp add: read_chapter_def course_chapter_json_def opt_field_def sample_chapter_def reader_simps optional_strs_def
      safeInteger_def isSafeInteger_def MAX_SAFE_INTEGER_def)
  have t: "text_test (JStr (replicate 64 (CHR ''a''))) 64" by code_simp
  show ?thesis
    using k c t sample_chapter_sel
    by (auto simp: readOrchestrationV2CourseSkeletonResponse_def sample_skeleton_json_def courseSkeleton_def skeleton_json_def sample_course_def
       read_usage_def planningQualityEnvelope_def course_skeleton.defs Let_def reader_simps simp del: replicate.simps)
qed

definition sample_scope :: source_scope where
  "sample_scope = \<lparr>ss_scope_key = ''s1'', ss_fact_count = 2, ss_content_chars = 10\<rparr>"

lemma sample_planned: "\<exists>t v. planOrchestrationV2ChapterShards example_sha (planning_view sample_course) [sample_scope]
    example_planning_budgets (replicate 64 (CHR ''b'')) = Inr ([t], v) \<and> pk_shard_plan t = Some sample_plan"
  by (simp add: planOrchestrationV2ChapterShards_def planning_view_def planning_chapter_def sample_course_def sample_chapter_sel sample_scope_def
      example_planning_budgets_def example_patterns example_provider providerBudget_def safeInteger_def isSafeInteger_def manifest_limits
      chapter_tasks_def shard_limit_def V2_MAX_SHARD_SOURCE_CHARS_def js_map_get_def shard_task_def shard_of_def shard_plan_json_def
      planHash_plain example_shard_keys sample_plan_def Let_def del: replicate.simps)

theorem accepted_answers_assemble_witness:
  "\<exists>a. sa_artifact_hash a = replicate 64 (CHR ''c'')
     \<and> (ok (assembleOrchestrationV2Architecture example_sha id sample_course [sample_scope] [a])
        \<or> assembleOrchestrationV2Architecture example_sha id sample_course [sample_scope] [a] = Inl Architecture_too_large)"
proof -
  obtain sr where sr: "readOrchestrationV2CourseSkeletonResponse sample_skeleton_json (replicate 64 (CHR ''a'')) = Inr sr"
    "course_skeleton.truncate (sr_skeleton sr) = sample_course" using sample_skeleton_read by blast
  obtain t v where t: "planOrchestrationV2ChapterShards example_sha (planning_view (sr_skeleton sr)) [sample_scope]
      example_planning_budgets (replicate 64 (CHR ''b'')) = Inr ([t], v)" "pk_shard_plan t = Some sample_plan"
    using sample_planned by (metis planning_view_truncate sr(2))
  obtain r where r: "readOrchestrationV2ChapterShardResponse sample_shard_json (sr_skeleton sr) sample_plan = Inr r"
    "hs_assessment_obligations (hr_shard r) = Some [sample_obligation]"
    using sample_shard_read by (metis shard_reader_truncate sr(2))
  let ?a = "\<lparr>sa_artifact_hash = replicate 64 (CHR ''c''), sa_shard = chapter_shard.truncate (hr_shard r)\<rparr>"
  have "answers (sr_skeleton sr) t ?a"
    using r t(2) sample_shard_plain example_patterns(3) by (auto simp: answers_def simp del: replicate.simps)
  then have "list_all2 (answers (sr_skeleton sr)) [t] [?a]" by simp
  moreover have "distinct (concat (map slot_keys [?a]))" using r(2) by (simp add: slot_keys_def)
  moreover have "list_all (\<lambda>s. isSafeInteger (ss_fact_count s) \<and> 1 \<le> ss_fact_count s) [sample_scope]"
    by (simp add: sample_scope_def isSafeInteger_def MAX_SAFE_INTEGER_def)
  ultimately have "ok (assembleOrchestrationV2Architecture example_sha id sample_course [sample_scope] [?a])
      \<or> assembleOrchestrationV2Architecture example_sha id sample_course [sample_scope] [?a] = Inl Architecture_too_large"
    using accepted_answers_assemble [OF sr(1) t(1), of "[?a]" "[?a]" id] by (simp only: sr(2)) simp
  then show ?thesis by (intro exI [of _ ?a]) simp
qed

end
