(* ===== verification/Sso_Policy.thy ===== *)
theory Sso_Policy
  imports Canonical_Json
begin

text \<open>
  The rules of single sign-on (modules/sso/sso-account-link.logic.ts) and the pure parts of its service
  (sso.service.ts): which account an identity provider's answer may reach, the list of allowed email
  domains, what makes a provider's answer a profile, the provider endpoints and the user name a new
  learner gets. Lower case is that of ASCII letters.
\<close>

section \<open>Providers, refusals and the claims of a profile\<close>

datatype sso_provider = Google | Keycloak | Microsoft365

datatype sso_code = OTHER_ORGANIZATION | EMAIL_NOT_VERIFIED | EMAIL_DOMAIN_NOT_ALLOWED
  | ALLOWED_DOMAINS_INVALID | ACCOUNT_INACTIVE | ALREADY_LINKED | PROVIDER_TIMEOUT

text \<open>The refusals with a code of their own, and the others by their HTTP status (500: rethrown as it is).\<close>

datatype sso_error = Sso_login sso_code | App_error nat

definition SSO_LOGIN_ERRORS :: "sso_code \<Rightarrow> nat" where
  "SSO_LOGIN_ERRORS c = (case c of OTHER_ORGANIZATION \<Rightarrow> 403 | EMAIL_NOT_VERIFIED \<Rightarrow> 403
     | EMAIL_DOMAIN_NOT_ALLOWED \<Rightarrow> 403 | ALLOWED_DOMAINS_INVALID \<Rightarrow> 503 | ACCOUNT_INACTIVE \<Rightarrow> 403
     | ALREADY_LINKED \<Rightarrow> 409 | PROVIDER_TIMEOUT \<Rightarrow> 504)"

definition isEmailVerifiedClaim :: "jsval \<Rightarrow> bool" where
  "isEmailVerifiedClaim v \<longleftrightarrow> v = JBool True \<or> v = JStr ''true''"

definition isEmailExplicitlyUnverified :: "jsval \<Rightarrow> bool" where
  "isEmailExplicitlyUnverified v \<longleftrightarrow> v = JBool False \<or> v = JStr ''false''"

lemma verified_not_unverified: "isEmailVerifiedClaim v \<Longrightarrow> \<not> isEmailExplicitlyUnverified v"
  by (auto simp: isEmailVerifiedClaim_def isEmailExplicitlyUnverified_def)

section \<open>Email addresses and domains\<close>

definition normalizeEmail :: "string \<Rightarrow> string" where
  "normalizeEmail email = to_lower (trim email)"

definition looksLikeEmailIdentifier :: "string \<Rightarrow> bool" where
  "looksLikeEmailIdentifier v \<longleftrightarrow> trim v \<noteq> [] \<and> CHR ''@'' \<in> set (trim v)"

fun split_char :: "char \<Rightarrow> string \<Rightarrow> string list" where
  "split_char c [] = [[]]"
| "split_char c (x # xs) = (if x = c then [] # split_char c xs
     else (case split_char c xs of [] \<Rightarrow> [[x]] | w # ws \<Rightarrow> (x # w) # ws))"

definition is_domain_char :: "char \<Rightarrow> bool" where
  "is_domain_char c \<longleftrightarrow> is_lower c \<or> is_digit c \<or> c = CHR ''-''"

text \<open>A label before the last: letters, digits and inner hyphens, at most 63 of them.\<close>

definition is_label :: "string \<Rightarrow> bool" where
  "is_label l \<longleftrightarrow> l \<noteq> [] \<and> length l \<le> 63 \<and> list_all is_domain_char l \<and> hd l \<noteq> CHR ''-'' \<and> last l \<noteq> CHR ''-''"

definition is_top_label :: "string \<Rightarrow> bool" where
  "is_top_label l \<longleftrightarrow> l \<noteq> [] \<and> length l \<le> 63 \<and> list_all is_domain_char l \<and> is_lower (hd l)"

definition DOMAIN_PATTERN :: "string \<Rightarrow> bool" where
  "DOMAIN_PATTERN s \<longleftrightarrow> 1 \<le> length s \<and> length s \<le> 253 \<and>
     (let ls = split_char CHR ''.'' s in 2 \<le> length ls \<and> list_all is_label (butlast ls) \<and> is_top_label (last ls))"

definition drop_head :: "char \<Rightarrow> string \<Rightarrow> string" where
  "drop_head c s = (case s of x # xs \<Rightarrow> if x = c then xs else s | [] \<Rightarrow> [])"

definition normalizeEmailDomain :: "string \<Rightarrow> string" where
  "normalizeEmailDomain v = rev (drop_head CHR ''.'' (rev (drop_head CHR ''@'' (to_lower (trim v)))))"

definition isValidEmailDomain :: "string \<Rightarrow> bool" where
  "isValidEmailDomain v = DOMAIN_PATTERN (normalizeEmailDomain v)"

definition MAX_ALLOWED_EMAIL_DOMAINS :: nat where
  "MAX_ALLOWED_EMAIL_DOMAINS = 100"

fun read_domain :: "jsval \<Rightarrow> sso_code + string" where
  "read_domain (JStr s) = (if isValidEmailDomain s then Inr (normalizeEmailDomain s) else Inl ALLOWED_DOMAINS_INVALID)"
| "read_domain _ = Inl ALLOWED_DOMAINS_INVALID"

text \<open>\<open>Inr None\<close> is "no restriction"; the configuration is the stored JSON object or null.\<close>

fun readAllowedEmailDomains :: "jsval option \<Rightarrow> sso_code + string list option" where
  "readAllowedEmailDomains (Some (JObj ps)) = (case map_of ps ''allowed_email_domains'' of
     None \<Rightarrow> Inr None
   | Some raw \<Rightarrow> (case raw of
       JNull \<Rightarrow> Inr None
     | JUndefined \<Rightarrow> Inr None
     | JArr xs \<Rightarrow> if length xs > MAX_ALLOWED_EMAIL_DOMAINS then Inl ALLOWED_DOMAINS_INVALID
         else if xs = [] then Inr None
         else bindE (mapE read_domain xs) (\<lambda>ds. Inr (Some (js_distinct ds)))
     | _ \<Rightarrow> Inl ALLOWED_DOMAINS_INVALID))"
| "readAllowedEmailDomains _ = Inr None"

text \<open>The part after the last at sign.\<close>

definition email_domain :: "string \<Rightarrow> string" where
  "email_domain email = (if CHR ''@'' \<in> set email
     then normalizeEmailDomain (rev (takeWhile (\<lambda>c. c \<noteq> CHR ''@'') (rev email))) else [])"

definition assertEmailDomainAllowed :: "string \<Rightarrow> jsval option \<Rightarrow> sso_code option" where
  "assertEmailDomainAllowed email cfg = (case readAllowedEmailDomains cfg of
     Inl e \<Rightarrow> Some e
   | Inr None \<Rightarrow> None
   | Inr (Some ds) \<Rightarrow> (let d = email_domain email in
       if d = [] \<or> d \<notin> set ds then Some EMAIL_DOMAIN_NOT_ALLOWED else None))"

text \<open>
  Present means: neither absent, nor null, nor the empty list. A present list either names the domains or
  refuses everybody.
\<close>

fun configured_domains :: "jsval option \<Rightarrow> jsval option" where
  "configured_domains (Some (JObj ps)) = (case map_of ps ''allowed_email_domains'' of
     None \<Rightarrow> None | Some raw \<Rightarrow> if raw \<in> {JNull, JUndefined, JArr []} then None else Some raw)"
| "configured_domains _ = None"

lemma read_domains_no_restriction: "readAllowedEmailDomains cfg = Inr None \<longleftrightarrow> configured_domains cfg = None"
proof (cases "\<exists>ps. cfg = Some (JObj ps)")
  case True
  then obtain ps where cfg: "cfg = Some (JObj ps)" by blast
  show ?thesis
  proof (cases "map_of ps ''allowed_email_domains''")
    case (Some raw)
    then show ?thesis
      by (cases raw) (simp_all add: cfg MAX_ALLOWED_EMAIL_DOMAINS_def)
  qed (simp add: cfg)
next
  case False
  then show ?thesis
    by (cases cfg rule: readAllowedEmailDomains.cases) simp_all
qed

definition domain_entry :: "string \<Rightarrow> jsval \<Rightarrow> bool" where
  "domain_entry d v \<longleftrightarrow> (\<exists>s. v = JStr s \<and> isValidEmailDomain s \<and> normalizeEmailDomain s = d)"

lemma read_domain_iff: "read_domain v = Inr d \<longleftrightarrow> domain_entry d v"
  by (cases v) (auto simp: domain_entry_def)

lemma read_domains_list:
  assumes "readAllowedEmailDomains cfg = Inr (Some ds)"
  obtains xs where "configured_domains cfg = Some (JArr xs)" "length xs \<le> 100"
    "\<forall>v \<in> set xs. \<exists>d. domain_entry d v" "\<forall>d. d \<in> set ds \<longleftrightarrow> (\<exists>v \<in> set xs. domain_entry d v)"
proof -
  from assms obtain ps raw where cfg: "cfg = Some (JObj ps)" "map_of ps ''allowed_email_domains'' = Some raw"
    by (cases cfg rule: readAllowedEmailDomains.cases) (auto split: option.splits)
  with assms obtain xs ds' where raw: "raw = JArr xs" "length xs \<le> 100" "xs \<noteq> []"
      and ds: "mapE read_domain xs = Inr ds'" "ds = js_distinct ds'"
    by (cases raw) (auto simp: MAX_ALLOWED_EMAIL_DOMAINS_def split: if_splits)
  have nth: "length ds' = length xs" "\<And>i. i < length xs \<Longrightarrow> domain_entry (ds' ! i) (xs ! i)"
    using mapE_Inr_length [OF ds(1)] mapE_Inr_nth [OF ds(1)] by (auto simp: read_domain_iff)
  have unique: "domain_entry d v \<Longrightarrow> domain_entry d' v \<Longrightarrow> d = d'" for d d' v
    by (auto simp: domain_entry_def)
  have "d \<in> set ds \<longleftrightarrow> (\<exists>v \<in> set xs. domain_entry d v)" for d
  proof
    assume "d \<in> set ds"
    then obtain i where "i < length ds'" "ds' ! i = d" by (auto simp: ds(2) in_set_conv_nth)
    then have "domain_entry d (xs ! i)" "xs ! i \<in> set xs" using nth by auto
    then show "\<exists>v \<in> set xs. domain_entry d v" by blast
  next
    assume "\<exists>v \<in> set xs. domain_entry d v"
    then obtain i where "i < length xs" "domain_entry d (xs ! i)" by (auto simp: in_set_conv_nth)
    then have "ds' ! i = d" using nth(2) unique by blast
    then show "d \<in> set ds" using \<open>i < length xs\<close> nth(1) nth_mem [of i ds'] by (simp add: ds(2))
  qed
  moreover have "\<forall>v \<in> set xs. \<exists>d. domain_entry d v" using nth(2) by (fastforce simp: in_set_conv_nth)
  ultimately show thesis using that cfg raw by simp
qed

text \<open>The check of an address, without a look at the reader.\<close>

definition domain_allowed :: "string \<Rightarrow> jsval option \<Rightarrow> bool" where
  "domain_allowed email cfg \<longleftrightarrow> (case configured_domains cfg of None \<Rightarrow> True
     | Some raw \<Rightarrow> (\<exists>xs. raw = JArr xs \<and> email_domain email \<noteq> [] \<and> (\<exists>v \<in> set xs. domain_entry (email_domain email) v)))"

lemma allowed_domain: "assertEmailDomainAllowed email cfg = None \<Longrightarrow> domain_allowed email cfg"
  unfolding assertEmailDomainAllowed_def domain_allowed_def
  by (cases "readAllowedEmailDomains cfg")
    (auto simp: Let_def read_domains_no_restriction split: option.splits if_splits elim!: read_domains_list)

section \<open>Which account may be reached\<close>

record sso_account =
  sa_tenant :: "string option"
  sa_role :: string
  sa_active :: bool
  sa_email :: string
  sa_username :: string

text \<open>An existing link, and the linking of an account found by its email address.\<close>

definition of_tenant :: "sso_account \<Rightarrow> string \<Rightarrow> bool" where
  "of_tenant a t \<longleftrightarrow> truthy (sa_tenant a) \<and> sa_tenant a = Some t"

definition assertLinkedIdentityUsable :: "sso_account \<Rightarrow> string \<Rightarrow> sso_code option" where
  "assertLinkedIdentityUsable a t = (if \<not> of_tenant a t then Some OTHER_ORGANIZATION
     else if \<not> sa_active a then Some ACCOUNT_INACTIVE else None)"

definition assertExistingAccountLinkable :: "sso_account \<Rightarrow> string \<Rightarrow> jsval \<Rightarrow> sso_code option" where
  "assertExistingAccountLinkable a t verified = (if \<not> of_tenant a t then Some OTHER_ORGANIZATION
     else if \<not> isEmailVerifiedClaim verified then Some EMAIL_NOT_VERIFIED
     else if \<not> sa_active a then Some ACCOUNT_INACTIVE else None)"

lemma linked_usable_iff: "assertLinkedIdentityUsable a t = None \<longleftrightarrow> of_tenant a t \<and> sa_active a"
  by (simp add: assertLinkedIdentityUsable_def)

lemma linkable_iff:
  "assertExistingAccountLinkable a t v = None \<longleftrightarrow> of_tenant a t \<and> isEmailVerifiedClaim v \<and> sa_active a"
  by (simp add: assertExistingAccountLinkable_def)

section \<open>The configuration of a provider\<close>

text \<open>The client secret is the decrypted one (\<open>None\<close>: none is stored).\<close>

record sso_config =
  sc_provider :: sso_provider
  sc_enabled :: bool
  sc_client_id :: "string option"
  sc_client_secret :: "string option"
  sc_issuer_url :: "string option"
  sc_authorization_url :: "string option"
  sc_token_url :: "string option"
  sc_userinfo_url :: "string option"
  sc_scopes :: "string list option"
  sc_extra_config :: "jsval option"

definition without_slashes :: "string \<Rightarrow> string" where
  "without_slashes u = rev (dropWhile (\<lambda>c. c = CHR ''/'') (rev u))"

definition resolve_url :: "string option \<Rightarrow> string option \<Rightarrow> string \<Rightarrow> string \<Rightarrow> string \<Rightarrow> sso_provider \<Rightarrow> string" where
  "resolve_url own issuer google microsoft keycloak p =
     (if truthy own then the own
      else (case p of
          Google \<Rightarrow> google
        | Microsoft365 \<Rightarrow> if truthy issuer then without_slashes (the issuer) @ microsoft else []
        | Keycloak \<Rightarrow> if truthy issuer then without_slashes (the issuer) @ keycloak else []))"

definition resolveAuthorizationUrl :: "sso_config \<Rightarrow> string" where
  "resolveAuthorizationUrl row = resolve_url (sc_authorization_url row) (sc_issuer_url row)
     ''https://accounts.google.com/o/oauth2/v2/auth'' ''/oauth2/v2.0/authorize''
     ''/protocol/openid-connect/auth'' (sc_provider row)"

definition resolveTokenUrl :: "sso_config \<Rightarrow> string" where
  "resolveTokenUrl row = resolve_url (sc_token_url row) (sc_issuer_url row)
     ''https://oauth2.googleapis.com/token'' ''/oauth2/v2.0/token''
     ''/protocol/openid-connect/token'' (sc_provider row)"

definition resolveUserinfoUrl :: "sso_config \<Rightarrow> string" where
  "resolveUserinfoUrl row = (if truthy (sc_userinfo_url row) then the (sc_userinfo_url row)
     else (case sc_provider row of
         Google \<Rightarrow> ''https://www.googleapis.com/oauth2/v3/userinfo''
       | Microsoft365 \<Rightarrow> ''https://graph.microsoft.com/oidc/userinfo''
       | Keycloak \<Rightarrow> if truthy (sc_issuer_url row)
           then without_slashes (the (sc_issuer_url row)) @ ''/protocol/openid-connect/userinfo'' else []))"

definition config_complete :: "sso_config \<Rightarrow> bool" where
  "config_complete row \<longleftrightarrow> truthy (sc_client_id row) \<and> truthy (sc_client_secret row)
     \<and> resolveTokenUrl row \<noteq> [] \<and> resolveUserinfoUrl row \<noteq> []"

definition isAutoRegisterEnabled :: "sso_config \<Rightarrow> bool" where
  "isAutoRegisterEnabled row \<longleftrightarrow> (case sc_extra_config row of
     Some (JObj ps) \<Rightarrow> map_of ps ''auto_register_enabled'' = Some (JBool True) | _ \<Rightarrow> False)"

text \<open>The sign-in page of a domain lists the enabled providers it can send the browser to.\<close>

record public_provider =
  pp_provider :: sso_provider
  pp_client_id :: string
  pp_authorization_url :: string
  pp_scopes :: "string list"

definition DEFAULT_SCOPES :: "string list" where
  "DEFAULT_SCOPES = [''openid'', ''email'', ''profile'']"

definition toPublicProvider :: "sso_config \<Rightarrow> public_provider option" where
  "toPublicProvider row = (if \<not> sc_enabled row \<or> \<not> truthy (sc_client_id row) then None
     else if resolveAuthorizationUrl row = [] then None
     else Some \<lparr>pp_provider = sc_provider row, pp_client_id = the (sc_client_id row),
       pp_authorization_url = resolveAuthorizationUrl row,
       pp_scopes = (case sc_scopes row of Some (s # ss) \<Rightarrow> s # ss | _ \<Rightarrow> DEFAULT_SCOPES)\<rparr>)"

section \<open>What the provider answers\<close>

text \<open>One round trip: the deadline passed, the call failed, an error status, or a JSON body.\<close>

datatype 'a answer = Timed_out | Unreachable | Not_ok | Body 'a

definition fetchProviderJson :: "nat \<Rightarrow> 'a answer \<Rightarrow> sso_error + 'a" where
  "fetchProviderJson failed a = (case a of
     Timed_out \<Rightarrow> Inl (Sso_login PROVIDER_TIMEOUT)
   | Unreachable \<Rightarrow> Inl (App_error 500)
   | Not_ok \<Rightarrow> Inl (App_error failed)
   | Body b \<Rightarrow> Inr b)"

record provider_profile =
  pf_sub :: "string option"
  pf_email :: "string option"
  pf_email_verified :: jsval
  pf_name :: "string option"

text \<open>An accepted profile has a subject and a normalized email address.\<close>

record accepted_profile =
  ap_sub :: string
  ap_email :: string
  ap_email_verified :: jsval
  ap_name :: "string option"

definition read_profile :: "provider_profile \<Rightarrow> sso_error + accepted_profile" where
  "read_profile p =
     ensure (App_error 401) (truthy (pf_sub p) \<and> truthy (pf_email p))
       (let email = normalizeEmail (the (pf_email p)) in
        ensure (App_error 401) (looksLikeEmailIdentifier email)
          (ensure (App_error 403) (\<not> isEmailExplicitlyUnverified (pf_email_verified p))
            (Inr \<lparr>ap_sub = the (pf_sub p), ap_email = email,
                  ap_email_verified = pf_email_verified p, ap_name = pf_name p\<rparr>)))"

definition exchangeCodeForProfile ::
    "sso_config \<Rightarrow> string option answer \<Rightarrow> provider_profile answer \<Rightarrow> sso_error + accepted_profile" where
  "exchangeCodeForProfile row token userinfo =
     ensure (App_error 400) (config_complete row)
       (bindE (fetchProviderJson 401 token) (\<lambda>access_token.
          ensure (App_error 401) (truthy access_token)
            (bindE (fetchProviderJson 401 userinfo) read_profile)))"

section \<open>The user name of a new learner\<close>

definition is_username_char :: "char \<Rightarrow> bool" where
  "is_username_char c \<longleftrightarrow> is_lower c \<or> is_digit c \<or> c \<in> {CHR ''.'', CHR ''_'', CHR ''-''}"

definition is_username_edge :: "char \<Rightarrow> bool" where
  "is_username_edge c \<longleftrightarrow> c \<in> {CHR ''.'', CHR ''_'', CHR ''-''}"

definition buildUsernameBase :: "string \<Rightarrow> string" where
  "buildUsernameBase email =
     (let first = to_lower (takeWhile (\<lambda>c. c \<noteq> CHR ''@'') email);
          local = (if first = [] then ''sso-user'' else first);
          kept = filter is_username_char local;
          safe = take 120 (rev (dropWhile is_username_edge (rev (dropWhile is_username_edge kept))))
      in if 3 \<le> length safe then safe else ''sso-'' @ (if safe = [] then ''user'' else safe))"

definition username_candidate :: "string \<Rightarrow> nat \<Rightarrow> string" where
  "username_candidate email i = take 150 (buildUsernameBase email @ (if i = 0 then [] else ''-'' @ nat_text i))"

definition username_fallback :: "string \<Rightarrow> string \<Rightarrow> string" where
  "username_fallback email hex = take 140 (buildUsernameBase email) @ ''-'' @ hex"

lemma username_base_length: "3 \<le> length (buildUsernameBase email) \<and> length (buildUsernameBase email) \<le> 120"
proof -
  define safe where "safe = take 120 (rev (dropWhile is_username_edge (rev (dropWhile is_username_edge
    (filter is_username_char (let first = to_lower (takeWhile (\<lambda>c. c \<noteq> CHR ''@'') email)
      in if first = [] then ''sso-user'' else first))))))"
  have "buildUsernameBase email = (if 3 \<le> length safe then safe else ''sso-'' @ (if safe = [] then ''user'' else safe))"
    unfolding buildUsernameBase_def safe_def Let_def ..
  moreover have "length safe \<le> 120" by (simp add: safe_def)
  ultimately show ?thesis by auto
qed

text \<open>A candidate is never cut, so two candidates of one address differ, and it fits the column of 150 characters.\<close>

lemma username_candidates_differ:
  assumes "i < 20" "j < 20" "username_candidate email i = username_candidate email j"
  shows "i = j"
proof -
  have short: "length (nat_text n) \<le> 2" if "n < 20" for n using nat_text_length [of n 2] that by simp
  show ?thesis
    using assms short [OF assms(1)] short [OF assms(2)] username_base_length [of email]
    by (auto simp: username_candidate_def nat_text_inj split: if_splits)
qed

lemma username_fits:
  "length (username_candidate email i) \<le> 150" "length hex = 8 \<Longrightarrow> length (username_fallback email hex) \<le> 150"
  using username_base_length [of email]
  by (auto simp: username_candidate_def username_fallback_def min_def)

end
