(* ===== verification/Sso_Signin.thy ===== *)
theory Sso_Signin
  imports Sso_Policy Event_System
begin

text \<open>
  The single sign-on exchange (modules/sso/sso.service.ts \<open>exchangeSsoCode\<close> and the statements of
  sso.repository.ts): each request goes from one database statement to the next, any number of requests
  interleave statement by statement with each other and with the writes of administrators, and the unique
  constraints of the tables answer the races. The account and its link are one transaction. The session
  itself is that of \<open>issueSessionForUserId\<close> of auth.service.ts. Hosts are compared after
  \<open>normalizeUrlHost\<close>; the rows of this model hold the normalized ones.
\<close>

section \<open>The rows\<close>

record sso_link =
  ln_tenant :: string
  ln_provider :: sso_provider
  ln_subject :: string
  ln_user :: string
  ln_email :: string

record sso_tenant =
  tn_active :: bool
  tn_max_users :: "nat option"
  tn_domain_admin :: "string option"
  tn_domain_learner :: "string option"

record sso_db =
  db_accounts :: "(string \<times> sso_account) list"
  db_links :: "sso_link list"
  db_tenants :: "string \<Rightarrow> sso_tenant option"
  db_configs :: "string \<Rightarrow> sso_provider \<Rightarrow> sso_config option"
  db_groups :: "string \<Rightarrow> nat"
  db_demo :: "string \<Rightarrow> bool"

abbreviation account_of :: "sso_db \<Rightarrow> string \<Rightarrow> sso_account option" where
  "account_of d \<equiv> map_of (db_accounts d)"

definition same_subject :: "string \<Rightarrow> sso_provider \<Rightarrow> string \<Rightarrow> sso_link \<Rightarrow> bool" where
  "same_subject t p sub l \<longleftrightarrow> ln_tenant l = t \<and> ln_provider l = p \<and> ln_subject l = sub"

definition same_user :: "string \<Rightarrow> sso_provider \<Rightarrow> string \<Rightarrow> sso_link \<Rightarrow> bool" where
  "same_user t p u l \<longleftrightarrow> ln_tenant l = t \<and> ln_provider l = p \<and> ln_user l = u"

text \<open>\<open>btrim\<close> of PostgreSQL removes spaces only.\<close>

definition btrim :: "string \<Rightarrow> string" where
  "btrim s = rev (dropWhile (\<lambda>c. c = CHR '' '') (rev (dropWhile (\<lambda>c. c = CHR '' '') s)))"

definition owns_email :: "sso_account \<Rightarrow> string \<Rightarrow> bool" where
  "owns_email a email \<longleftrightarrow> btrim (sa_email a) \<noteq> [] \<and> to_lower (btrim (sa_email a)) = email"

section \<open>The statements of the repository\<close>

definition selectEnabledConfig :: "sso_db \<Rightarrow> string \<Rightarrow> sso_provider \<Rightarrow> sso_config option" where
  "selectEnabledConfig d t p = (case db_configs d t p of
     None \<Rightarrow> None | Some c \<Rightarrow> if sc_enabled c then Some c else None)"

definition selectSubjectUserId :: "sso_db \<Rightarrow> string \<Rightarrow> sso_provider \<Rightarrow> string \<Rightarrow> string option" where
  "selectSubjectUserId d t p sub = map_option ln_user (find (same_subject t p sub) (db_links d))"

definition selectLinkedIdentity :: "sso_db \<Rightarrow> string \<Rightarrow> sso_provider \<Rightarrow> string \<Rightarrow> (string \<times> sso_account) option" where
  "selectLinkedIdentity d t p sub = (case selectSubjectUserId d t p sub of
     None \<Rightarrow> None | Some u \<Rightarrow> map_option (Pair u) (account_of d u))"

definition selectUserByNormalizedEmail :: "sso_db \<Rightarrow> string \<Rightarrow> (string \<times> sso_account) option" where
  "selectUserByNormalizedEmail d email = find (\<lambda>(_, a). owns_email a email) (db_accounts d)"

definition isUsernameTaken :: "sso_db \<Rightarrow> string \<Rightarrow> bool" where
  "isUsernameTaken d name = list_ex (\<lambda>(_, a). sa_username a = name) (db_accounts d)"

definition current_users :: "sso_db \<Rightarrow> string \<Rightarrow> nat" where
  "current_users d t = length (filter (\<lambda>(_, a). sa_tenant a = Some t) (db_accounts d))"

text \<open>\<open>checkQuota\<close> of tenants.service.ts, as the exchange calls it: without a row lock.\<close>

definition checkQuota :: "sso_db \<Rightarrow> string \<Rightarrow> sso_error option" where
  "checkQuota d t = (case db_tenants d t of
     None \<Rightarrow> Some (App_error 404)
   | Some n \<Rightarrow> (case tn_max_users n of
       None \<Rightarrow> None
     | Some q \<Rightarrow> if current_users d t \<ge> q then Some (App_error 403) else None))"

text \<open>A link row satisfies its check constraint and its foreign keys, or the statement fails.\<close>

definition link_row_fits :: "sso_db \<Rightarrow> sso_link \<Rightarrow> bool" where
  "link_row_fits d l \<longleftrightarrow> account_of d (ln_user l) \<noteq> None \<and> db_tenants d (ln_tenant l) \<noteq> None
     \<and> btrim (ln_subject l) \<noteq> []"

definition replace_link :: "(sso_link \<Rightarrow> bool) \<Rightarrow> sso_link \<Rightarrow> sso_link list \<Rightarrow> sso_link list" where
  "replace_link same l ls = (if list_ex same ls then map (\<lambda>x. if same x then l else x) ls else ls @ [l])"

definition upsertIdentityForUser :: "sso_db \<Rightarrow> sso_link \<Rightarrow> sso_error + sso_db" where
  "upsertIdentityForUser d l =
     (if \<not> link_row_fits d l then Inl (App_error 500)
      else if list_ex (\<lambda>x. same_subject (ln_tenant l) (ln_provider l) (ln_subject l) x \<and> ln_user x \<noteq> ln_user l) (db_links d)
      then Inl (Sso_login ALREADY_LINKED)
      else Inr (d\<lparr>db_links := replace_link (same_user (ln_tenant l) (ln_provider l) (ln_user l)) l (db_links d)\<rparr>))"

text \<open>
  The transaction that inserts a learner and moves the subject's link to it: the new rows, or the
  constraint that refused them.
\<close>

datatype insert_outcome = Username_taken | Other_unique_violation | Insert_failed | Inserted sso_db

definition insertLearnerWithLink ::
    "sso_db \<Rightarrow> string \<Rightarrow> sso_provider \<Rightarrow> accepted_profile \<Rightarrow> string \<Rightarrow> bool \<Rightarrow> string \<Rightarrow> insert_outcome" where
  "insertLearnerWithLink d t p prof username active new =
     (let a = \<lparr>sa_tenant = Some t, sa_role = ''learner'', sa_active = active, sa_email = ap_email prof,
               sa_username = username\<rparr>;
          d' = d\<lparr>db_accounts := db_accounts d @ [(new, a)]\<rparr>;
          l = \<lparr>ln_tenant = t, ln_provider = p, ln_subject = ap_sub prof, ln_user = new, ln_email = ap_email prof\<rparr>
      in if account_of d new \<noteq> None then Other_unique_violation
         else if isUsernameTaken d username then Username_taken
         else if list_ex (\<lambda>(_, b). sa_email b = ap_email prof) (db_accounts d) then Other_unique_violation
         else if \<not> link_row_fits d' l then Insert_failed
         else Inserted (d'\<lparr>db_links := replace_link (same_subject t p (ap_sub prof)) l (db_links d')\<rparr>))"

section \<open>A request\<close>

datatype client_app = Admin_app | Learner_app

record sso_request =
  xr_tenant :: string
  xr_provider :: sso_provider
  xr_client_app :: "client_app option"
  xr_redirect_host :: string

record sso_token =
  tk_user :: string
  tk_tenant :: "string option"
  tk_role :: string

text \<open>Where a request stands, with the values it holds there. The first flag: the exchange linked an existing account.\<close>

datatype sso_phase =
    No_request
  | Exchanging sso_request sso_config
  | Looking_up sso_request sso_config accepted_profile
  | Finding_account sso_request sso_config accepted_profile
  | Checking_quota sso_request sso_config accepted_profile
  | Choosing_username sso_request sso_config accepted_profile nat nat
  | Creating sso_request sso_config accepted_profile nat string
  | Finding_raced sso_request accepted_profile
  | Reading_subject sso_request accepted_profile string string
  | Linking sso_request accepted_profile string string
  | Resolved sso_request accepted_profile string string bool
  | Counting_groups sso_request accepted_profile string bool
  | Issuing sso_request accepted_profile string bool
  | Refused sso_error
  | Signed_in sso_request accepted_profile sso_token bool

text \<open>An account found by its email address (\<open>resolveExistingSsoUserForProfile\<close>, up to its first statement).\<close>

definition link_existing :: "sso_request \<Rightarrow> accepted_profile \<Rightarrow> string \<times> sso_account \<Rightarrow> sso_phase" where
  "link_existing q p found = (case found of (u, a) \<Rightarrow>
     (case assertExistingAccountLinkable a (xr_tenant q) (ap_email_verified p) of
       Some e \<Rightarrow> Refused (Sso_login e)
     | None \<Rightarrow> Reading_subject q p u (sa_role a)))"

definition look_up :: "sso_db \<Rightarrow> sso_request \<Rightarrow> sso_config \<Rightarrow> accepted_profile \<Rightarrow> sso_phase" where
  "look_up d q cfg p = (case selectLinkedIdentity d (xr_tenant q) (xr_provider q) (ap_sub p) of
     None \<Rightarrow> Finding_account q cfg p
   | Some (u, a) \<Rightarrow> (case assertLinkedIdentityUsable a (xr_tenant q) of
       Some e \<Rightarrow> Refused (Sso_login e)
     | None \<Rightarrow> Resolved q p u (sa_role a) False))"

definition choose_username :: "sso_db \<Rightarrow> sso_request \<Rightarrow> sso_config \<Rightarrow> accepted_profile \<Rightarrow> nat \<Rightarrow> nat \<Rightarrow> string \<Rightarrow> sso_phase" where
  "choose_username d q cfg p attempt i hex =
     (if i < 20
      then if isUsernameTaken d (username_candidate (ap_email p) i) then Choosing_username q cfg p attempt (i + 1)
        else Creating q cfg p attempt (username_candidate (ap_email p) i)
      else Creating q cfg p attempt (username_fallback (ap_email p) hex))"

definition createLearnerFromProfile ::
    "sso_db \<Rightarrow> sso_request \<Rightarrow> sso_config \<Rightarrow> accepted_profile \<Rightarrow> nat \<Rightarrow> string \<Rightarrow> string \<Rightarrow> sso_db \<times> sso_phase" where
  "createLearnerFromProfile d q cfg p attempt username new =
     (let active = isAutoRegisterEnabled cfg in
      case insertLearnerWithLink d (xr_tenant q) (xr_provider q) p username active new of
        Username_taken \<Rightarrow> (d, if attempt + 1 < 3 then Choosing_username q cfg p (attempt + 1) 0 else Refused (App_error 409))
      | Other_unique_violation \<Rightarrow> (d, Finding_raced q p)
      | Insert_failed \<Rightarrow> (d, Refused (App_error 500))
      | Inserted d' \<Rightarrow> (d', if active then Resolved q p new ''learner'' False else Refused (App_error 403)))"

definition linkSsoIdentity :: "sso_db \<Rightarrow> sso_request \<Rightarrow> accepted_profile \<Rightarrow> string \<Rightarrow> string \<Rightarrow> sso_db \<times> sso_phase" where
  "linkSsoIdentity d q p u role =
     (case upsertIdentityForUser d \<lparr>ln_tenant = xr_tenant q, ln_provider = xr_provider q, ln_subject = ap_sub p,
        ln_user = u, ln_email = ap_email p\<rparr> of
       Inl e \<Rightarrow> (d, Refused e)
     | Inr d' \<Rightarrow> (d', Resolved q p u role True))"

definition inferSsoClientApp :: "sso_db \<Rightarrow> string \<Rightarrow> string \<Rightarrow> client_app option" where
  "inferSsoClientApp d t host = (if host = [] then None else (case db_tenants d t of
     None \<Rightarrow> None
   | Some n \<Rightarrow> if tn_domain_admin n = Some host then Some Admin_app
       else if tn_domain_learner n = Some host then Some Learner_app else None))"

definition client_app_of :: "sso_db \<Rightarrow> sso_request \<Rightarrow> client_app option" where
  "client_app_of d q = (case xr_client_app q of Some c \<Rightarrow> Some c
     | None \<Rightarrow> inferSsoClientApp d (xr_tenant q) (xr_redirect_host q))"

definition check_client_app :: "sso_db \<Rightarrow> sso_request \<Rightarrow> accepted_profile \<Rightarrow> string \<Rightarrow> string \<Rightarrow> bool \<Rightarrow> sso_phase" where
  "check_client_app d q p u role linked =
     (if client_app_of d q = Some Admin_app \<and> role = ''learner'' then Refused (App_error 403)
      else if client_app_of d q = Some Admin_app \<and> role = ''learner_plus'' then Counting_groups q p u linked
      else Issuing q p u linked)"

definition issueSessionForUserId :: "sso_db \<Rightarrow> string \<Rightarrow> sso_error + sso_token" where
  "issueSessionForUserId d u = (case account_of d u of
     None \<Rightarrow> Inl (App_error 404)
   | Some a \<Rightarrow>
       ensure (App_error 403) (sa_active a)
        (ensure (App_error 403) (\<not> (sa_role a \<noteq> ''superadmin'' \<and> truthy (sa_tenant a)
              \<and> (case db_tenants d (the (sa_tenant a)) of None \<Rightarrow> True | Some n \<Rightarrow> \<not> tn_active n)))
          (ensure (App_error 403) (\<not> (sa_role a = ''learner'' \<and> db_demo d u))
            (Inr \<lparr>tk_user = u, tk_tenant = sa_tenant a, tk_role = sa_role a\<rparr>))))"

text \<open>The next statement of a request. \<open>new\<close> is the identifier of an inserted row, \<open>hex\<close> the random suffix of a user name.\<close>

fun sso_advance :: "string \<Rightarrow> string \<Rightarrow> sso_db \<Rightarrow> sso_phase \<Rightarrow> sso_db \<times> sso_phase" where
  "sso_advance new hex d (Looking_up q cfg p) = (d, look_up d q cfg p)"
| "sso_advance new hex d (Finding_account q cfg p) =
     (d, case selectUserByNormalizedEmail d (ap_email p) of
        None \<Rightarrow> Checking_quota q cfg p | Some found \<Rightarrow> link_existing q p found)"
| "sso_advance new hex d (Checking_quota q cfg p) =
     (d, case checkQuota d (xr_tenant q) of Some e \<Rightarrow> Refused e | None \<Rightarrow> Choosing_username q cfg p 0 0)"
| "sso_advance new hex d (Choosing_username q cfg p attempt i) = (d, choose_username d q cfg p attempt i hex)"
| "sso_advance new hex d (Creating q cfg p attempt username) = createLearnerFromProfile d q cfg p attempt username new"
| "sso_advance new hex d (Finding_raced q p) =
     (d, case selectUserByNormalizedEmail d (ap_email p) of
        None \<Rightarrow> Refused (App_error 500) | Some found \<Rightarrow> link_existing q p found)"
| "sso_advance new hex d (Reading_subject q p u role) =
     (d, case selectSubjectUserId d (xr_tenant q) (xr_provider q) (ap_sub p) of
        None \<Rightarrow> Linking q p u role
      | Some u' \<Rightarrow> if u' \<noteq> [] \<and> u' \<noteq> u then Refused (Sso_login ALREADY_LINKED) else Linking q p u role)"
| "sso_advance new hex d (Linking q p u role) = linkSsoIdentity d q p u role"
| "sso_advance new hex d (Resolved q p u role linked) = (d, check_client_app d q p u role linked)"
| "sso_advance new hex d (Counting_groups q p u linked) =
     (d, if db_groups d u = 0 then Refused (App_error 403) else Issuing q p u linked)"
| "sso_advance new hex d (Issuing q p u linked) =
     (d, case issueSessionForUserId d u of Inl e \<Rightarrow> Refused e | Inr k \<Rightarrow> Signed_in q p k linked)"
| "sso_advance new hex d ph = (d, ph)"

text \<open>The provider's answer ends the wait; the domain rule is checked before any account is read.\<close>

definition receive_answer :: "sso_request \<Rightarrow> sso_config \<Rightarrow> string option answer \<Rightarrow> provider_profile answer \<Rightarrow> sso_phase" where
  "receive_answer q cfg token userinfo = (case exchangeCodeForProfile cfg token userinfo of
     Inl e \<Rightarrow> Refused e
   | Inr p \<Rightarrow> (case assertEmailDomainAllowed (ap_email p) (sc_extra_config cfg) of
       Some e \<Rightarrow> Refused (Sso_login e)
     | None \<Rightarrow> Looking_up q cfg p))"

section \<open>The runs\<close>

record sso_system =
  sso_rows :: sso_db
  sso_phases :: "nat \<Rightarrow> sso_phase"

text \<open>
  The events: a request arrives (its body has the shape of \<open>exchangeSsoCodeSchema\<close>) and reads the enabled
  configuration; the provider answers; a request takes its next statement; and the writes of the rest of
  the program: accounts are created, changed and removed (with their links, ON DELETE CASCADE), tenants,
  configurations, permission groups and demo accounts change.
\<close>

datatype sso_event =
    Exchange nat sso_request
  | Answer nat "string option answer" "provider_profile answer"
  | Advance nat string string
  | Write_account string sso_account
  | Remove_account string
  | Write_tenant string sso_tenant
  | Write_config string sso_provider "sso_config option"
  | Write_groups string nat
  | Write_demo string bool

definition write_account :: "string \<Rightarrow> sso_account \<Rightarrow> sso_db \<Rightarrow> sso_db" where
  "write_account u a d =
     (if list_ex (\<lambda>(i, b). i \<noteq> u \<and> (sa_email b = sa_email a \<or> sa_username b = sa_username a)) (db_accounts d) then d
      else if account_of d u = None then d\<lparr>db_accounts := db_accounts d @ [(u, a)]\<rparr>
      else d\<lparr>db_accounts := map (\<lambda>(i, b). (i, if i = u then a else b)) (db_accounts d)\<rparr>)"

definition remove_account :: "string \<Rightarrow> sso_db \<Rightarrow> sso_db" where
  "remove_account u d = d\<lparr>db_accounts := filter (\<lambda>(i, _). i \<noteq> u) (db_accounts d),
     db_links := filter (\<lambda>l. ln_user l \<noteq> u) (db_links d)\<rparr>"

definition set_phase :: "nat \<Rightarrow> sso_phase \<Rightarrow> sso_system \<Rightarrow> sso_system" where
  "set_phase r ph s = s\<lparr>sso_phases := (sso_phases s)(r := ph)\<rparr>"

fun sso_step :: "sso_system \<Rightarrow> sso_event \<Rightarrow> sso_system" where
  "sso_step s (Exchange r q) =
     (if sso_phases s r = No_request \<and> isUuid (xr_tenant q)
      then set_phase r (case selectEnabledConfig (sso_rows s) (xr_tenant q) (xr_provider q) of
          None \<Rightarrow> Refused (App_error 403) | Some cfg \<Rightarrow> Exchanging q cfg) s
      else s)"
| "sso_step s (Answer r token userinfo) = (case sso_phases s r of
     Exchanging q cfg \<Rightarrow> set_phase r (receive_answer q cfg token userinfo) s | _ \<Rightarrow> s)"
| "sso_step s (Advance r new hex) = (case sso_advance new hex (sso_rows s) (sso_phases s r) of
     (d, ph) \<Rightarrow> set_phase r ph (s\<lparr>sso_rows := d\<rparr>))"
| "sso_step s (Write_account u a) = s\<lparr>sso_rows := write_account u a (sso_rows s)\<rparr>"
| "sso_step s (Remove_account u) = s\<lparr>sso_rows := remove_account u (sso_rows s)\<rparr>"
| "sso_step s (Write_tenant t n) = s\<lparr>sso_rows := (sso_rows s)\<lparr>db_tenants := (db_tenants (sso_rows s))(t := Some n)\<rparr>\<rparr>"
| "sso_step s (Write_config t p c) = s\<lparr>sso_rows := (sso_rows s)\<lparr>db_configs :=
     (db_configs (sso_rows s))(t := (db_configs (sso_rows s) t)(p := c))\<rparr>\<rparr>"
| "sso_step s (Write_groups u n) = s\<lparr>sso_rows := (sso_rows s)\<lparr>db_groups := (db_groups (sso_rows s))(u := n)\<rparr>\<rparr>"
| "sso_step s (Write_demo u b) = s\<lparr>sso_rows := (sso_rows s)\<lparr>db_demo := (db_demo (sso_rows s))(u := b)\<rparr>\<rparr>"

section \<open>Every request ends\<close>

definition finished :: "sso_phase \<Rightarrow> bool" where
  "finished ph \<longleftrightarrow> (case ph of Refused _ \<Rightarrow> True | Signed_in _ _ _ _ \<Rightarrow> True | _ \<Rightarrow> False)"

definition not_started :: "sso_phase \<Rightarrow> bool" where
  "not_started ph \<longleftrightarrow> (case ph of No_request \<Rightarrow> True | Exchanging _ _ \<Rightarrow> True | _ \<Rightarrow> False)"

text \<open>How many statements a request has left at most: three attempts with at most 21 user names each.\<close>

fun steps_left :: "sso_phase \<Rightarrow> nat" where
  "steps_left (Looking_up _ _ _) = 101"
| "steps_left (Finding_account _ _ _) = 100"
| "steps_left (Checking_quota _ _ _) = 99"
| "steps_left (Choosing_username _ _ _ attempt i) = 7 + 23 * (3 - attempt) + (22 - min i 21)"
| "steps_left (Creating _ _ _ attempt _) = 7 + 23 * (3 - attempt)"
| "steps_left (Finding_raced _ _) = 6"
| "steps_left (Reading_subject _ _ _ _) = 5"
| "steps_left (Linking _ _ _ _) = 4"
| "steps_left (Resolved _ _ _ _ _) = 3"
| "steps_left (Counting_groups _ _ _ _) = 2"
| "steps_left (Issuing _ _ _ _) = 1"
| "steps_left _ = 0"

lemma steps_left_zero: "\<not> not_started ph \<Longrightarrow> steps_left ph = 0 \<Longrightarrow> finished ph"
  by (cases ph) (auto simp: not_started_def finished_def)

lemma link_existing_left: "steps_left (link_existing q p f) \<le> 5 \<and> \<not> not_started (link_existing q p f)"
  by (auto simp: link_existing_def not_started_def split: prod.split option.split)

lemma look_up_left: "steps_left (look_up d q cfg p) < 101 \<and> \<not> not_started (look_up d q cfg p)"
  by (auto simp: look_up_def not_started_def split: prod.split option.split)

lemma choose_username_left:
  "steps_left (choose_username d q cfg p n i hex) < 7 + 23 * (3 - n) + (22 - min i 21)
    \<and> \<not> not_started (choose_username d q cfg p n i hex)"
  by (auto simp: choose_username_def not_started_def)

lemma create_left: "steps_left (snd (createLearnerFromProfile d q cfg p n w new)) < 7 + 23 * (3 - n)
    \<and> \<not> not_started (snd (createLearnerFromProfile d q cfg p n w new))"
  by (auto simp: createLearnerFromProfile_def Let_def not_started_def split: insert_outcome.split)

lemma link_left: "steps_left (snd (linkSsoIdentity d q p u role)) < 4 \<and> \<not> not_started (snd (linkSsoIdentity d q p u role))"
  by (auto simp: linkSsoIdentity_def not_started_def split: sum.split)

lemma client_app_left:
  "steps_left (check_client_app d q p u role l) < 3 \<and> \<not> not_started (check_client_app d q p u role l)"
  by (auto simp: check_client_app_def not_started_def)

lemma advance_decreases:
  assumes "\<not> not_started ph" "\<not> finished ph"
  shows "steps_left (snd (sso_advance new hex d ph)) < steps_left ph \<and> \<not> not_started (snd (sso_advance new hex d ph))"
proof (cases ph)
  case (Finding_account q cfg p)
  then show ?thesis using link_existing_left [of q p]
    by (auto simp: not_started_def [of "Checking_quota q cfg p"] intro!: le_less_trans [of "steps_left (link_existing q p _)" 5] split: option.split)
next
  case (Finding_raced q p)
  then show ?thesis using link_existing_left [of q p]
    by (auto simp: not_started_def [of "Refused _"] intro!: le_less_trans [of "steps_left (link_existing q p _)" 5]
        split: option.split)
next
  case (Linking q p u role)
  then show ?thesis using link_left by simp
next
  case (Creating q cfg p n w)
  then show ?thesis using create_left by simp
qed (use assms look_up_left choose_username_left client_app_left in
      \<open>auto simp: not_started_def finished_def split: option.split sum.split\<close>)

definition is_advance :: "nat \<Rightarrow> sso_event \<Rightarrow> bool" where
  "is_advance r e \<longleftrightarrow> (case e of Advance r' _ _ \<Rightarrow> r' = r | _ \<Rightarrow> False)"

lemma own_step: "sso_phases (sso_step s (Advance r new hex)) r = snd (sso_advance new hex (sso_rows s) (sso_phases s r))"
  by (simp add: set_phase_def split: prod.split)

lemma other_step: "\<not> not_started (sso_phases s r) \<Longrightarrow> \<not> is_advance r e \<Longrightarrow> sso_phases (sso_step s e) r = sso_phases s r"
  by (cases e) (auto simp: set_phase_def is_advance_def not_started_def split: prod.split sso_phase.split option.split)

lemma finished_advance: "finished ph \<Longrightarrow> snd (sso_advance new hex d ph) = ph"
  by (cases ph) (auto simp: finished_def)

lemma step_left:
  assumes "\<not> not_started (sso_phases s r)"
  shows "\<not> not_started (sso_phases (sso_step s e) r) \<and> steps_left (sso_phases (sso_step s e) r)
    \<le> steps_left (sso_phases s r) - (if is_advance r e then 1 else 0)"
proof (cases "is_advance r e")
  case True
  then obtain new hex where e: "e = Advance r new hex" by (auto simp: is_advance_def split: sso_event.splits)
  show ?thesis
  proof (cases "finished (sso_phases s r)")
    case True
    then show ?thesis using assms unfolding e own_step
      by (cases "sso_phases s r") (auto simp: finished_def)
  next
    case False
    then show ?thesis using advance_decreases [OF assms False, of new hex "sso_rows s"] unfolding e own_step
      by (auto simp: is_advance_def)
  qed
qed (simp add: other_step assms)

lemma run_left:
  "\<not> not_started (sso_phases s r) \<Longrightarrow> \<not> not_started (sso_phases (foldl sso_step s es) r) \<and>
    steps_left (sso_phases (foldl sso_step s es) r) \<le> steps_left (sso_phases s r) - length (filter (is_advance r) es)"
proof (induction es arbitrary: s)
  case (Cons e es)
  show ?case using Cons.IH [of "sso_step s e"] step_left [OF Cons.prems, of e] by (auto split: if_splits)
qed simp

lemma steps_left_bound: "steps_left ph \<le> 101"
  by (cases ph) auto

section \<open>The tables\<close>

text \<open>The unique constraints and the foreign key of the links, and the primary key of the accounts.\<close>

definition subject_key :: "sso_link \<Rightarrow> string \<times> sso_provider \<times> string" where
  "subject_key l = (ln_tenant l, ln_provider l, ln_subject l)"

definition user_key :: "sso_link \<Rightarrow> string \<times> sso_provider \<times> string" where
  "user_key l = (ln_tenant l, ln_provider l, ln_user l)"

definition tables_ok :: "sso_db \<Rightarrow> bool" where
  "tables_ok d \<longleftrightarrow> distinct (map fst (db_accounts d)) \<and> distinct (map subject_key (db_links d))
     \<and> distinct (map user_key (db_links d)) \<and> (\<forall>l \<in> set (db_links d). account_of d (ln_user l) \<noteq> None)"

lemma same_keys: "same_subject (ln_tenant l) (ln_provider l) (ln_subject l) x \<longleftrightarrow> subject_key x = subject_key l"
  "same_user (ln_tenant l) (ln_provider l) (ln_user l) x \<longleftrightarrow> user_key x = user_key l"
  by (auto simp: same_subject_def same_user_def subject_key_def user_key_def)

lemma replace_link_own_key:
  assumes "distinct (map key ls)" "\<And>x. same x \<longleftrightarrow> key x = key l"
  shows "distinct (map key (replace_link same l ls))"
proof -
  have replaced: "map key (map (\<lambda>x. if same x then l else x) ls) = map key ls" by (auto simp: assms(2))
  show ?thesis
  proof (cases "list_ex same ls")
    case True
    show ?thesis unfolding replace_link_def if_P [OF True] replaced by (rule assms(1))
  next
    case False
    then have "key l \<notin> key ` set ls" using assms(2) by (auto simp: list_ex_iff)
    then show ?thesis using False assms(1) by (simp add: replace_link_def)
  qed
qed

lemma replace_link_other_key:
  assumes "distinct (map key ls)" "distinct (map key2 ls)" "\<And>x. same x \<longleftrightarrow> key x = key l"
    "\<And>x. x \<in> set ls \<Longrightarrow> key2 x = key2 l \<Longrightarrow> same x"
  shows "distinct (map key2 (replace_link same l ls))"
proof (cases "list_ex same ls")
  case True
  let ?f = "\<lambda>x. if same x then l else x"
  have "inj_on (key2 \<circ> ?f) (set ls)"
  proof (rule inj_onI)
    fix x y assume xy: "x \<in> set ls" "y \<in> set ls" "(key2 \<circ> ?f) x = (key2 \<circ> ?f) y"
    then have "same x = same y" using assms(4) by (auto split: if_splits)
    then have "key x = key y \<or> key2 x = key2 y" using xy(3) assms(3) by (auto split: if_splits)
    then show "x = y" using xy(1,2) assms(1,2) by (auto simp: distinct_map dest: inj_onD)
  qed
  then show ?thesis using True assms(1) by (simp add: replace_link_def distinct_map comp_inj_on_iff)
next
  case False
  then have "key2 l \<notin> key2 ` set ls" using assms(4) by (metis (no_types, lifting) image_iff list_ex_iff)
  then show ?thesis using False assms(2) by (simp add: replace_link_def)
qed

lemma set_replace_link: "set (replace_link same l ls) \<subseteq> insert l (set ls)"
  by (auto simp: replace_link_def)

lemma find_replace_link: "same l \<Longrightarrow> find same (replace_link same l ls) = Some l"
proof (cases "list_ex same ls")
  case True
  assume "same l"
  moreover have "list_ex same ls \<Longrightarrow> same l \<Longrightarrow> find same (map (\<lambda>x. if same x then l else x) ls) = Some l"
    by (induction ls) auto
  ultimately show ?thesis using True by (simp add: replace_link_def)
next
  case False
  assume "same l"
  moreover have "\<not> list_ex same ls \<Longrightarrow> same l \<Longrightarrow> find same (ls @ [l]) = Some l"
    by (induction ls) auto
  ultimately show ?thesis using False by (simp add: replace_link_def)
qed

lemma upsert_keeps_tables:
  assumes "upsertIdentityForUser d l = Inr d'" "tables_ok d"
  shows "tables_ok d'"
proof -
  let ?same = "same_user (ln_tenant l) (ln_provider l) (ln_user l)"
  from assms(1) have d': "d' = d\<lparr>db_links := replace_link ?same l (db_links d)\<rparr>" and fits: "link_row_fits d l"
    and free: "\<And>x. x \<in> set (db_links d) \<Longrightarrow> subject_key x = subject_key l \<Longrightarrow> ln_user x = ln_user l"
    by (auto simp: upsertIdentityForUser_def same_keys list_ex_iff split: if_splits)
  have "distinct (map subject_key (replace_link ?same l (db_links d)))"
    using assms(2) free by (intro replace_link_other_key [of user_key])
      (auto simp: tables_ok_def same_keys user_key_def subject_key_def)
  moreover have "distinct (map user_key (replace_link ?same l (db_links d)))"
    using assms(2) by (intro replace_link_own_key) (auto simp: tables_ok_def same_keys)
  ultimately show ?thesis
    using assms(2) fits set_replace_link [of ?same l "db_links d"] by (auto simp: tables_ok_def d' link_row_fits_def)
qed

lemma insert_keeps_tables:
  assumes "insertLearnerWithLink d t p prof w active new = Inserted d'" "tables_ok d"
  shows "tables_ok d'"
proof -
  define a where "a = \<lparr>sa_tenant = Some t, sa_role = ''learner'', sa_active = active, sa_email = ap_email prof, sa_username = w\<rparr>"
  define l where "l = \<lparr>ln_tenant = t, ln_provider = p, ln_subject = ap_sub prof, ln_user = new, ln_email = ap_email prof\<rparr>"
  have lf: "ln_tenant l = t" "ln_provider l = p" "ln_subject l = ap_sub prof" "ln_user l = new" by (simp_all add: l_def)
  let ?same = "same_subject t p (ap_sub prof)"
  from assms(1) have d': "d' = d\<lparr>db_accounts := db_accounts d @ [(new, a)], db_links := replace_link ?same l (db_links d)\<rparr>"
    and new: "account_of d new = None"
    unfolding insertLearnerWithLink_def a_def [symmetric] l_def [symmetric] Let_def by (auto split: if_splits)
  have same: "?same x \<longleftrightarrow> subject_key x = subject_key l" for x using same_keys(1) [of l x] by (simp add: lf)
  have fresh: "x \<in> set (db_links d) \<Longrightarrow> ln_user x \<noteq> new" for x using assms(2) new by (auto simp: tables_ok_def)
  have "distinct (map user_key (replace_link ?same l (db_links d)))"
    using assms(2) fresh by (intro replace_link_other_key [of subject_key]) (auto simp: tables_ok_def same user_key_def lf)
  moreover have "distinct (map subject_key (replace_link ?same l (db_links d)))"
    using assms(2) by (intro replace_link_own_key) (auto simp: tables_ok_def same)
  moreover have "new \<notin> fst ` set (db_accounts d)" using new by (simp add: map_of_eq_None_iff)
  ultimately show ?thesis
    using assms(2) set_replace_link [of ?same l "db_links d"]
    by (auto simp: tables_ok_def d' lf map_add_def split: option.split)
qed

lemma write_keeps_accounts: "account_of d i \<noteq> None \<Longrightarrow> account_of (write_account u a d) i \<noteq> None"
proof -
  have "map_of (map (\<lambda>(i, b). (i, if i = u then a else b)) xs) j = (if j = u then map_option (\<lambda>_. a) (map_of xs j) else map_of xs j)"
    for xs :: "(string \<times> sso_account) list" and j by (induction xs) auto
  then show "account_of d i \<noteq> None \<Longrightarrow> account_of (write_account u a d) i \<noteq> None"
    by (auto simp: write_account_def map_add_def split: option.split)
qed

lemma write_keeps_tables: "tables_ok d \<Longrightarrow> tables_ok (write_account u a d)"
proof -
  assume ok: "tables_ok d"
  have "map fst (map (\<lambda>(i, b). (i, if i = u then a else b)) xs) = map fst xs" for xs :: "(string \<times> sso_account) list"
    by (induction xs) auto
  then have "distinct (map fst (db_accounts (write_account u a d)))"
    using ok by (simp add: write_account_def tables_ok_def map_of_eq_None_iff del: map_map)
  moreover have "db_links (write_account u a d) = db_links d" by (simp add: write_account_def)
  ultimately show ?thesis using ok write_keeps_accounts [of d _ u a] by (auto simp: tables_ok_def)
qed

lemma remove_keeps_tables: "tables_ok d \<Longrightarrow> tables_ok (remove_account u d)"
proof -
  have "map_of (filter (\<lambda>(i, _). i \<noteq> u) xs) j = (if j = u then None else map_of xs j)"
    for xs :: "(string \<times> sso_account) list" and j by (induction xs) auto
  then show "tables_ok d \<Longrightarrow> tables_ok (remove_account u d)"
    by (auto simp: tables_ok_def remove_account_def distinct_map_filter)
qed

lemma advance_rows:
  "fst (sso_advance new hex d ph) = d
   \<or> (\<exists>q p u role. ph = Linking q p u role \<and> upsertIdentityForUser d \<lparr>ln_tenant = xr_tenant q, ln_provider = xr_provider q,
        ln_subject = ap_sub p, ln_user = u, ln_email = ap_email p\<rparr> = Inr (fst (sso_advance new hex d ph)))
   \<or> (\<exists>q cfg p n w. ph = Creating q cfg p n w \<and> insertLearnerWithLink d (xr_tenant q) (xr_provider q) p w
        (isAutoRegisterEnabled cfg) new = Inserted (fst (sso_advance new hex d ph)))"
  by (cases ph) (auto simp: linkSsoIdentity_def createLearnerFromProfile_def Let_def split: sum.split insert_outcome.split)

lemma advance_keeps_tables: "tables_ok d \<Longrightarrow> tables_ok (fst (sso_advance new hex d ph))"
  using advance_rows [of new hex d ph] upsert_keeps_tables insert_keeps_tables by metis

interpretation signin: event_system sso_step "\<lambda>s. tables_ok (sso_rows s)"
proof
  fix s :: sso_system and e :: sso_event assume ok: "tables_ok (sso_rows s)"
  show "tables_ok (sso_rows (sso_step s e))"
  proof (cases e)
    case (Advance r new hex)
    then show ?thesis using advance_keeps_tables [OF ok, of new hex "sso_phases s r"]
      by (cases "sso_advance new hex (sso_rows s) (sso_phases s r)") (simp add: set_phase_def)
  next
    case (Write_account u a)
    then show ?thesis using write_keeps_tables [OF ok] by simp
  next
    case (Remove_account u)
    then show ?thesis using remove_keeps_tables [OF ok] by simp
  qed (use ok in \<open>auto simp: set_phase_def tables_ok_def split: option.split sso_phase.split\<close>)
qed

section \<open>What a request relies on\<close>

text \<open>
  Facts of one moment of a run: the enabled configuration allows the domain of the profile; the request
  holds the profile its provider answered with; the account found is an active one of the tenant, with the
  verified address of the profile; the account linked to the subject is an active one of the tenant; the
  session is one the account may have.
\<close>

definition config_allows :: "sso_request \<Rightarrow> accepted_profile \<Rightarrow> sso_system \<Rightarrow> bool" where
  "config_allows q p s \<longleftrightarrow> (\<exists>cfg. selectEnabledConfig (sso_rows s) (xr_tenant q) (xr_provider q) = Some cfg
     \<and> domain_allowed (ap_email p) (sc_extra_config cfg))"

definition vouched :: "string \<Rightarrow> sso_provider \<Rightarrow> accepted_profile \<Rightarrow> sso_system \<Rightarrow> bool" where
  "vouched t pr p s \<longleftrightarrow> (\<exists>r q cfg. sso_phases s r = Looking_up q cfg p \<and> xr_tenant q = t \<and> xr_provider q = pr)"

definition owner_account :: "sso_request \<Rightarrow> accepted_profile \<Rightarrow> string \<Rightarrow> string \<Rightarrow> sso_system \<Rightarrow> bool" where
  "owner_account q p u role s \<longleftrightarrow> (\<exists>a. account_of (sso_rows s) u = Some a \<and> of_tenant a (xr_tenant q) \<and> sa_active a
     \<and> sa_role a = role \<and> owns_email a (ap_email p) \<and> isEmailVerifiedClaim (ap_email_verified p))"

definition linked_account :: "sso_request \<Rightarrow> accepted_profile \<Rightarrow> string \<Rightarrow> string \<Rightarrow> sso_system \<Rightarrow> bool" where
  "linked_account q p u role s \<longleftrightarrow> (\<exists>a. account_of (sso_rows s) u = Some a \<and> of_tenant a (xr_tenant q) \<and> sa_active a
     \<and> sa_role a = role \<and> selectSubjectUserId (sso_rows s) (xr_tenant q) (xr_provider q) (ap_sub p) = Some u)"

definition session_issued :: "sso_token \<Rightarrow> sso_system \<Rightarrow> bool" where
  "session_issued k s \<longleftrightarrow> issueSessionForUserId (sso_rows s) (tk_user k) = Inr k"

text \<open>What is known of a request at each point; \<open>H P\<close> is read as "P held at some moment".\<close>

definition admitted :: "((sso_system \<Rightarrow> bool) \<Rightarrow> bool) \<Rightarrow> sso_request \<Rightarrow> accepted_profile \<Rightarrow> bool" where
  "admitted H q p \<longleftrightarrow> xr_tenant q \<noteq> [] \<and> H (config_allows q p) \<and> H (vouched (xr_tenant q) (xr_provider q) p)"

definition reached :: "((sso_system \<Rightarrow> bool) \<Rightarrow> bool) \<Rightarrow> sso_request \<Rightarrow> accepted_profile \<Rightarrow> string \<Rightarrow> string \<Rightarrow> bool" where
  "reached H q p u role \<longleftrightarrow> admitted H q p \<and> (H (owner_account q p u role) \<or> H (linked_account q p u role))"

definition site_allowed :: "((sso_system \<Rightarrow> bool) \<Rightarrow> bool) \<Rightarrow> sso_request \<Rightarrow> accepted_profile \<Rightarrow> string \<Rightarrow> bool" where
  "site_allowed H q p u \<longleftrightarrow> (\<exists>role. reached H q p u role \<and> (xr_client_app q = Some Admin_app \<longrightarrow> role \<noteq> ''learner''))"

fun justified :: "((sso_system \<Rightarrow> bool) \<Rightarrow> bool) \<Rightarrow> sso_phase \<Rightarrow> bool" where
  "justified H (Exchanging q cfg) \<longleftrightarrow> xr_tenant q \<noteq> []
     \<and> H (\<lambda>s. selectEnabledConfig (sso_rows s) (xr_tenant q) (xr_provider q) = Some cfg)"
| "justified H (Looking_up q cfg p) \<longleftrightarrow> admitted H q p"
| "justified H (Finding_account q cfg p) \<longleftrightarrow> admitted H q p"
| "justified H (Checking_quota q cfg p) \<longleftrightarrow> admitted H q p"
| "justified H (Choosing_username q cfg p n i) \<longleftrightarrow> admitted H q p"
| "justified H (Creating q cfg p n w) \<longleftrightarrow> admitted H q p"
| "justified H (Finding_raced q p) \<longleftrightarrow> admitted H q p"
| "justified H (Reading_subject q p u role) \<longleftrightarrow> admitted H q p \<and> H (owner_account q p u role)"
| "justified H (Linking q p u role) \<longleftrightarrow> admitted H q p \<and> H (owner_account q p u role)"
| "justified H (Resolved q p u role l) \<longleftrightarrow> reached H q p u role"
| "justified H (Counting_groups q p u l) \<longleftrightarrow> site_allowed H q p u"
| "justified H (Issuing q p u l) \<longleftrightarrow> site_allowed H q p u"
| "justified H (Signed_in q p k l) \<longleftrightarrow> site_allowed H q p (tk_user k) \<and> H (session_issued k)"
| "justified H _ \<longleftrightarrow> True"

lemma admitted_later: "admitted H q p \<Longrightarrow> (\<And>P. H P \<Longrightarrow> H' P) \<Longrightarrow> admitted H' q p"
  by (simp add: admitted_def)

lemma reached_later: "reached H q p u role \<Longrightarrow> (\<And>P. H P \<Longrightarrow> H' P) \<Longrightarrow> reached H' q p u role"
  unfolding reached_def using admitted_later by blast

lemma site_later: "site_allowed H q p u \<Longrightarrow> (\<And>P. H P \<Longrightarrow> H' P) \<Longrightarrow> site_allowed H' q p u"
  unfolding site_allowed_def using reached_later by blast

lemma justified_later: "justified H ph \<Longrightarrow> (\<And>P. H P \<Longrightarrow> H' P) \<Longrightarrow> justified H' ph"
  by (cases ph) (auto intro: admitted_later reached_later site_later)

lemma justified_link_existing:
  assumes "admitted H q p" "selectUserByNormalizedEmail (sso_rows s) (ap_email p) = Some f"
    "distinct (map fst (db_accounts (sso_rows s)))" "\<And>P. P s \<Longrightarrow> H P"
  shows "justified H (link_existing q p f)"
proof -
  obtain u a where f: "f = (u, a)" by (cases f)
  from assms(2) have "(u, a) \<in> set (db_accounts (sso_rows s))" "owns_email a (ap_email p)"
    by (auto simp: selectUserByNormalizedEmail_def find_Some_iff f in_set_conv_nth)
  moreover from this(1) have "account_of (sso_rows s) u = Some a" using assms(3) by simp
  ultimately have "owner_account q p u (sa_role a) s"
    if "assertExistingAccountLinkable a (xr_tenant q) (ap_email_verified p) = None"
    using that by (auto simp: owner_account_def linkable_iff)
  then show ?thesis using assms(1,4) by (auto simp: link_existing_def f split: option.split)
qed

lemma justified_look_up:
  assumes "admitted H q p" "\<And>P. P s \<Longrightarrow> H P"
  shows "justified H (look_up (sso_rows s) q cfg p)"
proof (cases "selectLinkedIdentity (sso_rows s) (xr_tenant q) (xr_provider q) (ap_sub p)")
  case (Some f)
  then obtain u a where f: "f = (u, a)" "selectSubjectUserId (sso_rows s) (xr_tenant q) (xr_provider q) (ap_sub p) = Some u"
      "account_of (sso_rows s) u = Some a"
    by (auto simp: selectLinkedIdentity_def split: option.splits)
  then have "linked_account q p u (sa_role a) s" if "assertLinkedIdentityUsable a (xr_tenant q) = None"
    using that by (auto simp: linked_account_def linked_usable_iff)
  then show ?thesis using assms by (auto simp: look_up_def Some f(1) reached_def split: option.split)
qed (simp add: look_up_def assms)

lemma inserted_rows:
  assumes "insertLearnerWithLink d t p prof w active new = Inserted d'"
  shows "account_of d new = None" "db_accounts d' = db_accounts d @ [(new, \<lparr>sa_tenant = Some t, sa_role = ''learner'', sa_active = active,
      sa_email = ap_email prof, sa_username = w\<rparr>)]"
    "db_links d' = replace_link (same_subject t p (ap_sub prof)) \<lparr>ln_tenant = t, ln_provider = p,
      ln_subject = ap_sub prof, ln_user = new, ln_email = ap_email prof\<rparr> (db_links d)"
  using assms by (auto simp: insertLearnerWithLink_def Let_def split: if_splits)

lemma find_inserted:
  "find (same_subject t p sub) (replace_link (same_subject t p sub) \<lparr>ln_tenant = t, ln_provider = p, ln_subject = sub,
     ln_user = u, ln_email = e\<rparr> ls)
   = Some \<lparr>ln_tenant = t, ln_provider = p, ln_subject = sub, ln_user = u, ln_email = e\<rparr>"
  by (rule find_replace_link) (simp add: same_subject_def)

lemma justified_create:
  assumes "admitted H q p" "\<And>P. P s \<Longrightarrow> H P"
    and created: "createLearnerFromProfile d q cfg p n w new = (sso_rows s, ph)"
  shows "justified H ph"
proof (cases "insertLearnerWithLink d (xr_tenant q) (xr_provider q) p w (isAutoRegisterEnabled cfg) new")
  case (Inserted d')
  with created have d': "sso_rows s = d'"
    and ph: "ph = (if isAutoRegisterEnabled cfg then Resolved q p new ''learner'' False else Refused (App_error 403))"
    by (auto simp: createLearnerFromProfile_def)
  have "linked_account q p new ''learner'' s" if "isAutoRegisterEnabled cfg"
    using inserted_rows [OF Inserted] assms(1) that
    by (auto simp: linked_account_def d' of_tenant_def admitted_def truthy_def selectSubjectUserId_def
        find_inserted map_add_def)
  then show ?thesis using assms(1,2) by (auto simp: ph reached_def)
qed (use created assms(1) in \<open>auto simp: createLearnerFromProfile_def\<close>)

lemma justified_client_app:
  assumes "reached H q p u role"
  shows "justified H (check_client_app d q p u role l)"
proof -
  have "site_allowed H q p u" if "\<not> (client_app_of d q = Some Admin_app \<and> role = ''learner'')"
    unfolding site_allowed_def using assms that by (intro exI [of _ role]) (auto simp: client_app_of_def)
  then show ?thesis by (auto simp: check_client_app_def)
qed

lemma justified_advance:
  assumes "justified H (sso_phases s r)" "distinct (map fst (db_accounts (sso_rows s)))"
    "\<And>P. P s \<Longrightarrow> H P" "\<And>P. P s' \<Longrightarrow> H P"
    and s': "sso_advance new hex (sso_rows s) (sso_phases s r) = (sso_rows s', ph)"
  shows "justified H ph"
proof (cases "sso_phases s r")
  case (Looking_up q cfg p)
  then show ?thesis using assms justified_look_up [of H q p s cfg] by auto
next
  case (Finding_account q cfg p)
  then show ?thesis using assms justified_link_existing [of H q p s] by (auto split: option.splits)
next
  case (Finding_raced q p)
  then show ?thesis using assms justified_link_existing [of H q p s] by (auto split: option.splits)
next
  case (Creating q cfg p n w)
  then show ?thesis using assms(1,4) s' by (auto intro: justified_create)
next
  case (Resolved q p u role l)
  then show ?thesis using assms(1) s' justified_client_app by auto
next
  case (Issuing q p u l)
  show ?thesis
  proof (cases "issueSessionForUserId (sso_rows s) u")
    case (Inr k)
    then have "tk_user k = u"
      by (auto simp: issueSessionForUserId_def split: option.splits)
    moreover from this Inr have "session_issued k s" by (simp add: session_issued_def)
    ultimately show ?thesis using Issuing Inr assms(1,3) s' by auto
  qed (use Issuing s' in auto)
next
  case (Exchanging q cfg)
  then have "ph = sso_phases s r" using s' by simp
  then show ?thesis using assms(1) by (rule ssubst)
next
  case (Refused e)
  then have "ph = sso_phases s r" using s' by simp
  then show ?thesis using assms(1) by (rule ssubst)
next
  case (Signed_in q p k l)
  then have "ph = sso_phases s r" using s' by simp
  then show ?thesis using assms(1) by (rule ssubst)
qed (use assms(1) s' in \<open>auto simp: choose_username_def linkSsoIdentity_def reached_def
      split: option.splits sum.splits if_splits\<close>)

lemma justified_answer:
  assumes "justified H (Exchanging q cfg)" "sso_phases s' r = receive_answer q cfg token userinfo"
    "\<And>P. P s' \<Longrightarrow> H P" "\<And>P Q. H P \<Longrightarrow> (\<And>t. P t \<Longrightarrow> Q t) \<Longrightarrow> H Q"
  shows "justified H (receive_answer q cfg token userinfo)"
proof (cases "exchangeCodeForProfile cfg token userinfo")
  case (Inr p)
  show ?thesis
  proof (cases "assertEmailDomainAllowed (ap_email p) (sc_extra_config cfg)")
    case None
    then have ph: "receive_answer q cfg token userinfo = Looking_up q cfg p" by (simp add: receive_answer_def Inr)
    have "H (config_allows q p)"
    proof (rule assms(4))
      show "H (\<lambda>s. selectEnabledConfig (sso_rows s) (xr_tenant q) (xr_provider q) = Some cfg)" using assms(1) by simp
      show "config_allows q p t" if "selectEnabledConfig (sso_rows t) (xr_tenant q) (xr_provider q) = Some cfg" for t
        using that allowed_domain [OF None] by (auto simp: config_allows_def)
    qed
    moreover have "H (vouched (xr_tenant q) (xr_provider q) p)"
      by (rule assms(3)) (use assms(2) ph in \<open>auto simp: vouched_def\<close>)
    ultimately show ?thesis using assms(1) by (simp add: ph admitted_def)
  qed (simp add: receive_answer_def Inr)
qed (simp add: receive_answer_def)

lemma justified_step:
  assumes old: "justified H (sso_phases s r)" and ok: "tables_ok (sso_rows s)"
    and now: "\<And>P. P s \<Longrightarrow> H P" and after: "\<And>P. P (sso_step s e) \<Longrightarrow> H P"
    and mono: "\<And>P Q. H P \<Longrightarrow> (\<And>t. P t \<Longrightarrow> Q t) \<Longrightarrow> H Q"
  shows "justified H (sso_phases (sso_step s e) r)"
proof (cases e)
  case (Exchange r' q)
  show ?thesis
  proof (cases "r' = r \<and> sso_phases s r = No_request \<and> isUuid (xr_tenant q)")
    case True
    then have "xr_tenant q \<noteq> []" using isUuid_length [of "xr_tenant q"] by auto
    then show ?thesis using True Exchange now by (auto simp: set_phase_def split: option.split)
  qed (use old Exchange in \<open>auto simp: set_phase_def\<close>)
next
  case (Answer r' token userinfo)
  show ?thesis
  proof (cases "\<exists>q cfg. r' = r \<and> sso_phases s r = Exchanging q cfg")
    case True
    then obtain q cfg where q: "r' = r" "sso_phases s r = Exchanging q cfg" by blast
    then have ph: "sso_phases (sso_step s e) r = receive_answer q cfg token userinfo" by (simp add: Answer set_phase_def)
    then show ?thesis using justified_answer [OF old [unfolded q(2)] ph after mono] by simp
  qed (use old Answer in \<open>auto simp: set_phase_def split: sso_phase.split\<close>)
next
  case (Advance r' new hex)
  obtain d ph where adv: "sso_advance new hex (sso_rows s) (sso_phases s r') = (d, ph)" by force
  then have s': "sso_step s e = set_phase r' ph (s\<lparr>sso_rows := d\<rparr>)" by (simp add: Advance)
  show ?thesis
  proof (cases "r' = r")
    case True
    have "justified H ph"
      by (rule justified_advance [where s = s and s' = "sso_step s e" and r = r and new = new and hex = hex])
        (use old ok now after adv True s' in \<open>auto simp: tables_ok_def set_phase_def\<close>)
    then show ?thesis by (simp add: s' True set_phase_def)
  qed (use old s' in \<open>simp add: set_phase_def\<close>)
qed (use old in auto)

lemma justified_run:
  assumes "tables_ok (sso_rows s0)" "sso_phases s0 r = No_request"
  shows "justified (once sso_step s0 es) (sso_phases (foldl sso_step s0 es) r)"
proof (induction es rule: rev_induct)
  case (snoc e es)
  let ?s = "foldl sso_step s0 es"
  have "justified (once sso_step s0 (es @ [e])) (sso_phases (sso_step ?s e) r)"
  proof (rule justified_step)
    show "justified (once sso_step s0 (es @ [e])) (sso_phases ?s r)"
      using snoc once_later by (rule justified_later)
    show "tables_ok (sso_rows ?s)" using assms(1) by (rule signin.inv_run)
    show "once sso_step s0 (es @ [e]) P" if "P ?s" for P using that by (intro once_later once_now)
    show "once sso_step s0 (es @ [e]) P" if "P (sso_step ?s e)" for P using that by (intro once_now) simp
    show "once sso_step s0 (es @ [e]) Q" if "once sso_step s0 (es @ [e]) P" "\<And>t. P t \<Longrightarrow> Q t" for P Q
      using that by (rule once_mono)
  qed
  then show ?case by simp
qed (simp add: assms(2))

section \<open>Where a link comes from\<close>

definition new_learner :: "sso_link \<Rightarrow> sso_system \<Rightarrow> bool" where
  "new_learner l s \<longleftrightarrow> (\<exists>a. account_of (sso_rows s) (ln_user l) = Some a \<and> of_tenant a (ln_tenant l)
     \<and> sa_role a = ''learner'' \<and> sa_email a = ln_email l)"

definition link_justified :: "((sso_system \<Rightarrow> bool) \<Rightarrow> bool) \<Rightarrow> sso_link \<Rightarrow> bool" where
  "link_justified H l \<longleftrightarrow> (\<exists>q p. xr_tenant q = ln_tenant l \<and> xr_provider q = ln_provider l \<and> ap_sub p = ln_subject l
     \<and> ap_email p = ln_email l \<and> admitted H q p
     \<and> ((\<exists>role. H (owner_account q p (ln_user l) role)) \<or> H (new_learner l)))"

lemma link_later: "link_justified H l \<Longrightarrow> (\<And>P. H P \<Longrightarrow> H' P) \<Longrightarrow> link_justified H' l"
  unfolding link_justified_def using admitted_later by metis

lemma step_links:
  assumes "l \<in> set (db_links (sso_rows (sso_step s e)))" "l \<notin> set (db_links (sso_rows s))"
    and phases: "\<And>r. justified H (sso_phases s r)" and after: "\<And>P. P (sso_step s e) \<Longrightarrow> H P"
  shows "link_justified H l"
proof -
  have "\<exists>r new hex. e = Advance r new hex"
    using assms(1,2) by (cases e) (auto simp: set_phase_def remove_account_def write_account_def
        split: if_splits option.splits sso_phase.splits)
  then obtain r new hex where e: "e = Advance r new hex" by blast
  define d' where "d' = fst (sso_advance new hex (sso_rows s) (sso_phases s r))"
  have rows: "sso_rows (sso_step s e) = d'" by (simp add: e d'_def set_phase_def split: prod.split)
  with assms(1,2) have new: "l \<in> set (db_links d')" "l \<notin> set (db_links (sso_rows s))" by simp_all
  then have "d' \<noteq> sso_rows s" by auto
  with advance_rows [of new hex "sso_rows s" "sso_phases s r", folded d'_def] consider
      (link) q p u role where "sso_phases s r = Linking q p u role"
        "upsertIdentityForUser (sso_rows s) \<lparr>ln_tenant = xr_tenant q, ln_provider = xr_provider q,
          ln_subject = ap_sub p, ln_user = u, ln_email = ap_email p\<rparr> = Inr d'"
    | (create) q cfg p n w where "sso_phases s r = Creating q cfg p n w"
        "insertLearnerWithLink (sso_rows s) (xr_tenant q) (xr_provider q) p w (isAutoRegisterEnabled cfg) new = Inserted d'"
    by blast
  then show ?thesis
  proof cases
    case link
    from link(2) new have l: "l = \<lparr>ln_tenant = xr_tenant q, ln_provider = xr_provider q,
        ln_subject = ap_sub p, ln_user = u, ln_email = ap_email p\<rparr>"
      by (auto simp: upsertIdentityForUser_def split: if_splits dest!: subsetD [OF set_replace_link])
    from phases [of r] show ?thesis
      unfolding link_justified_def by (intro exI [of _ q] exI [of _ p]) (auto simp: l link(1))
  next
    case create
    from new inserted_rows(3) [OF create(2)] have l: "l = \<lparr>ln_tenant = xr_tenant q, ln_provider = xr_provider q,
        ln_subject = ap_sub p, ln_user = new, ln_email = ap_email p\<rparr>"
      by (auto dest!: subsetD [OF set_replace_link])
    have adm: "admitted H q p" using phases [of r] by (simp add: create(1))
    then have "new_learner l (sso_step s e)"
      using inserted_rows(1,2) [OF create(2)]
      by (auto simp: new_learner_def rows l of_tenant_def truthy_def admitted_def map_add_def)
    then show ?thesis using adm after
      unfolding link_justified_def by (intro exI [of _ q] exI [of _ p]) (auto simp: l)
  qed
qed

lemma links_run:
  assumes "tables_ok (sso_rows s0)" "\<And>r. sso_phases s0 r = No_request"
    "l \<in> set (db_links (sso_rows (foldl sso_step s0 es)))" "l \<notin> set (db_links (sso_rows s0))"
  shows "link_justified (once sso_step s0 es) l"
  using assms(3)
proof (induction es rule: rev_induct)
  case (snoc e es)
  show ?case
  proof (cases "l \<in> set (db_links (sso_rows (foldl sso_step s0 es)))")
    case True
    then show ?thesis using snoc.IH once_later by (metis link_later)
  next
    case False
    show ?thesis
    proof (rule step_links [OF _ False])
      show "l \<in> set (db_links (sso_rows (sso_step (foldl sso_step s0 es) e)))" using snoc.prems by simp
      show "justified (once sso_step s0 (es @ [e])) (sso_phases (foldl sso_step s0 es) r)" for r
        using justified_run [OF assms(1,2)] once_later by (rule justified_later)
      show "once sso_step s0 (es @ [e]) P" if "P (sso_step (foldl sso_step s0 es) e)" for P
        using that by (intro once_now) simp
    qed
  qed
qed (use assms(4) in simp)

section \<open>A tenant to run\<close>

text \<open>A tenant with one seat, which signs in with Google and lets only addresses of one domain in.\<close>

definition sso_demo_tenant :: string where
  "sso_demo_tenant = ''11111111-1111-4111-8111-111111111111''"

definition sso_demo_request :: sso_request where
  "sso_demo_request = \<lparr>xr_tenant = sso_demo_tenant, xr_provider = Google, xr_client_app = Some Admin_app, xr_redirect_host = []\<rparr>"

definition sso_demo_answer :: "string \<Rightarrow> string \<Rightarrow> provider_profile" where
  "sso_demo_answer sub email = \<lparr>pf_sub = Some sub, pf_email = Some email, pf_email_verified = JBool True, pf_name = None\<rparr>"

definition sso_demo_config :: sso_config where
  "sso_demo_config = \<lparr>sc_provider = Google, sc_enabled = True, sc_client_id = Some ''c'', sc_client_secret = Some ''k'',
     sc_issuer_url = None, sc_authorization_url = None, sc_token_url = None, sc_userinfo_url = None, sc_scopes = None,
     sc_extra_config = Some (JObj [(''allowed_email_domains'', JArr [JStr ''X.vn'']), (''auto_register_enabled'', JBool True)])\<rparr>"

definition sso_demo_rows :: "(string \<times> sso_account) list \<Rightarrow> sso_db" where
  "sso_demo_rows accounts = \<lparr>db_accounts = accounts, db_links = [],
     db_tenants = (\<lambda>_. None)(sso_demo_tenant := Some \<lparr>tn_active = True, tn_max_users = Some 1,
       tn_domain_admin = None, tn_domain_learner = None\<rparr>),
     db_configs = (\<lambda>t p. if t = sso_demo_tenant \<and> p = Google then Some sso_demo_config else None),
     db_groups = (\<lambda>_. 0), db_demo = (\<lambda>_. False)\<rparr>"

definition sso_demo_start :: "(string \<times> sso_account) list \<Rightarrow> sso_system" where
  "sso_demo_start accounts = \<lparr>sso_rows = sso_demo_rows accounts, sso_phases = (\<lambda>_. No_request)\<rparr>"

definition sso_demo_staff :: "string \<times> sso_account" where
  "sso_demo_staff = (''u1'', \<lparr>sa_tenant = Some sso_demo_tenant, sa_role = ''staff'', sa_active = True,
     sa_email = '' an@X.vn'', sa_username = ''an''\<rparr>)"

lemmas sso_demo_defs = sso_demo_tenant_def sso_demo_request_def sso_demo_answer_def sso_demo_config_def
  sso_demo_rows_def sso_demo_start_def sso_demo_staff_def

definition sso_demo_events :: "sso_event list" where
  "sso_demo_events = Exchange 0 sso_demo_request # Answer 0 (Body (Some ''tok'')) (Body (sso_demo_answer ''s1'' ''An@x.vn''))
     # replicate 6 (Advance 0 ''n'' [])"

text \<open>
  The quota is read without a lock, in a statement of its own before the insert: two first sign-ins that read
  it before either inserts both create an account, so a tenant with one seat ends with two users.
\<close>

definition sso_race_events :: "sso_event list" where
  "sso_race_events =
     [Exchange 0 sso_demo_request, Answer 0 (Body (Some ''tok'')) (Body (sso_demo_answer ''s1'' ''an@x.vn'')),
      Exchange 1 sso_demo_request, Answer 1 (Body (Some ''tok'')) (Body (sso_demo_answer ''s2'' ''ba@x.vn''))]
     @ concat (replicate 5 [Advance 0 ''n0'' [], Advance 1 ''n1'' []])"

lemma quota_race:
  "(let d = sso_rows (foldl sso_step (sso_demo_start []) sso_race_events)
    in current_users d sso_demo_tenant = 2 \<and> map_option tn_max_users (db_tenants d sso_demo_tenant) = Some (Some 1))"
  by code_simp

section \<open>Properties\<close>





text \<open>
  C32: every sign-in ends. Once the provider has answered (or its deadline of 15 seconds has passed), a
  request is finished, with a session or a refusal, after at most 101 of its own statements, whatever the
  other requests and the administrators do between them: the retries of taken user names and of lost races
  do not loop.
\<close>

theorem sso_requests_end:
  assumes "\<not> not_started (sso_phases s r)" "101 \<le> length (filter (is_advance r) es)"
  shows "finished (sso_phases (foldl sso_step s es) r)"
proof -
  have "\<not> not_started (sso_phases (foldl sso_step s es) r)" "steps_left (sso_phases (foldl sso_step s es) r) = 0"
    using run_left [OF assms(1), of es] steps_left_bound [of "sso_phases s r"] assms(2) by simp_all
  then show ?thesis by (rule steps_left_zero)
qed

lemma sso_requests_end_witness:
  "finished (sso_phases (foldl sso_step (foldl sso_step (sso_demo_start []) (take 2 sso_demo_events))
     (replicate 101 (Advance 0 ''n'' []))) 0)"
proof (rule sso_requests_end)
  show "\<not> not_started (sso_phases (foldl sso_step (sso_demo_start []) (take 2 sso_demo_events)) 0)" by code_simp
  show "101 \<le> length (filter (is_advance 0) (replicate 101 (Advance 0 ''n'' [])))"
    by (simp add: is_advance_def)
qed

end
