(* ===== verification/Session_Refresh.thy ===== *)
theory Session_Refresh
  imports Event_System
begin

text \<open>
  The refresh tokens of modules/auth (auth.service.ts \<open>refresh\<close> and \<open>rotateRefreshToken\<close>, the statements
  of auth.repository.ts and auth-revocation.repository.ts, auth-refresh-handoff.store.ts): rotation under a
  row lock, reuse detection with its grace period, the handoff of a successor that was never delivered, and
  the end of all sessions of a user (its revocation row and the rows it revokes become visible together). Any number of requests interleave; a statement that changes many rows
  sees the rows of its start and waits for their locks (READ COMMITTED). A token stands for its hash; times
  are milliseconds of one clock.
\<close>

section \<open>Rows\<close>

record refresh_row =
  rk_user :: string
  rk_revoked :: bool
  rk_revoked_at :: "int option"
  rk_expires_at :: int
  rk_session_id :: "string option"
  rk_demo_mode :: bool

record session_owner =
  ow_role :: string
  ow_active :: bool
  ow_tenant_active :: "bool option"
  ow_demo_account :: bool

type_synonym refresh_rows = "(string \<times> refresh_row) list"

text \<open>A revocation of all sessions of a user: its instant and until when the row is kept.\<close>

type_synonym revocation = "int \<times> int"

definition update_row :: "string \<Rightarrow> (refresh_row \<Rightarrow> refresh_row) \<Rightarrow> refresh_rows \<Rightarrow> refresh_rows" where
  "update_row h f rows = map (\<lambda>(i, k). (i, if i = h then f k else k)) rows"

text \<open>Revoked now; revoked with the earlier time kept (\<open>COALESCE\<close>); revoked at a given instant.\<close>

definition revoke_now :: "int \<Rightarrow> refresh_row \<Rightarrow> refresh_row" where
  "revoke_now now k = k\<lparr>rk_revoked := True, rk_revoked_at := Some now\<rparr>"

definition revoke_keeping_time :: "int \<Rightarrow> refresh_row \<Rightarrow> refresh_row" where
  "revoke_keeping_time now k = k\<lparr>rk_revoked := True,
     rk_revoked_at := (case rk_revoked_at k of None \<Rightarrow> Some now | Some t \<Rightarrow> Some t)\<rparr>"

section \<open>The checks of a rotation\<close>

definition RACE_CONDITION_GRACE_MS :: int where
  "RACE_CONDITION_GRACE_MS = 10000"

datatype revoked_verdict = Session_ended | Reused | Within_grace

text \<open>What a revoked token means: its sessions were ended on purpose, it is reused, or a request raced.\<close>

definition judge_revoked :: "int \<Rightarrow> revocation option \<Rightarrow> refresh_row \<Rightarrow> revoked_verdict" where
  "judge_revoked now revocation k =
     (let revoked_at = (case rk_revoked_at k of None \<Rightarrow> 0 | Some t \<Rightarrow> t);
          session_revoked_at = (case revocation of None \<Rightarrow> 0 | Some (t, until) \<Rightarrow> if now < until then t else 0)
      in if session_revoked_at \<noteq> 0 \<and> revoked_at \<noteq> 0 \<and> revoked_at \<le> session_revoked_at then Session_ended
         else if rk_revoked_at k = None \<or> now - revoked_at > RACE_CONDITION_GRACE_MS then Reused
         else Within_grace)"

datatype live_verdict = Refuse nat | Revoke_and_refuse nat | Rotate

text \<open>The checks of a live token, in their order: expiry, account, tenant, the mode of a demo account.\<close>

definition judge_live :: "int \<Rightarrow> session_owner \<Rightarrow> refresh_row \<Rightarrow> live_verdict" where
  "judge_live now u k =
     (if rk_expires_at k < now then Refuse 401
      else if \<not> ow_active u then Refuse 403
      else if ow_role u \<noteq> ''superadmin'' \<and> ow_tenant_active u = Some False then Refuse 403
      else let demo = ow_role u = ''learner'' \<and> ow_demo_account u
        in if demo \<and> \<not> rk_demo_mode k then Revoke_and_refuse 403
           else if rk_demo_mode k \<and> \<not> demo then Revoke_and_refuse 401
           else Rotate)"

text \<open>The rows a detected reuse ends: all live ones of the user, for a superadmin those of the login only.\<close>

definition reuse_targets :: "refresh_rows \<Rightarrow> session_owner \<Rightarrow> refresh_row \<Rightarrow> string list" where
  "reuse_targets rows u k =
     (if ow_role u = ''superadmin'' \<and> truthy (rk_session_id k)
      then map fst (filter (\<lambda>(_, j). rk_user j = rk_user k \<and> rk_session_id j = rk_session_id k \<and> \<not> rk_revoked j) rows)
      else if ow_role u \<noteq> ''superadmin''
      then map fst (filter (\<lambda>(_, j). rk_user j = rk_user k \<and> \<not> rk_revoked j) rows)
      else [])"

text \<open>The row after a rotation of \<open>k\<close>; a superadmin login keeps its session, or starts one if it has none.\<close>

definition successor_row :: "session_owner \<Rightarrow> refresh_row \<Rightarrow> int \<Rightarrow> string \<Rightarrow> refresh_row" where
  "successor_row u k expires fresh_session =
     \<lparr>rk_user = rk_user k, rk_revoked = False, rk_revoked_at = None, rk_expires_at = expires,
      rk_session_id = (if ow_role u = ''superadmin''
        then Some (if truthy (rk_session_id k) then the (rk_session_id k) else fresh_session) else None),
      rk_demo_mode = rk_demo_mode k\<rparr>"

section \<open>Handoffs\<close>

text \<open>The store of one process: the undelivered successor of a token, for the grace period.\<close>

type_synonym handoffs = "(string \<times> string \<times> int) list"

definition sweepLocal :: "int \<Rightarrow> handoffs \<Rightarrow> handoffs" where
  "sweepLocal at hs = filter (\<lambda>(_, _, expires). \<not> at \<ge> expires) hs"

definition offer :: "int \<Rightarrow> string \<Rightarrow> string \<Rightarrow> handoffs \<Rightarrow> handoffs" where
  "offer at token successor hs = js_map_set token (successor, at + RACE_CONDITION_GRACE_MS) (sweepLocal at hs)"

definition take_handoff :: "int \<Rightarrow> string \<Rightarrow> handoffs \<Rightarrow> string option \<times> handoffs" where
  "take_handoff at token hs = (let kept = sweepLocal at hs in
     case map_of kept token of None \<Rightarrow> (None, kept)
     | Some (successor, _) \<Rightarrow> (Some successor, filter (\<lambda>(t, _). t \<noteq> token) kept))"

section \<open>Requests\<close>

text \<open>
  A request holds the token it was called with, and after a handoff the successor. \<open>Revoking\<close> and \<open>Ending\<close>
  are the statements over many rows, with the rows they saw; \<open>Committed\<close> has rotated \<open>row\<close> into \<open>new\<close> and
  reads the session context; \<open>Delivered\<close> has answered with \<open>new\<close>.
\<close>

datatype refresh_phase =
    No_refresh
  | Wait_row string "string option"
  | Holds_row string "string option"
  | Wait_successor string string
  | Holds_successor string string
  | Rotating string "string option" string session_owner
  | Revoking string "string option" "string list"
  | Taking string
  | Committed string string string
  | Delivered string string string
  | Failed nat
  | Ending string "string list" int int
  | Ended

record refresh_system =
  rs_rows :: refresh_rows
  rs_issued :: "string list"
  rs_owners :: "string \<Rightarrow> session_owner option"
  rs_revocations :: "string \<Rightarrow> revocation option"
  rs_handoffs :: handoffs
  rs_locks :: "(string \<times> nat) list"
  rs_now :: int
  rs_phases :: "nat \<Rightarrow> refresh_phase"

abbreviation lock_of :: "refresh_system \<Rightarrow> string \<Rightarrow> nat option" where
  "lock_of s \<equiv> map_of (rs_locks s)"

definition go :: "nat \<Rightarrow> refresh_phase \<Rightarrow> refresh_system \<Rightarrow> refresh_system" where
  "go r ph s = s\<lparr>rs_phases := (rs_phases s)(r := ph)\<rparr>"

text \<open>The end of a transaction (commit or rollback) releases its row locks.\<close>

definition unlock :: "nat \<Rightarrow> refresh_system \<Rightarrow> refresh_system" where
  "unlock r s = s\<lparr>rs_locks := filter (\<lambda>(_, holder). holder \<noteq> r) (rs_locks s)\<rparr>"

definition end_transaction :: "nat \<Rightarrow> refresh_phase \<Rightarrow> refresh_system \<Rightarrow> refresh_system" where
  "end_transaction r ph s = go r ph (unlock r s)"

definition free_for :: "nat \<Rightarrow> string \<Rightarrow> refresh_system \<Rightarrow> bool" where
  "free_for r h s \<longleftrightarrow> lock_of s h \<in> {None, Some r}"

text \<open>
  \<open>SELECT ... FOR UPDATE\<close>: waits for the lock, then the row is the request's until its transaction ends. A
  hash without a row, and a row whose user is gone, answer nothing.
\<close>

definition lockRefreshTokenRow :: "refresh_system \<Rightarrow> string \<Rightarrow> (refresh_row \<times> session_owner) option" where
  "lockRefreshTokenRow s h = (case map_of (rs_rows s) h of None \<Rightarrow> None
     | Some k \<Rightarrow> (case rs_owners s (rk_user k) of None \<Rightarrow> None | Some u \<Rightarrow> Some (k, u)))"

text \<open>The live checks of the row a transaction will rotate, and what each verdict does.\<close>

definition decide_live :: "nat \<Rightarrow> string \<Rightarrow> string option \<Rightarrow> string \<Rightarrow> refresh_row \<Rightarrow> session_owner \<Rightarrow> refresh_system \<Rightarrow> refresh_system" where
  "decide_live r token succ row k u s = (case judge_live (rs_now s) u k of
     Refuse e \<Rightarrow> end_transaction r (Failed e) s
   | Revoke_and_refuse e \<Rightarrow> end_transaction r (Failed e) (s\<lparr>rs_rows := update_row row (revoke_keeping_time (rs_now s)) (rs_rows s)\<rparr>)
   | Rotate \<Rightarrow> go r (Rotating token succ row u) s)"

text \<open>The token row is locked: the checks of \<open>rotateRefreshToken\<close> up to the successor.\<close>

definition decide_row :: "nat \<Rightarrow> string \<Rightarrow> string option \<Rightarrow> refresh_system \<Rightarrow> refresh_system" where
  "decide_row r token succ s = (case lockRefreshTokenRow s token of
     None \<Rightarrow> end_transaction r (Failed 401) s
   | Some (k, u) \<Rightarrow>
       if \<not> rk_revoked k then decide_live r token succ token k u s
       else (case judge_revoked (rs_now s) (rs_revocations s (rk_user k)) k of
           Session_ended \<Rightarrow> end_transaction r (Failed 401) s
         | Reused \<Rightarrow> go r (Revoking token succ (reuse_targets (rs_rows s) u k)) s
         | Within_grace \<Rightarrow> (case succ of
             None \<Rightarrow> end_transaction r (Taking token) s
           | Some h \<Rightarrow> go r (Wait_successor token h) s)))"

text \<open>Both rows are locked: an undelivered successor of the same user that is still live is rotated instead.\<close>

definition decide_successor :: "nat \<Rightarrow> string \<Rightarrow> string \<Rightarrow> refresh_system \<Rightarrow> refresh_system" where
  "decide_successor r token succ s = (case (map_of (rs_rows s) token, lockRefreshTokenRow s succ) of
     (Some k, Some (j, u)) \<Rightarrow>
       if rk_revoked j \<or> rk_user j \<noteq> rk_user k then end_transaction r (Failed 401) s
       else decide_live r token (Some succ) succ j u s
   | _ \<Rightarrow> end_transaction r (Failed 401) s)"

text \<open>Revoke and insert, committed together; the answer still needs the session context.\<close>

definition commit_rotation ::
    "nat \<Rightarrow> string \<Rightarrow> string \<Rightarrow> session_owner \<Rightarrow> string \<Rightarrow> int \<Rightarrow> string \<Rightarrow> refresh_system \<Rightarrow> refresh_system" where
  "commit_rotation r token row u new expires fresh_session s = (case lockRefreshTokenRow s row of
     None \<Rightarrow> end_transaction r (Failed 500) s
   | Some (k, _) \<Rightarrow> end_transaction r (Committed token row new)
       (s\<lparr>rs_rows := update_row row (revoke_now (rs_now s)) (rs_rows s) @ [(new, successor_row u k expires fresh_session)],
          rs_issued := new # rs_issued s\<rparr>))"

definition revoke_targets :: "(refresh_row \<Rightarrow> refresh_row) \<Rightarrow> string list \<Rightarrow> refresh_rows \<Rightarrow> refresh_rows" where
  "revoke_targets f targets rows = map (\<lambda>(i, k). (i, if i \<in> set targets \<and> \<not> rk_revoked k then f k else k)) rows"

definition record_revocation :: "int \<Rightarrow> int \<Rightarrow> revocation option \<Rightarrow> revocation option" where
  "record_revocation at until old = (case old of None \<Rightarrow> Some (at, until) | Some (a, b) \<Rightarrow> Some (max a at, max b until))"

text \<open>The next step of a request. A statement that has to wait for a lock stays where it is.\<close>

definition refresh_advance :: "nat \<Rightarrow> string \<Rightarrow> int \<Rightarrow> string \<Rightarrow> refresh_system \<Rightarrow> refresh_system" where
  "refresh_advance r new expires fresh_session s = (case rs_phases s r of
     Wait_row token succ \<Rightarrow>
       if free_for r token s then go r (Holds_row token succ) (s\<lparr>rs_locks := (token, r) # rs_locks s\<rparr>) else s
   | Holds_row token succ \<Rightarrow> decide_row r token succ s
   | Wait_successor token succ \<Rightarrow>
       if free_for r succ s then go r (Holds_successor token succ) (s\<lparr>rs_locks := (succ, r) # rs_locks s\<rparr>) else s
   | Holds_successor token succ \<Rightarrow> decide_successor r token succ s
   | Rotating token succ row u \<Rightarrow>
       if new \<in> set (rs_issued s) then s else commit_rotation r token row u new expires fresh_session s
   | Revoking token succ targets \<Rightarrow>
       if list_all (\<lambda>h. free_for r h s) targets
       then end_transaction r (Failed 401) (s\<lparr>rs_rows := revoke_targets (revoke_keeping_time (rs_now s)) targets (rs_rows s)\<rparr>) else s
   | Taking token \<Rightarrow> (case take_handoff (rs_now s) token (rs_handoffs s) of
       (None, hs) \<Rightarrow> go r (Failed 401) (s\<lparr>rs_handoffs := hs\<rparr>)
     | (Some succ, hs) \<Rightarrow> go r (Wait_row token (Some succ)) (s\<lparr>rs_handoffs := hs\<rparr>))
   | Committed token row new' \<Rightarrow> go r (Delivered token row new') s
   | Ending user targets at until \<Rightarrow>
       if list_all (\<lambda>h. free_for r h s) targets
       then end_transaction r Ended (s\<lparr>rs_rows := revoke_targets (revoke_now at) targets (rs_rows s),
         rs_revocations := (rs_revocations s)(user := record_revocation at until (rs_revocations s user))\<rparr>) else s
   | _ \<Rightarrow> s)"

text \<open>
  A database failure rolls back; the second attempt puts the handoff back. A failed read of the session
  context offers the successor that was not delivered.
\<close>

definition refresh_fails :: "nat \<Rightarrow> refresh_system \<Rightarrow> refresh_system" where
  "refresh_fails r s =
     (let retry = (\<lambda>token succ. case succ of
         None \<Rightarrow> end_transaction r (Failed 500) s
       | Some h \<Rightarrow> end_transaction r (Failed 500) (s\<lparr>rs_handoffs := offer (rs_now s) token h (rs_handoffs s)\<rparr>))
      in case rs_phases s r of
        Wait_row token succ \<Rightarrow> retry token succ
      | Holds_row token succ \<Rightarrow> retry token succ
      | Wait_successor token succ \<Rightarrow> retry token (Some succ)
      | Holds_successor token succ \<Rightarrow> retry token (Some succ)
      | Rotating token succ row u \<Rightarrow> retry token succ
      | Revoking token succ targets \<Rightarrow> retry token succ
      | Committed token row new \<Rightarrow> go r (Failed 503) (s\<lparr>rs_handoffs := offer (rs_now s) token new (rs_handoffs s)\<rparr>)
      | Ending user targets at until \<Rightarrow> end_transaction r (Failed 500) s
      | _ \<Rightarrow> s)"

section \<open>The runs\<close>

text \<open>
  \<open>rs_issued\<close> are the hashes given out so far: a random token never repeats. \<open>Login\<close> inserts the first token
  of a session; \<open>End_sessions\<close> starts the transaction of \<open>recordUserSessionRevocation\<close>; \<open>Logout\<close> revokes one
  token; \<open>Cleanup\<close> deletes expired rows and rows revoked more than a day ago.
\<close>

datatype refresh_event =
    Login string string "string option" bool
  | Refresh nat string
  | Step nat string string
  | Fails nat
  | End_sessions nat string
  | Logout string
  | Cleanup
  | Owner string "session_owner option"
  | Clock int

definition one_day_ms :: int where
  "one_day_ms = 86400000"

definition expired_row :: "refresh_system \<Rightarrow> string \<times> refresh_row \<Rightarrow> bool" where
  "expired_row s x \<longleftrightarrow> lock_of s (fst x) = None \<and> (rk_expires_at (snd x) < rs_now s
     \<or> (rk_revoked (snd x) \<and> (case rk_revoked_at (snd x) of None \<Rightarrow> False | Some t \<Rightarrow> t < rs_now s - one_day_ms)))"

fun refresh_step :: "int \<Rightarrow> refresh_system \<Rightarrow> refresh_event \<Rightarrow> refresh_system" where
  "refresh_step life s (Login user new session demo) =
     (if new \<in> set (rs_issued s) then s
      else s\<lparr>rs_rows := rs_rows s @ [(new, \<lparr>rk_user = user, rk_revoked = False, rk_revoked_at = None,
               rk_expires_at = rs_now s + life, rk_session_id = session, rk_demo_mode = demo\<rparr>)],
             rs_issued := new # rs_issued s\<rparr>)"
| "refresh_step life s (Refresh r token) = (if rs_phases s r = No_refresh then go r (Wait_row token None) s else s)"
| "refresh_step life s (Step r new session) = refresh_advance r new (rs_now s + life) session s"
| "refresh_step life s (Fails r) = refresh_fails r s"
| "refresh_step life s (End_sessions r user) = (if rs_phases s r = No_refresh
     then go r (Ending user (map fst (filter (\<lambda>(_, k). rk_user k = user \<and> \<not> rk_revoked k) (rs_rows s)))
       (rs_now s) (rs_now s + life + 60000)) s
     else s)"
| "refresh_step life s (Logout token) = (if lock_of s token = None
     then s\<lparr>rs_rows := update_row token (revoke_now (rs_now s)) (rs_rows s)\<rparr> else s)"
| "refresh_step life s Cleanup = s\<lparr>rs_rows := filter (\<lambda>x. \<not> expired_row s x) (rs_rows s)\<rparr>"
| "refresh_step life s (Owner user u) = s\<lparr>rs_owners := (rs_owners s)(user := u)\<rparr>"
| "refresh_step life s (Clock d) = s\<lparr>rs_now := rs_now s + max 0 d\<rparr>"

section \<open>What the steps do to the rows\<close>

definition live_row :: "refresh_rows \<Rightarrow> string \<Rightarrow> bool" where
  "live_row rows h \<longleftrightarrow> (\<exists>k. map_of rows h = Some k \<and> \<not> rk_revoked k)"

lemma map_of_update_row: "map_of (update_row h f rows) i = (if i = h then map_option f (map_of rows i) else map_of rows i)"
  by (induction rows) (auto simp: update_row_def)

lemma fst_update_row [simp]: "map fst (update_row h f rows) = map fst rows"
  by (auto simp: update_row_def)

lemma map_of_revoke_targets: "map_of (revoke_targets f ts rows) i
    = map_option (\<lambda>k. if i \<in> set ts \<and> \<not> rk_revoked k then f k else k) (map_of rows i)"
  by (induction rows) (auto simp: revoke_targets_def)

lemma fst_revoke_targets [simp]: "map fst (revoke_targets f ts rows) = map fst rows"
  by (auto simp: revoke_targets_def)

lemma revoking [simp]: "rk_revoked (revoke_now t k)" "rk_revoked (revoke_keeping_time t k)"
  by (simp_all add: revoke_now_def revoke_keeping_time_def)

lemma live_update_row: "(\<And>k. rk_revoked (f k)) \<Longrightarrow> live_row (update_row h f rows) i \<longleftrightarrow> i \<noteq> h \<and> live_row rows i"
  by (auto simp: live_row_def map_of_update_row)

lemma live_revoke_targets:
  "(\<And>k. rk_revoked (f k)) \<Longrightarrow> live_row (revoke_targets f ts rows) i \<longleftrightarrow> i \<notin> set ts \<and> live_row rows i"
  by (auto simp: live_row_def map_of_revoke_targets split: if_splits)

lemma live_filter: "distinct (map fst rows) \<Longrightarrow> live_row (filter P rows) i \<Longrightarrow> live_row rows i"
  by (fastforce simp: live_row_def map_of_eq_Some_iff distinct_map_filter)

lemma live_append_new:
  "\<not> rk_revoked k \<Longrightarrow> h \<notin> fst ` set rows \<Longrightarrow> live_row (rows @ [(h, k)]) i \<longleftrightarrow> i = h \<or> live_row rows i"
  by (auto simp: live_row_def map_add_def map_of_eq_None_iff [symmetric] split: option.split)

lemma live_row_member: "live_row rows h \<Longrightarrow> h \<in> fst ` set rows"
  by (force simp: live_row_def dest: map_of_SomeD)

section \<open>The invariant\<close>

text \<open>The locks a request holds, the successor it brings along, and the rotation it has committed.\<close>

definition held :: "refresh_phase \<Rightarrow> string set" where
  "held ph = (case ph of Holds_row t _ \<Rightarrow> {t} | Wait_successor t _ \<Rightarrow> {t} | Holds_successor t h \<Rightarrow> {t, h}
     | Rotating t _ row _ \<Rightarrow> {t, row} | Revoking t _ _ \<Rightarrow> {t} | _ \<Rightarrow> {})"

definition carries :: "refresh_phase \<Rightarrow> (string \<times> string) set" where
  "carries ph = (case ph of Wait_row t (Some h) \<Rightarrow> {(t, h)} | Holds_row t (Some h) \<Rightarrow> {(t, h)}
     | Wait_successor t h \<Rightarrow> {(t, h)} | Holds_successor t h \<Rightarrow> {(t, h)}
     | Rotating t (Some h) _ _ \<Rightarrow> {(t, h)} | Revoking t (Some h) _ \<Rightarrow> {(t, h)} | _ \<Rightarrow> {})"

definition rotation :: "refresh_phase \<Rightarrow> (string \<times> string \<times> string) option" where
  "rotation ph = (case ph of Committed t row new \<Rightarrow> Some (t, row, new) | Delivered t row new \<Rightarrow> Some (t, row, new) | _ \<Rightarrow> None)"

definition offered :: "handoffs \<Rightarrow> (string \<times> string) set" where
  "offered hs = (\<lambda>(t, h, _). (t, h)) ` set hs"

definition in_hand :: "refresh_system \<Rightarrow> (string \<times> string) set" where
  "in_hand s = offered (rs_handoffs s) \<union> (\<Union>r. carries (rs_phases s r))"

definition undelivered :: "refresh_system \<Rightarrow> string \<Rightarrow> bool" where
  "undelivered s h \<longleftrightarrow> (\<forall>r t row. rotation (rs_phases s r) \<noteq> Some (t, row, h))"

definition locks_held :: "refresh_system \<Rightarrow> bool" where
  "locks_held s \<longleftrightarrow> (\<forall>r. \<forall>h \<in> held (rs_phases s r). lock_of s h = Some r)"

definition rows_known :: "refresh_system \<Rightarrow> bool" where
  "rows_known s \<longleftrightarrow> distinct (map fst (rs_rows s)) \<and> fst ` set (rs_rows s) \<subseteq> set (rs_issued s)"

definition rotating_live :: "refresh_system \<Rightarrow> bool" where
  "rotating_live s \<longleftrightarrow> (\<forall>r t succ row u. rs_phases s r = Rotating t succ row u \<longrightarrow>
     live_row (rs_rows s) row \<and> (row = t \<or> succ = Some row))"

definition rotated_dead :: "refresh_system \<Rightarrow> bool" where
  "rotated_dead s \<longleftrightarrow> (\<forall>r t row new. rotation (rs_phases s r) = Some (t, row, new) \<longrightarrow>
     \<not> live_row (rs_rows s) row \<and> row \<in> set (rs_issued s) \<and> new \<in> set (rs_issued s) \<and> (row = t \<or> undelivered s row))"

definition rotations_unique :: "refresh_system \<Rightarrow> bool" where
  "rotations_unique s \<longleftrightarrow> (\<forall>r r' t row new t' row' new'. r \<noteq> r' \<longrightarrow> rotation (rs_phases s r) = Some (t, row, new) \<longrightarrow>
     rotation (rs_phases s r') = Some (t', row', new') \<longrightarrow> row \<noteq> row' \<and> new \<noteq> new')"

definition hands_undelivered :: "refresh_system \<Rightarrow> bool" where
  "hands_undelivered s \<longleftrightarrow> (\<forall>t h. (t, h) \<in> in_hand s \<longrightarrow> h \<in> set (rs_issued s) \<and> undelivered s h)"

definition refresh_inv :: "refresh_system \<Rightarrow> bool" where
  "refresh_inv s \<longleftrightarrow> locks_held s \<and> rows_known s \<and> rotating_live s \<and> rotated_dead s \<and> rotations_unique s \<and> hands_undelivered s"

lemma invD:
  assumes "refresh_inv s"
  shows "h \<in> held (rs_phases s r) \<Longrightarrow> lock_of s h = Some r" "distinct (map fst (rs_rows s))"
    "fst ` set (rs_rows s) \<subseteq> set (rs_issued s)"
    "rs_phases s r = Rotating t succ row u \<Longrightarrow> live_row (rs_rows s) row \<and> (row = t \<or> succ = Some row)"
    "rotation (rs_phases s r) = Some (t, row, new) \<Longrightarrow>
       \<not> live_row (rs_rows s) row \<and> row \<in> set (rs_issued s) \<and> new \<in> set (rs_issued s) \<and> (row = t \<or> undelivered s row)"
    "r \<noteq> r' \<Longrightarrow> rotation (rs_phases s r) = Some (t, row, new) \<Longrightarrow> rotation (rs_phases s r') = Some (t', row', new') \<Longrightarrow>
       row \<noteq> row' \<and> new \<noteq> new'"
    "(t, h) \<in> in_hand s \<Longrightarrow> h \<in> set (rs_issued s) \<and> undelivered s h"
proof -
  from assms have I: "locks_held s" "rows_known s" "rotating_live s" "rotated_dead s" "rotations_unique s" "hands_undelivered s"
    by (simp_all add: refresh_inv_def)
  show "h \<in> held (rs_phases s r) \<Longrightarrow> lock_of s h = Some r" using I(1) by (simp add: locks_held_def)
  show "distinct (map fst (rs_rows s))" "fst ` set (rs_rows s) \<subseteq> set (rs_issued s)" using I(2) by (simp_all add: rows_known_def)
  show "rs_phases s r = Rotating t succ row u \<Longrightarrow> live_row (rs_rows s) row \<and> (row = t \<or> succ = Some row)"
    using I(3) unfolding rotating_live_def by blast
  show "rotation (rs_phases s r) = Some (t, row, new) \<Longrightarrow>
       \<not> live_row (rs_rows s) row \<and> row \<in> set (rs_issued s) \<and> new \<in> set (rs_issued s) \<and> (row = t \<or> undelivered s row)"
    using I(4) unfolding rotated_dead_def by blast
  show "r \<noteq> r' \<Longrightarrow> rotation (rs_phases s r) = Some (t, row, new) \<Longrightarrow> rotation (rs_phases s r') = Some (t', row', new') \<Longrightarrow>
       row \<noteq> row' \<and> new \<noteq> new'" using I(5) unfolding rotations_unique_def by blast
  show "(t, h) \<in> in_hand s \<Longrightarrow> h \<in> set (rs_issued s) \<and> undelivered s h" using I(6) by (simp add: hands_undelivered_def)
qed

text \<open>
  One request moves, and the rows, the locks and the handoffs change with it: what has to hold for the
  invariant to stay.
\<close>

definition rotates :: "refresh_phase \<Rightarrow> refresh_phase \<Rightarrow> refresh_system \<Rightarrow> refresh_system \<Rightarrow> bool" where
  "rotates ph ph' s s' \<longleftrightarrow> (\<exists>t succ row u new. ph = Rotating t succ row u \<and> ph' = Committed t row new
     \<and> new \<notin> set (rs_issued s) \<and> new \<in> set (rs_issued s') \<and> \<not> live_row (rs_rows s') row)"

lemma inv_move:
  assumes inv: "refresh_inv s" and ph: "rs_phases s' = (rs_phases s)(r := ph')"
    and own_locks: "\<And>h. h \<in> held ph' \<Longrightarrow> lock_of s' h = Some r"
    and other_locks: "\<And>h r'. r' \<noteq> r \<Longrightarrow> lock_of s h = Some r' \<Longrightarrow> lock_of s' h = Some r'"
    and ids: "distinct (map fst (rs_rows s'))" "fst ` set (rs_rows s') \<subseteq> set (rs_issued s')"
      "set (rs_issued s) \<subseteq> set (rs_issued s')"
    and dead: "\<And>h. h \<in> set (rs_issued s) \<Longrightarrow> live_row (rs_rows s') h \<Longrightarrow> live_row (rs_rows s) h"
    and live: "\<And>h r'. r' \<noteq> r \<Longrightarrow> lock_of s h = Some r' \<Longrightarrow> live_row (rs_rows s) h \<Longrightarrow> live_row (rs_rows s') h"
    and rotating: "\<And>t succ row u. ph' = Rotating t succ row u \<Longrightarrow> live_row (rs_rows s') row \<and> (row = t \<or> succ = Some row)"
    and result: "rotation ph' = None \<or> rotation ph' = rotation (rs_phases s r) \<or> rotates (rs_phases s r) ph' s s'"
    and hand: "\<And>t h. (t, h) \<in> offered (rs_handoffs s') \<union> carries ph' \<Longrightarrow>
      (t, h) \<in> in_hand s \<or> (rotation ph' = None \<and> (\<exists>t' row. rotation (rs_phases s r) = Some (t', row, h)))"
  shows "refresh_inv s'"
proof -
  note D = invD [OF inv]
  have old: "row \<in> set (rs_issued s)" if "rs_phases s r = Rotating t succ row u" for t succ row u
    using D(4) [OF that] live_row_member D(3) by blast
  have results: "(r' \<noteq> r \<and> rotation (rs_phases s r') = Some (t, row, new))
      \<or> (r' = r \<and> rotation (rs_phases s r) = Some (t, row, new))
      \<or> (r' = r \<and> rotates (rs_phases s r) ph' s s' \<and> ph' = Committed t row new)"
    if "rotation (rs_phases s' r') = Some (t, row, new)" for r' t row new
    using that result by (auto simp: ph rotates_def rotation_def split: if_splits)
  have still_undelivered: "undelivered s' h" if "h \<in> set (rs_issued s)" "undelivered s h" for h
    using that results unfolding undelivered_def rotates_def by (metis refresh_phase.inject(8))
  show ?thesis unfolding refresh_inv_def
  proof (intro conjI)
    show "locks_held s'" unfolding locks_held_def
    proof (intro allI ballI)
      fix r' h assume "h \<in> held (rs_phases s' r')"
      then show "lock_of s' h = Some r'" using own_locks other_locks D(1) by (cases "r' = r") (auto simp: ph)
    qed
    show "rows_known s'" by (simp add: rows_known_def ids(1,2))
    show "rotating_live s'" unfolding rotating_live_def
    proof (intro allI impI)
      fix r' t succ row u assume that: "rs_phases s' r' = Rotating t succ row u"
      show "live_row (rs_rows s') row \<and> (row = t \<or> succ = Some row)"
      proof (cases "r' = r")
        case False
        then have "rs_phases s r' = Rotating t succ row u" using that by (simp add: ph)
        then show ?thesis using False live D(4) D(1) [of row r'] by (auto simp: held_def)
      qed (use that rotating in \<open>auto simp: ph\<close>)
    qed
    show "rotated_dead s'" unfolding rotated_dead_def
    proof (intro allI impI)
      fix r' t row new assume res: "rotation (rs_phases s' r') = Some (t, row, new)"
      consider (old) "rotation (rs_phases s r') = Some (t, row, new)"
        | (new) "r' = r" "rotates (rs_phases s r) ph' s s'" "ph' = Committed t row new"
        using results [OF res] by blast
      then show "\<not> live_row (rs_rows s') row \<and> row \<in> set (rs_issued s') \<and> new \<in> set (rs_issued s')
          \<and> (row = t \<or> undelivered s' row)"
      proof cases
        case old
        then show ?thesis using D(5) [OF old] dead ids(3) still_undelivered by blast
      next
        case new
        then obtain succ u where rot: "rs_phases s r = Rotating t succ row u" and more: "new \<in> set (rs_issued s')"
            "\<not> live_row (rs_rows s') row" by (auto simp: rotates_def)
        have "row = t \<or> (t, row) \<in> in_hand s"
          using D(4) [OF rot] rot by (auto simp: in_hand_def carries_def intro!: exI [of _ r])
        then show ?thesis using more old [OF rot] ids(3) D(7) still_undelivered by blast
      qed
    qed
    show "rotations_unique s'" unfolding rotations_unique_def
    proof (intro allI impI)
      fix r1 r2 t row new t' row' new'
      assume ne: "r1 \<noteq> r2" and res: "rotation (rs_phases s' r1) = Some (t, row, new)" "rotation (rs_phases s' r2) = Some (t', row', new')"
      have fresh: "row1 \<noteq> row2 \<and> new1 \<noteq> new2" if "rotates (rs_phases s r) ph' s s'" "ph' = Committed t1 row1 new1"
          "rotation (rs_phases s r') = Some (t2, row2, new2)" for r' t1 row1 new1 t2 row2 new2
      proof -
        from that obtain succ u where "rs_phases s r = Rotating t1 succ row1 u" "new1 \<notin> set (rs_issued s)" by (auto simp: rotates_def)
        then show ?thesis using D(4) D(5) [OF that(3)] by blast
      qed
      show "row \<noteq> row' \<and> new \<noteq> new'"
        using results [OF res(1)] results [OF res(2)] ne fresh D(6) [OF ne] by metis
    qed
    show "hands_undelivered s'" unfolding hands_undelivered_def
    proof (intro allI impI)
      fix t h assume "(t, h) \<in> in_hand s'"
      then have "(t, h) \<in> in_hand s \<or> (t, h) \<in> offered (rs_handoffs s') \<union> carries ph'"
        by (auto simp: in_hand_def ph split: if_splits)
      with hand consider (old) "(t, h) \<in> in_hand s"
        | (new) t' row where "rotation ph' = None" "rotation (rs_phases s r) = Some (t', row, h)" by blast
      then show "h \<in> set (rs_issued s') \<and> undelivered s' h"
      proof cases
        case old
        then show ?thesis using D(7) [OF old] still_undelivered ids(3) by blast
      next
        case new
        have "rotation (rs_phases s' r') \<noteq> Some (t2, row2, h)" for r' t2 row2
          using D(6) [of r r' t' row h t2 row2 h] new by (cases "r' = r") (auto simp: ph)
        then show ?thesis using D(5) [OF new(2)] ids(3) by (auto simp: undelivered_def)
      qed
    qed
  qed
qed

lemma other_locks_unlock: "r' \<noteq> r \<Longrightarrow> lock_of s h = Some r' \<Longrightarrow> lock_of (unlock r s) h = Some r'"
proof -
  have "map_of (filter (\<lambda>(_, holder). holder \<noteq> r) ls) h = Some r'" if "map_of ls h = Some r'" "r' \<noteq> r" for ls :: "(string \<times> nat) list"
    using that by (induction ls) (auto split: if_splits)
  then show "r' \<noteq> r \<Longrightarrow> lock_of s h = Some r' \<Longrightarrow> lock_of (unlock r s) h = Some r'" by (simp add: unlock_def)
qed

lemma finish_sel [simp]: "rs_rows (end_transaction r ph s) = rs_rows s" "rs_issued (end_transaction r ph s) = rs_issued s"
  "rs_handoffs (end_transaction r ph s) = rs_handoffs s" "rs_phases (end_transaction r ph s) = (rs_phases s)(r := ph)"
  by (simp_all add: end_transaction_def go_def unlock_def)

lemma other_locks_finish: "r' \<noteq> r \<Longrightarrow> lock_of s h = Some r' \<Longrightarrow> lock_of (end_transaction r ph s) h = Some r'"
  using other_locks_unlock [of r' r s h] by (simp add: end_transaction_def go_def)

text \<open>A request that only changes its phase, with or without the end of its transaction.\<close>

lemma inv_go:
  assumes "refresh_inv s" "held ph' \<subseteq> held (rs_phases s r)" "rotation ph' = None \<or> rotation ph' = rotation (rs_phases s r)"
    "\<And>t succ row u. ph' = Rotating t succ row u \<Longrightarrow> live_row (rs_rows s) row \<and> (row = t \<or> succ = Some row)"
    "carries ph' \<subseteq> carries (rs_phases s r)"
  shows "refresh_inv (go r ph' s)"
  by (rule inv_move [where s = s and r = r and ph' = ph']) (use assms invD [OF assms(1)] in
    \<open>auto simp: go_def in_hand_def intro: exI [of _ r]\<close>)

text \<open>The end of a transaction that revoked rows no other request holds.\<close>

lemma inv_finish:
  assumes inv: "refresh_inv s" and idle: "held ph' = {}" "rotation ph' = None" "carries ph' = {}"
    and rows: "map fst rows' = map fst (rs_rows s)"
      "\<And>h. live_row rows' h \<Longrightarrow> live_row (rs_rows s) h"
      "\<And>h. live_row (rs_rows s) h \<Longrightarrow> \<not> live_row rows' h \<Longrightarrow> free_for r h s"
    and hand: "offered hs \<subseteq> in_hand s"
  shows "refresh_inv (end_transaction r ph' (s\<lparr>rs_rows := rows', rs_handoffs := hs, rs_revocations := rv\<rparr>))"
proof (rule inv_move [where s = s and r = r and ph' = ph', OF inv])
  have "fst ` set rows' = fst ` set (rs_rows s)" using rows(1) by (metis list.set_map)
  then show "distinct (map fst (rs_rows (end_transaction r ph' (s\<lparr>rs_rows := rows', rs_handoffs := hs, rs_revocations := rv\<rparr>))))"
    "fst ` set (rs_rows (end_transaction r ph' (s\<lparr>rs_rows := rows', rs_handoffs := hs, rs_revocations := rv\<rparr>)))
      \<subseteq> set (rs_issued (end_transaction r ph' (s\<lparr>rs_rows := rows', rs_handoffs := hs, rs_revocations := rv\<rparr>)))"
    using invD(2,3) [OF inv] rows(1) by simp_all
  show "live_row (rs_rows (end_transaction r ph' (s\<lparr>rs_rows := rows', rs_handoffs := hs, rs_revocations := rv\<rparr>))) h"
    if "r' \<noteq> r" "lock_of s h = Some r'" "live_row (rs_rows s) h" for h r'
    using rows(3) [of h] that by (auto simp: free_for_def)
  show "lock_of (end_transaction r ph' (s\<lparr>rs_rows := rows', rs_handoffs := hs, rs_revocations := rv\<rparr>)) h = Some r'"
    if "r' \<noteq> r" "lock_of s h = Some r'" for h r'
    using other_locks_finish [of r' r "s\<lparr>rs_rows := rows', rs_handoffs := hs, rs_revocations := rv\<rparr>" h] that by simp
qed (use idle rows hand in \<open>auto simp: held_def carries_def\<close>)

text \<open>A change of rows by a statement that belongs to no request.\<close>

lemma inv_rows:
  assumes inv: "refresh_inv s" and same: "rs_phases s' = rs_phases s" "rs_locks s' = rs_locks s" "rs_handoffs s' = rs_handoffs s"
    and ids: "distinct (map fst (rs_rows s'))" "fst ` set (rs_rows s') \<subseteq> set (rs_issued s')" "set (rs_issued s) \<subseteq> set (rs_issued s')"
    and rows: "\<And>h. h \<in> set (rs_issued s) \<Longrightarrow> live_row (rs_rows s') h \<Longrightarrow> live_row (rs_rows s) h"
      "\<And>h. live_row (rs_rows s) h \<Longrightarrow> lock_of s h \<noteq> None \<Longrightarrow> live_row (rs_rows s') h"
  shows "refresh_inv s'"
proof (rule inv_move [where s = s and r = 0 and ph' = "rs_phases s 0", OF inv])
  show "live_row (rs_rows s') row \<and> (row = t \<or> succ = Some row)" if "rs_phases s 0 = Rotating t succ row u" for t succ row u
    using invD(4) [OF inv that] invD(1) [OF inv, of row 0] rows(2) that by (auto simp: held_def)
qed (use same ids rows invD(1) [OF inv] in \<open>auto simp: in_hand_def\<close>)

lemma offered_iff: "(t, h) \<in> offered hs \<longleftrightarrow> (\<exists>e. (t, h, e) \<in> set hs)"
  by (force simp: offered_def)

lemma offered_sweep: "offered (sweepLocal at hs) \<subseteq> offered hs"
  by (rule subrelI) (auto simp: offered_iff sweepLocal_def)

lemma offered_offer: "offered (offer at t h hs) \<subseteq> insert (t, h) (offered hs)"
proof (rule subrelI)
  fix a b assume "(a, b) \<in> offered (offer at t h hs)"
  then obtain e where "(a, b, e) \<in> set (js_map_set t (h, at + RACE_CONDITION_GRACE_MS) (sweepLocal at hs))"
    by (auto simp: offered_iff offer_def)
  then have "(a, b, e) \<in> insert (t, h, at + RACE_CONDITION_GRACE_MS) (set (sweepLocal at hs))"
    by (rule subsetD [OF set_js_map_set])
  then show "(a, b) \<in> insert (t, h) (offered hs)" by (auto simp: offered_iff sweepLocal_def)
qed

lemma offered_take:
  assumes "take_handoff at t hs = (found, hs')"
  shows "offered hs' \<subseteq> offered hs" "found = Some h \<Longrightarrow> (t, h) \<in> offered hs"
proof -
  from assms have "set hs' \<subseteq> set hs" by (auto simp: take_handoff_def Let_def sweepLocal_def split: option.splits)
  then show "offered hs' \<subseteq> offered hs" unfolding offered_def by (rule image_mono)
  show "(t, h) \<in> offered hs" if "found = Some h"
  proof -
    from assms that obtain e where "map_of (sweepLocal at hs) t = Some (h, e)"
      by (auto simp: take_handoff_def Let_def split: option.splits)
    from map_of_SomeD [OF this] show ?thesis by (auto simp: offered_iff sweepLocal_def)
  qed
qed

text \<open>Every step of a request keeps the invariant.\<close>

lemma inv_refused: "refresh_inv s \<Longrightarrow> refresh_inv (end_transaction r (Failed e) s)"
  using inv_finish [of s "Failed e" "rs_rows s" r "rs_handoffs s" "rs_revocations s"]
  by (simp add: held_def rotation_def carries_def in_hand_def)

lemma inv_decide_live:
  assumes inv: "refresh_inv s" and live: "live_row (rs_rows s) row" and own: "row = token \<or> succ = Some row"
    and held: "{token, row} \<subseteq> held (rs_phases s r)" and hand: "carries (Rotating token succ row u) \<subseteq> carries (rs_phases s r)"
  shows "refresh_inv (decide_live r token succ row k u s)"
proof (cases "judge_live (rs_now s) u k")
  case (Revoke_and_refuse e)
  have "lock_of s row = Some r" using invD(1) [OF inv] held by blast
  then have "refresh_inv (end_transaction r (Failed e) (s\<lparr>rs_rows := update_row row (revoke_keeping_time (rs_now s)) (rs_rows s),
      rs_handoffs := rs_handoffs s, rs_revocations := rs_revocations s\<rparr>))"
    by (intro inv_finish [OF inv]) (auto simp: held_def rotation_def carries_def live_update_row free_for_def in_hand_def)
  then show ?thesis by (simp add: decide_live_def Revoke_and_refuse)
next
  case Rotate
  then show ?thesis using inv_go [OF inv, of "Rotating token succ row u" r] live own held hand
    by (simp add: decide_live_def) (auto simp: held_def [of "Rotating _ _ _ _"] rotation_def)
qed (simp add: decide_live_def inv_refused [OF inv])

lemma locked_row: "lockRefreshTokenRow s h = Some (k, u) \<Longrightarrow> map_of (rs_rows s) h = Some k"
  by (auto simp: lockRefreshTokenRow_def split: option.splits)

lemma inv_decide_row:
  assumes inv: "refresh_inv s" and ph: "rs_phases s r = Holds_row token succ"
  shows "refresh_inv (decide_row r token succ s)"
proof (cases "lockRefreshTokenRow s token")
  case (Some p)
  obtain k u where p: "lockRefreshTokenRow s token = Some (k, u)" using Some by (cases p) auto
  show ?thesis
  proof (cases "rk_revoked k")
    case False
    then have "live_row (rs_rows s) token" using locked_row [OF p] by (simp add: live_row_def)
    then have "refresh_inv (decide_live r token succ token k u s)"
      by (intro inv_decide_live [OF inv]) (auto simp: ph held_def carries_def split: option.splits)
    then show ?thesis using False by (simp add: decide_row_def p)
  next
    case True
    have "refresh_inv (go r (Revoking token succ ts) s)" for ts
      by (rule inv_go [OF inv]) (auto simp: ph held_def rotation_def carries_def split: option.splits)
    moreover have "refresh_inv (go r (Wait_successor token h) s)" if "succ = Some h" for h
      by (rule inv_go [OF inv]) (auto simp: ph held_def rotation_def carries_def that)
    moreover have "refresh_inv (end_transaction r (Taking token) s)"
      using inv_finish [OF inv, of "Taking token" "rs_rows s" r "rs_handoffs s" "rs_revocations s"]
      by (simp add: held_def rotation_def carries_def in_hand_def)
    ultimately show ?thesis using True inv_refused [OF inv]
      by (auto simp: decide_row_def p split: revoked_verdict.split option.split)
  qed
qed (simp add: decide_row_def inv_refused [OF inv])

lemma inv_decide_successor:
  assumes inv: "refresh_inv s" and ph: "rs_phases s r = Holds_successor token h"
  shows "refresh_inv (decide_successor r token h s)"
proof (cases "map_of (rs_rows s) token = None \<or> lockRefreshTokenRow s h = None")
  case False
  then obtain k j u where p: "map_of (rs_rows s) token = Some k" "lockRefreshTokenRow s h = Some (j, u)" by auto
  have "refresh_inv (decide_live r token (Some h) h j u s)" if "\<not> rk_revoked j"
    using that locked_row [OF p(2)] by (intro inv_decide_live [OF inv]) (auto simp: ph held_def carries_def live_row_def)
  then show ?thesis using inv_refused [OF inv] by (simp add: decide_successor_def p)
qed (auto simp: decide_successor_def inv_refused [OF inv] split: option.split)

lemma inv_commit:
  assumes inv: "refresh_inv s" and ph: "rs_phases s r = Rotating token succ row u" and new: "new \<notin> set (rs_issued s)"
  shows "refresh_inv (commit_rotation r token row u new expires fs s)"
proof (cases "lockRefreshTokenRow s row")
  case (Some p)
  then obtain k v where p: "lockRefreshTokenRow s row = Some (k, v)" by (cases p) auto
  define rows where "rows = update_row row (revoke_now (rs_now s)) (rs_rows s)"
  have step: "commit_rotation r token row u new expires fs s = end_transaction r (Committed token row new)
      (s\<lparr>rs_rows := rows @ [(new, successor_row u k expires fs)], rs_issued := new # rs_issued s\<rparr>)"
    by (simp add: commit_rotation_def p rows_def)
  have ids: "fst ` set rows = fst ` set (rs_rows s)" using fst_update_row by (metis list.set_map rows_def)
  then have "new \<notin> fst ` set rows" using invD(3) [OF inv] new by auto
  then have live: "live_row (rows @ [(new, successor_row u k expires fs)]) h \<longleftrightarrow> h = new \<or> (h \<noteq> row \<and> live_row (rs_rows s) h)" for h
    by (simp add: live_append_new successor_row_def rows_def live_update_row)
  have locks: "lock_of s row = Some r" using invD(1) [OF inv, of row r] by (simp add: ph held_def)
  have "row \<in> set (rs_issued s)" using invD(4) [OF inv ph] live_row_member invD(3) [OF inv] by blast
  then have "new \<noteq> row" using new by auto
  define s' where "s' = end_transaction r (Committed token row new)
      (s\<lparr>rs_rows := rows @ [(new, successor_row u k expires fs)], rs_issued := new # rs_issued s\<rparr>)"
  have s': "rs_rows s' = rows @ [(new, successor_row u k expires fs)]" "rs_issued s' = new # rs_issued s"
    "rs_phases s' = (rs_phases s)(r := Committed token row new)" "rs_handoffs s' = rs_handoffs s"
    by (simp_all add: s'_def)
  have others: "lock_of s' h = Some r'" if "r' \<noteq> r" "lock_of s h = Some r'" for h r'
    unfolding s'_def using that by (intro other_locks_finish) simp_all
  have same_ids: "map fst rows = map fst (rs_rows s)" by (simp add: rows_def)
  have none: "held (Committed token row new) = {}" "carries (Committed token row new) = {}"
    by (simp_all add: held_def carries_def)
  show ?thesis unfolding step s'_def [symmetric]
  proof (rule inv_move [where s = s and r = r and ph' = "Committed token row new", OF inv])
    show "distinct (map fst (rs_rows s'))" using invD(2) [OF inv] same_ids \<open>new \<notin> fst ` set rows\<close> ids by (simp add: s')
    show "fst ` set (rs_rows s') \<subseteq> set (rs_issued s')" using ids invD(3) [OF inv] by (auto simp: s')
    show "live_row (rs_rows s) h" if "h \<in> set (rs_issued s)" "live_row (rs_rows s') h" for h
      using that new by (auto simp: s' live)
    show "live_row (rs_rows s') h" if "r' \<noteq> r" "lock_of s h = Some r'" "live_row (rs_rows s) h" for h r'
      using that locks by (auto simp: s' live)
    show "rotation (Committed token row new) = None \<or> rotation (Committed token row new) = rotation (rs_phases s r)
        \<or> rotates (rs_phases s r) (Committed token row new) s s'"
      using new \<open>new \<noteq> row\<close> by (auto simp: rotates_def ph s' live)
    show "(t, h) \<in> in_hand s \<or> (rotation (Committed token row new) = None \<and> (\<exists>t' row. rotation (rs_phases s r) = Some (t', row, h)))"
      if "(t, h) \<in> offered (rs_handoffs s') \<union> carries (Committed token row new)" for t h
      using that by (simp add: s' none in_hand_def)
  qed (simp_all add: s' none subset_insertI others)
qed (simp add: commit_rotation_def inv_refused [OF inv])

lemma inv_revoke_targets:
  assumes inv: "refresh_inv s" and "\<And>k. rk_revoked (f k)" "list_all (\<lambda>h. free_for r h s) ts"
    "held ph' = {}" "rotation ph' = None" "carries ph' = {}"
  shows "refresh_inv (end_transaction r ph' (s\<lparr>rs_rows := revoke_targets f ts (rs_rows s), rs_revocations := rv\<rparr>))"
  using inv_finish [OF inv assms(4-6), of "revoke_targets f ts (rs_rows s)" r "rs_handoffs s" rv] assms(2,3)
  by (auto simp: live_revoke_targets list_all_iff in_hand_def)

lemma inv_lock:
  assumes inv: "refresh_inv s" and free: "free_for r h s" and ph': "held ph' \<subseteq> insert h (held (rs_phases s r))"
    "rotation ph' = None" "carries ph' \<subseteq> carries (rs_phases s r)" "\<And>t succ row u. ph' \<noteq> Rotating t succ row u"
  shows "refresh_inv (go r ph' (s\<lparr>rs_locks := (h, r) # rs_locks s\<rparr>))"
  by (rule inv_move [where s = s and r = r and ph' = ph', OF inv])
    (use free ph' invD(1-3) [OF inv] in \<open>auto simp: go_def free_for_def in_hand_def intro: exI [of _ r]\<close>)

lemma inv_advance: "refresh_inv s \<Longrightarrow> refresh_inv (refresh_advance r new expires fs s)"
proof (cases "rs_phases s r")
  case (Wait_row t succ)
  assume inv: "refresh_inv s"
  show ?thesis using inv inv_lock [OF inv, of r t "Holds_row t succ"]
    by (auto simp: refresh_advance_def Wait_row held_def rotation_def carries_def split: option.splits)
next
  case (Wait_successor t h)
  assume inv: "refresh_inv s"
  show ?thesis using inv inv_lock [OF inv, of r h "Holds_successor t h"]
    by (auto simp: refresh_advance_def Wait_successor held_def rotation_def carries_def)
next
  case (Revoking t succ ts)
  assume inv: "refresh_inv s"
  show ?thesis using inv inv_revoke_targets [OF inv, of "revoke_keeping_time (rs_now s)" r ts "Failed 401" "rs_revocations s"]
    by (simp add: refresh_advance_def Revoking held_def rotation_def carries_def)
next
  case (Ending user ts at til)
  assume inv: "refresh_inv s"
  show ?thesis using inv inv_revoke_targets [OF inv, of "revoke_now at" r ts Ended]
    by (simp add: refresh_advance_def Ending held_def rotation_def carries_def)
next
  case (Taking t)
  assume inv: "refresh_inv s"
  obtain found hs where take: "take_handoff (rs_now s) t (rs_handoffs s) = (found, hs)" by (cases "take_handoff (rs_now s) t (rs_handoffs s)")
  show ?thesis
    by (rule inv_move [where s = s and r = r and ph' = "case found of None \<Rightarrow> Failed 401 | Some h \<Rightarrow> Wait_row t (Some h)", OF inv])
      (use invD(1-3) [OF inv] offered_take [OF take] in \<open>auto simp: refresh_advance_def Taking take go_def held_def rotation_def
        carries_def in_hand_def split: option.splits\<close>)
next
  case (Committed t row n)
  assume inv: "refresh_inv s"
  show ?thesis using inv_go [OF inv, of "Delivered t row n" r]
    by (simp add: refresh_advance_def Committed held_def rotation_def carries_def)
qed (simp_all add: refresh_advance_def inv_decide_row inv_decide_successor inv_commit)

lemma inv_retry:
  assumes inv: "refresh_inv s" and h: "\<And>h. succ = Some h \<Longrightarrow> (t, h) \<in> carries (rs_phases s r)"
  shows "refresh_inv (case succ of None \<Rightarrow> end_transaction r (Failed 500) s
    | Some h \<Rightarrow> end_transaction r (Failed 500) (s\<lparr>rs_handoffs := offer (rs_now s) t h (rs_handoffs s)\<rparr>))"
proof (cases succ)
  case (Some h)
  have "offered (offer (rs_now s) t h (rs_handoffs s)) \<subseteq> in_hand s"
    using offered_offer [of "rs_now s" t h "rs_handoffs s"] assms(2) [OF Some] by (auto simp: in_hand_def)
  then show ?thesis
    using inv_finish [OF inv, of "Failed 500" "rs_rows s" r "offer (rs_now s) t h (rs_handoffs s)" "rs_revocations s"]
    by (simp add: Some held_def rotation_def carries_def)
qed (simp add: inv_refused [OF inv])

lemma inv_fails: "refresh_inv s \<Longrightarrow> refresh_inv (refresh_fails r s)"
proof (cases "rs_phases s r")
  case (Committed t row new)
  assume inv: "refresh_inv s"
  let ?hs = "offer (rs_now s) t new (rs_handoffs s)"
  have "refresh_inv (go r (Failed 503) (s\<lparr>rs_handoffs := ?hs\<rparr>))"
    by (rule inv_move [where s = s and r = r and ph' = "Failed 503", OF inv])
      (use invD(1-3) [OF inv] offered_offer [of "rs_now s" t new "rs_handoffs s"] in
        \<open>auto simp: Committed go_def held_def rotation_def carries_def in_hand_def\<close>)
  then show ?thesis by (simp add: refresh_fails_def Let_def Committed)
next
  case (Ending user ts at til)
  then show "refresh_inv s \<Longrightarrow> ?thesis" by (simp add: refresh_fails_def Let_def inv_refused)
next
  case (Wait_successor t h)
  then show "refresh_inv s \<Longrightarrow> ?thesis" using inv_retry [of s "Some h" t r] by (simp add: refresh_fails_def Let_def carries_def)
next
  case (Holds_successor t h)
  then show "refresh_inv s \<Longrightarrow> ?thesis" using inv_retry [of s "Some h" t r] by (simp add: refresh_fails_def Let_def carries_def)
next
  case (Wait_row t succ)
  then show "refresh_inv s \<Longrightarrow> ?thesis" using inv_retry [of s succ t r] by (simp add: refresh_fails_def Let_def carries_def)
next
  case (Holds_row t succ)
  then show "refresh_inv s \<Longrightarrow> ?thesis" using inv_retry [of s succ t r] by (simp add: refresh_fails_def Let_def carries_def)
next
  case (Rotating t succ row u)
  then show "refresh_inv s \<Longrightarrow> ?thesis" using inv_retry [of s succ t r] by (simp add: refresh_fails_def Let_def carries_def)
next
  case (Revoking t succ ts)
  then show "refresh_inv s \<Longrightarrow> ?thesis" using inv_retry [of s succ t r] by (simp add: refresh_fails_def Let_def carries_def)
qed (simp_all add: refresh_fails_def Let_def)

lemma inv_start:
  "refresh_inv s \<Longrightarrow> held ph' = {} \<Longrightarrow> rotation ph' = None \<Longrightarrow> carries ph' = {} \<Longrightarrow> refresh_inv (go r ph' s)"
  by (rule inv_go) (auto simp: held_def)

interpretation refresh: event_system "refresh_step life" refresh_inv
proof
  fix s :: refresh_system and e :: refresh_event assume inv: "refresh_inv s"
  show "refresh_inv (refresh_step life s e)"
  proof (cases e)
    case (Login user new session demo)
    show ?thesis
    proof (cases "new \<in> set (rs_issued s)")
      case False
      then have fresh: "new \<notin> fst ` set (rs_rows s)" using invD(3) [OF inv] by blast
      show ?thesis
        by (rule inv_rows [OF inv])
          (use False fresh invD(2,3) [OF inv] in \<open>auto simp: Login live_append_new\<close>)
    qed (simp add: Login inv)
  next
    case (Refresh r t)
    then show ?thesis using inv inv_start [of s "Wait_row t None" r] by (simp add: held_def rotation_def carries_def)
  next
    case (End_sessions r user)
    then show ?thesis using inv by (auto intro!: inv_start simp: held_def rotation_def carries_def)
  next
    case (Logout t)
    have ids: "fst ` set (update_row t f (rs_rows s)) = fst ` set (rs_rows s)" for f
      using fst_update_row by (metis list.set_map)
    show ?thesis
    proof (cases "lock_of s t = None")
      case True
      show ?thesis
        by (rule inv_rows [OF inv]) (use True ids invD(2,3) [OF inv] in \<open>simp_all add: Logout live_update_row\<close>, auto)
    qed (auto simp: Logout inv)
  next
    case Cleanup
    show ?thesis
    proof (rule inv_rows [OF inv])
      show "live_row (rs_rows (refresh_step life s e)) h" if "live_row (rs_rows s) h" "lock_of s h \<noteq> None" for h
      proof -
        from that(1) obtain k where "map_of (rs_rows s) h = Some k" "\<not> rk_revoked k" by (auto simp: live_row_def)
        then show ?thesis using that(2) invD(2) [OF inv]
          by (auto simp: Cleanup live_row_def map_of_eq_Some_iff distinct_map_filter expired_row_def)
      qed
    qed (use invD(2,3) [OF inv] live_filter [OF invD(2) [OF inv]] in \<open>auto simp: Cleanup distinct_map_filter\<close>)
  next
    case (Owner user u)
    show ?thesis by (rule inv_rows [OF inv]) (simp_all add: Owner invD(2,3) [OF inv])
  next
    case (Clock d)
    show ?thesis by (rule inv_rows [OF inv]) (simp_all add: Clock invD(2,3) [OF inv])
  qed (simp_all add: inv inv_advance inv_fails)
qed

section \<open>How many live tokens a user has\<close>

definition live_count :: "string \<Rightarrow> refresh_rows \<Rightarrow> nat" where
  "live_count u rows = length (filter (\<lambda>(_, k). rk_user k = u \<and> \<not> rk_revoked k) rows)"

lemma live_count_map_le:
  assumes "\<And>i k. rk_revoked k \<Longrightarrow> rk_revoked (f i k)" "\<And>i k. rk_user (f i k) = rk_user k"
  shows "live_count u (map (\<lambda>(i, k). (i, f i k)) rows) \<le> live_count u rows"
  using assms by (induction rows) (auto simp: live_count_def)

lemma live_count_update:
  "(\<And>k. rk_revoked (f k)) \<Longrightarrow> (\<And>k. rk_user (f k) = rk_user k) \<Longrightarrow> live_count u (update_row h f rows) \<le> live_count u rows"
  unfolding update_row_def using live_count_map_le [of "\<lambda>i k. if i = h then f k else k" u rows] by simp

lemma live_count_targets:
  "(\<And>k. rk_revoked (f k)) \<Longrightarrow> (\<And>k. rk_user (f k) = rk_user k) \<Longrightarrow> live_count u (revoke_targets f ts rows) \<le> live_count u rows"
  unfolding revoke_targets_def
  using live_count_map_le [of "\<lambda>i k. if i \<in> set ts \<and> \<not> rk_revoked k then f k else k" u rows] by simp

lemma live_count_filter: "live_count u (filter P rows) \<le> live_count u rows"
  by (induction rows) (auto simp: live_count_def)

lemma live_count_revoked:
  assumes "map_of rows h = Some k" "\<not> rk_revoked k" "\<And>k. rk_revoked (f k)" "\<And>k. rk_user (f k) = rk_user k"
  shows "live_count u (update_row h f rows) + (if rk_user k = u then 1 else 0) \<le> live_count u rows"
  using assms(1)
proof (induction rows)
  case (Cons x rows)
  obtain i j where x: "x = (i, j)" by (cases x)
  have parts: "live_count u (update_row h f ((i, j) # rows)) = (if i = h then 0 else if rk_user j = u \<and> \<not> rk_revoked j then 1 else 0)
      + live_count u (update_row h f rows)"
    "live_count u ((i, j) # rows) = (if rk_user j = u \<and> \<not> rk_revoked j then 1 else 0) + live_count u rows"
    using assms(3,4) by (auto simp: live_count_def update_row_def)
  show ?case
  proof (cases "i = h")
    case True
    then have "j = k" using Cons.prems by (simp add: x)
    then show ?thesis unfolding x parts using True assms(2) live_count_update [of f u h rows, OF assms(3,4)] by auto
  next
    case False
    then show ?thesis unfolding x parts using Cons by (auto simp: x)
  qed
qed simp

lemma same_user_revoked [simp]: "rk_user (revoke_now t k) = rk_user k" "rk_user (revoke_keeping_time t k) = rk_user k"
  by (simp_all add: revoke_now_def revoke_keeping_time_def)

lemma go_rows [simp]: "rs_rows (go r ph s) = rs_rows s"
  by (simp add: go_def)

lemma count_decide_live: "live_count u (rs_rows (decide_live r t succ row k v s)) \<le> live_count u (rs_rows s)"
  by (auto simp: decide_live_def live_count_update split: live_verdict.split)

lemma count_decide: "live_count u (rs_rows (decide_row r t succ s)) \<le> live_count u (rs_rows s)"
  "live_count u (rs_rows (decide_successor r t h s)) \<le> live_count u (rs_rows s)"
  by (auto simp: decide_row_def decide_successor_def count_decide_live split: option.split revoked_verdict.split)

lemma count_commit:
  assumes "refresh_inv s" "rs_phases s r = Rotating t succ row v"
  shows "live_count u (rs_rows (commit_rotation r t row v new expires fs s)) \<le> live_count u (rs_rows s)"
proof (cases "lockRefreshTokenRow s row")
  case (Some p)
  then obtain k w where p: "lockRefreshTokenRow s row = Some (k, w)" by (cases p) auto
  have "map_of (rs_rows s) row = Some k" "\<not> rk_revoked k"
    using invD(4) [OF assms] locked_row [OF p] by (auto simp: live_row_def)
  from live_count_revoked [OF this, of "revoke_now (rs_now s)" u]
  show ?thesis by (simp add: commit_rotation_def p live_count_def successor_row_def split: if_splits)
qed (simp add: commit_rotation_def)

lemma count_advance: "refresh_inv s \<Longrightarrow> live_count u (rs_rows (refresh_advance r new expires fs s)) \<le> live_count u (rs_rows s)"
  by (cases "rs_phases s r")
    (auto simp: refresh_advance_def count_decide count_commit live_count_targets split: option.split prod.split)

lemma count_fails: "rs_rows (refresh_fails r s) = rs_rows s"
  by (auto simp: refresh_fails_def Let_def split: refresh_phase.split option.split)

definition is_login :: "string \<Rightarrow> refresh_event \<Rightarrow> bool" where
  "is_login u e \<longleftrightarrow> (case e of Login u' _ _ _ \<Rightarrow> u' = u | _ \<Rightarrow> False)"

lemma count_step: "refresh_inv s \<Longrightarrow>
    live_count u (rs_rows (refresh_step life s e)) \<le> live_count u (rs_rows s) + (if is_login u e then 1 else 0)"
  by (cases e) (auto simp: is_login_def count_advance count_fails live_count_update live_count_filter,
    auto simp: live_count_def)

lemma count_run: "refresh_inv s \<Longrightarrow>
    live_count u (rs_rows (foldl (refresh_step life) s es)) \<le> live_count u (rs_rows s) + length (filter (is_login u) es)"
proof (induction es arbitrary: s)
  case (Cons e es)
  from Cons.IH [OF refresh.inv_step [OF Cons.prems], of life e] count_step [OF Cons.prems, of u life e]
  show ?case by (auto split: if_splits)
qed simp

section \<open>What an answer rests on\<close>

text \<open>The row could be rotated at that moment; the token had just been revoked, and its sessions not ended.\<close>

definition may_rotate :: "string \<Rightarrow> refresh_system \<Rightarrow> bool" where
  "may_rotate row s \<longleftrightarrow> (\<exists>k u. lockRefreshTokenRow s row = Some (k, u) \<and> \<not> rk_revoked k \<and> judge_live (rs_now s) u k = Rotate)"

definition just_rotated :: "string \<Rightarrow> refresh_system \<Rightarrow> bool" where
  "just_rotated t s \<longleftrightarrow> (\<exists>k. map_of (rs_rows s) t = Some k \<and> rk_revoked k
     \<and> judge_revoked (rs_now s) (rs_revocations s (rk_user k)) k = Within_grace)"

fun earned :: "((refresh_system \<Rightarrow> bool) \<Rightarrow> bool) \<Rightarrow> refresh_phase \<Rightarrow> bool" where
  "earned H (Wait_successor t h) \<longleftrightarrow> H (just_rotated t)"
| "earned H (Holds_successor t h) \<longleftrightarrow> H (just_rotated t)"
| "earned H (Rotating t succ row u) \<longleftrightarrow> H (may_rotate row) \<and> (row = t \<or> H (just_rotated t))"
| "earned H (Committed t row new) \<longleftrightarrow> H (may_rotate row) \<and> (row = t \<or> H (just_rotated t))"
| "earned H (Delivered t row new) \<longleftrightarrow> H (may_rotate row) \<and> (row = t \<or> H (just_rotated t))"
| "earned H _ \<longleftrightarrow> True"

lemma earned_later: "earned H ph \<Longrightarrow> (\<And>P. H P \<Longrightarrow> H' P) \<Longrightarrow> earned H' ph"
  by (cases ph) auto

lemma go_phase [simp]: "rs_phases (go r ph s) = (rs_phases s)(r := ph)"
  by (simp add: go_def)

lemma other_phases_advance: "r' \<noteq> r \<Longrightarrow> rs_phases (refresh_advance r new expires fs s) r' = rs_phases s r'"
  by (auto simp: refresh_advance_def decide_row_def decide_successor_def decide_live_def commit_rotation_def
      split: refresh_phase.split option.split revoked_verdict.split live_verdict.split prod.split)

lemma other_phases_fails: "r' \<noteq> r \<Longrightarrow> rs_phases (refresh_fails r s) r' = rs_phases s r'"
  by (auto simp: refresh_fails_def Let_def split: refresh_phase.split option.split)

lemma earned_decide_live:
  assumes "lockRefreshTokenRow s row = Some (k, u)" "\<not> rk_revoked k" "row = t \<or> H (just_rotated t)" "\<And>P. P s \<Longrightarrow> H P"
  shows "earned H (rs_phases (decide_live r t succ row k u s) r)"
proof (cases "judge_live (rs_now s) u k")
  case Rotate
  then have "may_rotate row s" using assms(1,2) by (auto simp: may_rotate_def)
  then show ?thesis using assms(3,4) by (simp add: decide_live_def Rotate)
qed (simp_all add: decide_live_def)

lemma earned_decide_row:
  assumes "\<And>P. P s \<Longrightarrow> H P"
  shows "earned H (rs_phases (decide_row r t succ s) r)"
proof (cases "lockRefreshTokenRow s t")
  case (Some p)
  then obtain k u where p: "lockRefreshTokenRow s t = Some (k, u)" by (cases p) auto
  have "just_rotated t s" if "rk_revoked k" "judge_revoked (rs_now s) (rs_revocations s (rk_user k)) k = Within_grace"
    using that locked_row [OF p] by (auto simp: just_rotated_def)
  then show ?thesis using assms earned_decide_live [OF p] by (auto simp: decide_row_def p split: revoked_verdict.split option.split)
qed (simp add: decide_row_def)

lemma earned_advance:
  assumes "earned H (rs_phases s r)" "\<And>P. P s \<Longrightarrow> H P"
  shows "earned H (rs_phases (refresh_advance r new expires fs s) r)"
proof (cases "rs_phases s r")
  case (Holds_successor t h)
  then show ?thesis using assms earned_decide_live [of s h]
    by (auto simp: refresh_advance_def decide_successor_def split: option.split)
next
  case (Holds_row t succ)
  then show ?thesis using earned_decide_row [of s H, OF assms(2)] by (simp add: refresh_advance_def)
qed (use assms in \<open>auto simp: refresh_advance_def commit_rotation_def split: option.split prod.split\<close>)

lemma earned_step:
  assumes "earned H (rs_phases s r)" "\<And>P. P s \<Longrightarrow> H P"
  shows "earned H (rs_phases (refresh_step life s e) r)"
proof (cases e)
  case (Step r' new session)
  show ?thesis
  proof (cases "r' = r")
    case True
    then show ?thesis using earned_advance [OF assms] by (simp add: Step)
  qed (simp add: Step assms(1) other_phases_advance)
next
  case (Fails r')
  show ?thesis
  proof (cases "r' = r")
    case True
    show ?thesis using assms by (cases "rs_phases s r") (simp_all add: Fails True refresh_fails_def Let_def split: option.split)
  qed (simp add: Fails assms(1) other_phases_fails)
qed (use assms in auto)

lemma earned_run: "rs_phases s0 r = No_refresh \<Longrightarrow>
    earned (once (refresh_step life) s0 es) (rs_phases (foldl (refresh_step life) s0 es) r)"
proof (induction es rule: rev_induct)
  case (snoc e es)
  have "earned (once (refresh_step life) s0 (es @ [e])) (rs_phases (refresh_step life (foldl (refresh_step life) s0 es) e) r)"
  proof (rule earned_step)
    show "earned (once (refresh_step life) s0 (es @ [e])) (rs_phases (foldl (refresh_step life) s0 es) r)"
      using snoc.IH [OF snoc.prems] once_later by (rule earned_later)
    show "once (refresh_step life) s0 (es @ [e]) P" if "P (foldl (refresh_step life) s0 es)" for P
      using that by (intro once_later once_now)
  qed
  then show ?case by simp
qed simp

section \<open>Detected reuse\<close>

text \<open>A detected reuse ends all rows it saw, or fails and is reported as such.\<close>

definition reuse_outcome :: "nat \<Rightarrow> string list \<Rightarrow> refresh_system \<Rightarrow> bool" where
  "reuse_outcome r ts s \<longleftrightarrow> set ts \<subseteq> set (rs_issued s) \<and> (case rs_phases s r of
     Revoking t succ ts' \<Rightarrow> ts' = ts
   | Failed e \<Rightarrow> e = 500 \<or> (\<forall>h \<in> set ts. \<not> live_row (rs_rows s) h)
   | _ \<Rightarrow> False)"

lemma rows_step:
  assumes "refresh_inv s"
  shows "set (rs_issued s) \<subseteq> set (rs_issued (refresh_step life s e))"
    "h \<in> set (rs_issued s) \<Longrightarrow> live_row (rs_rows (refresh_step life s e)) h \<Longrightarrow> live_row (rs_rows s) h"
proof -
  have issued: "rs_issued (end_transaction r ph s) = rs_issued s" "rs_issued (go r ph s) = rs_issued s" for r ph and s :: refresh_system
    by (simp_all add: end_transaction_def go_def unlock_def)
  have live: "rs_issued (decide_live r t succ row k u s) = rs_issued s
      \<and> (live_row (rs_rows (decide_live r t succ row k u s)) h \<longrightarrow> live_row (rs_rows s) h)" for r t succ row k u h
    by (auto simp: decide_live_def issued live_update_row split: live_verdict.split)
  have decide: "rs_issued (decide_row r t succ s) = rs_issued s \<and> (live_row (rs_rows (decide_row r t succ s)) h \<longrightarrow> live_row (rs_rows s) h)"
    "rs_issued (decide_successor r t j s) = rs_issued s \<and> (live_row (rs_rows (decide_successor r t j s)) h \<longrightarrow> live_row (rs_rows s) h)"
    for r t succ j h
    using live by (auto simp: decide_row_def decide_successor_def issued split: option.split revoked_verdict.split)
  have commit: "set (rs_issued s) \<subseteq> set (rs_issued (commit_rotation r t row u new expires fs s))
      \<and> (h \<in> set (rs_issued s) \<longrightarrow> live_row (rs_rows (commit_rotation r t row u new expires fs s)) h \<longrightarrow> live_row (rs_rows s) h)"
    if "new \<notin> set (rs_issued s)" for r t row u new expires fs h
  proof -
    have "new \<notin> fst ` set (update_row row f (rs_rows s))" for f
      using that invD(3) [OF assms] fst_update_row by (metis list.set_map subsetD)
    then show ?thesis using that
      by (auto simp: commit_rotation_def issued live_append_new successor_row_def live_update_row split: option.split)
  qed
  have advance: "set (rs_issued s) \<subseteq> set (rs_issued (refresh_advance r new expires fs s))
      \<and> (h \<in> set (rs_issued s) \<longrightarrow> live_row (rs_rows (refresh_advance r new expires fs s)) h \<longrightarrow> live_row (rs_rows s) h)"
    for r new expires fs h
    using decide [of r] commit [of new r]
    by (cases "rs_phases s r") (auto simp: refresh_advance_def issued live_revoke_targets split: option.split prod.split)
  have fails: "rs_issued (refresh_fails r s) = rs_issued s" for r
    by (auto simp: refresh_fails_def Let_def issued split: refresh_phase.split option.split)
  have fresh: "new \<notin> fst ` set (rs_rows s)" if "new \<notin> set (rs_issued s)" for new using that invD(3) [OF assms] by blast
  show "set (rs_issued s) \<subseteq> set (rs_issued (refresh_step life s e))"
    using advance by (cases e) (auto simp: issued fails)
  show "live_row (rs_rows (refresh_step life s e)) h \<Longrightarrow> live_row (rs_rows s) h" if "h \<in> set (rs_issued s)"
    using advance that fresh live_filter [OF invD(2) [OF assms]]
    by (cases e) (auto simp: count_fails live_update_row live_append_new split: if_splits)
qed

lemma reuse_step:
  assumes inv: "refresh_inv s" and out: "reuse_outcome r ts s"
  shows "reuse_outcome r ts (refresh_step life s e)"
proof -
  note rows = rows_step [OF inv, where e = e and life = life]
  have known: "set ts \<subseteq> set (rs_issued s)" using out by (simp add: reuse_outcome_def)
  consider (run) t succ where "rs_phases s r = Revoking t succ ts" | (failed) c where "rs_phases s r = Failed c"
      "c = 500 \<or> (\<forall>h \<in> set ts. \<not> live_row (rs_rows s) h)"
    using out by (auto simp: reuse_outcome_def split: refresh_phase.splits)
  then show ?thesis
  proof cases
    case run
    have "rs_phases (refresh_step life s e) r = Revoking t succ ts \<or> rs_phases (refresh_step life s e) r = Failed 500
      \<or> (rs_phases (refresh_step life s e) r = Failed 401 \<and> (\<forall>h \<in> set ts. \<not> live_row (rs_rows (refresh_step life s e)) h))"
    proof (cases e)
      case (Step r' new session)
      show ?thesis
      proof (cases "r' = r")
        case True
        then show ?thesis using run by (auto simp: Step refresh_advance_def live_revoke_targets)
      qed (simp add: Step run other_phases_advance)
    next
      case (Fails r')
      show ?thesis
      proof (cases "r' = r")
        case True
        then show ?thesis using run by (auto simp: Fails refresh_fails_def Let_def split: option.split)
      qed (simp add: Fails run other_phases_fails)
    qed (use run in auto)
    then show ?thesis using known rows(1) by (auto simp: reuse_outcome_def)
  next
    case failed
    have "rs_phases (refresh_step life s e) r = rs_phases s r"
    proof (cases e)
      case (Step r' new session)
      then show ?thesis using failed by (cases "r' = r") (simp_all add: other_phases_advance, simp add: refresh_advance_def)
    next
      case (Fails r')
      then show ?thesis using failed by (cases "r' = r") (simp_all add: other_phases_fails, simp add: refresh_fails_def Let_def)
    qed (use failed in auto)
    then show ?thesis using failed known rows by (auto simp: reuse_outcome_def)
  qed
qed

lemma reuse_run:
  "refresh_inv s \<Longrightarrow> reuse_outcome r ts s \<Longrightarrow> reuse_outcome r ts (foldl (refresh_step life) s es)"
  by (rule refresh.run_keeps [where P = "reuse_outcome r ts"]) (rule reuse_step)

lemma dead_stays:
  assumes "refresh_inv s" "h \<in> set (rs_issued s) \<and> \<not> live_row (rs_rows s) h"
  shows "\<not> live_row (rs_rows (foldl (refresh_step life) s es)) h"
proof -
  have "h \<in> set (rs_issued (refresh_step life t e)) \<and> \<not> live_row (rs_rows (refresh_step life t e)) h"
    if "refresh_inv t" "h \<in> set (rs_issued t) \<and> \<not> live_row (rs_rows t) h" for t e
    using rows_step [OF that(1), where life = life and e = e] that(2) by blast
  from refresh.run_keeps [where P = "\<lambda>t. h \<in> set (rs_issued t) \<and> \<not> live_row (rs_rows t) h", OF this assms]
  show ?thesis by blast
qed

text \<open>At the start no request runs, nothing is handed off and every stored hash was given out.\<close>

definition refresh_start :: "refresh_system \<Rightarrow> bool" where
  "refresh_start s \<longleftrightarrow> (\<forall>r. rs_phases s r = No_refresh) \<and> rs_handoffs s = [] \<and> rows_known s"

lemma refresh_start_inv: "refresh_start s \<Longrightarrow> refresh_inv s"
  by (auto simp: refresh_start_def refresh_inv_def locks_held_def rotating_live_def rotated_dead_def rotations_unique_def
      hands_undelivered_def in_hand_def held_def rotation_def carries_def offered_def)

section \<open>A user with two devices\<close>

definition refresh_demo :: refresh_system where
  "refresh_demo = \<lparr>rs_rows = [], rs_issued = [], rs_owners = (\<lambda>_. None)(''u'' := Some \<lparr>ow_role = ''learner'',
     ow_active = True, ow_tenant_active = Some True, ow_demo_account = False\<rparr>), rs_revocations = (\<lambda>_. None),
     rs_handoffs = [], rs_locks = [], rs_now = 1, rs_phases = (\<lambda>_. No_refresh)\<rparr>"

lemma refresh_demo_start: "refresh_start refresh_demo"
  by (simp add: refresh_start_def refresh_demo_def rows_known_def)

definition demo_steps :: "nat \<Rightarrow> nat \<Rightarrow> string \<Rightarrow> refresh_event list" where
  "demo_steps n r new = map (\<lambda>_. Step r new []) [0..<n]"

text \<open>Two logins; the first token is rotated, and the answer is lost; the retry is handed the successor.\<close>

definition refresh_demo_events :: "refresh_event list" where
  "refresh_demo_events = [Login ''u'' ''a0'' None False, Login ''u'' ''b0'' None False, Refresh 0 ''a0'']
     @ demo_steps 3 0 ''a1'' @ [Fails 0, Refresh 1 ''a0''] @ demo_steps 9 1 ''a2''"

text \<open>Later the rotated token is presented once more.\<close>

definition reuse_demo_events :: "refresh_event list" where
  "reuse_demo_events = refresh_demo_events @ [Clock 20000, Refresh 2 ''a0''] @ demo_steps 1 2 []"

text \<open>
  A rotation that has locked its row before a statement ends all sessions, and commits after that statement
  has started, leaves its successor live: the statement waits for the row it saw and never sees the new one.
  The session goes on after the password was changed.
\<close>

definition race_demo_events :: "refresh_event list" where
  "race_demo_events = [Login ''u'' ''a0'' None False, Refresh 0 ''a0''] @ demo_steps 2 0 [] @ [End_sessions 1 ''u'']
     @ demo_steps 1 0 ''a1'' @ demo_steps 1 1 [] @ demo_steps 1 0 [] @ [Clock 60000, Refresh 2 ''a1''] @ demo_steps 4 2 ''a2''"

lemma rotation_survives_ended_sessions:
  "(let s = foldl (refresh_step 1000000) refresh_demo race_demo_events
    in rs_phases s 1 = Ended \<and> rs_phases s 2 = Delivered ''a1'' ''a1'' ''a2'')"
  by code_simp

section \<open>Properties\<close>

text \<open>
  C8: a session never forks. In every interleaving of refreshes, retries, handoffs, database failures,
  logins, logouts and clean-ups: of all requests that ever present a token, at most one is answered with a
  successor of its row; a token that was delivered is continued only by a request that presents it (a handoff
  never continues it); and a user never has more live tokens than it had at the start plus one for each login.
\<close>

theorem sessions_never_fork:
  assumes "refresh_start s0" and s: "s = foldl (refresh_step life) s0 es"
  shows "(\<forall>r1 r2 t1 t2 row n1 n2. rs_phases s r1 = Delivered t1 row n1 \<longrightarrow> rs_phases s r2 = Delivered t2 row n2 \<longrightarrow> r1 = r2)
    \<and> (\<forall>r1 r2 t1 t2 row h n. rs_phases s r1 = Delivered t1 row h \<longrightarrow> rs_phases s r2 = Delivered t2 h n \<longrightarrow> t2 = h)
    \<and> live_count u (rs_rows s) \<le> live_count u (rs_rows s0) + length (filter (is_login u) es)"
proof (intro conjI allI impI)
  have inv: "refresh_inv s" unfolding s using refresh_start_inv [OF assms(1)] by (rule refresh.inv_run)
  show "r1 = r2" if "rs_phases s r1 = Delivered t1 row n1" "rs_phases s r2 = Delivered t2 row n2" for r1 r2 t1 t2 row n1 n2
    using invD(6) [OF inv, of r1 r2 t1 row n1 t2 row n2] that by (auto simp: rotation_def)
  show "t2 = h" if "rs_phases s r1 = Delivered t1 row h" "rs_phases s r2 = Delivered t2 h n" for r1 r2 t1 t2 row h n
  proof -
    have "h = t2 \<or> undelivered s h" using invD(5) [OF inv, of r2 t2 h n] that(2) by (simp add: rotation_def)
    moreover have "rotation (rs_phases s r1) = Some (t1, row, h)" using that(1) by (simp add: rotation_def)
    ultimately show ?thesis unfolding undelivered_def by blast
  qed
  show "live_count u (rs_rows s) \<le> live_count u (rs_rows s0) + length (filter (is_login u) es)"
    unfolding s using refresh_start_inv [OF assms(1)] by (rule count_run)
qed

lemma sessions_never_fork_witness:
  "live_count ''u'' (rs_rows (foldl (refresh_step 1000000) refresh_demo refresh_demo_events)) \<le> 2"
proof -
  have "live_count ''u'' (rs_rows refresh_demo) + length (filter (is_login ''u'') refresh_demo_events) = 2" by code_simp
  then show ?thesis using sessions_never_fork [OF refresh_demo_start refl, of 1000000 refresh_demo_events "''u''"] by simp
qed





end
