(* ===== verification/Revocation_Mirror.thy ===== *)
theory Revocation_Mirror
  imports Event_System
begin

text \<open>
  The Redis copy of the access-token revocations (modules/auth/auth-revocation.service.ts) as one process sees
  it: when it is trusted, how single revocations are copied, the full resync with its checks against what
  happened meanwhile, and the check of an access token. The shared database and Redis, the other processes, the
  connection (config/redis.ts) and the cluster bus (config/cluster-bus.ts) change by events. Times are
  milliseconds of one clock. A row and its key live longer than every token they refuse, so their expiry is left
  out. Redis applies the commands of a connection in order, so a write that was given up is either applied when
  it is given up or never. The copies of the other processes read and write in one step; what overlapping copies
  of one user can do is shown by \<open>overlapping_copies\<close>. The minimum interval between two resyncs only decides
  when a resync starts.
\<close>

section \<open>Revocations\<close>

text \<open>A row: every token (permanent deletion), or those issued before the instant.\<close>

datatype revocation_row = Full int | Issued_before int

fun instant :: "revocation_row \<Rightarrow> int" where
  "instant (Full t) = t"
| "instant (Issued_before t) = t"

text \<open>The issue time of a token has the precision of a second; a token without one is the oldest.\<close>

definition issued_at :: "int option \<Rightarrow> int" where
  "issued_at iat = (case iat of None \<Rightarrow> 0 | Some i \<Rightarrow> i)"

definition isRevokedForIssuedAt :: "revocation_row option \<Rightarrow> int option \<Rightarrow> bool" where
  "isRevokedForIssuedAt row iat = (case row of None \<Rightarrow> False | Some (Full _) \<Rightarrow> True
     | Some (Issued_before t) \<Rightarrow> issued_at iat < t div 1000)"

text \<open>A later revocation moves the instant; a permanent deletion is never downgraded.\<close>

fun upsert_revocation :: "revocation_row option \<Rightarrow> bool \<Rightarrow> int \<Rightarrow> revocation_row" where
  "upsert_revocation old True now = Full now"
| "upsert_revocation None False now = Issued_before now"
| "upsert_revocation (Some (Full t)) False now = Full t"
| "upsert_revocation (Some (Issued_before t)) False now = Issued_before (max t now)"

section \<open>The process\<close>

datatype copy_phase = Reading string | Writing string revocation_row | Copied

text \<open>
  A running resync: the epoch, the generation and the number of copies at its start, and once it has read the
  rows, those it still has to write.
\<close>

record resync =
  ry_epoch :: nat
  ry_generation :: nat
  ry_copies_started :: nat
  ry_rows :: "(string \<times> revocation_row) list option"

text \<open>
  \<open>mr_db\<close> and \<open>mr_redis\<close> are shared; the rest are the variables of the process. \<open>mr_served\<close> is not one of
  them: it is the row of a user when the process last finished copying it (or found it could not).
\<close>

record mirror =
  mr_db :: "(string \<times> revocation_row) list"
  mr_redis :: "(string \<times> revocation_row) list"
  mr_now :: int
  mr_ready :: bool
  mr_breaker_open :: bool
  mr_epoch :: nat
  mr_bus_healthy :: bool
  mr_trusted_epoch :: "nat option"
  mr_generation :: nat
  mr_copies_started :: nat
  mr_copies_in_flight :: nat
  mr_resync :: "resync option"
  mr_copies :: "(nat \<times> copy_phase) list"
  mr_served :: "(string \<times> revocation_row) list"

text \<open>The client exists while its connection is ready and the breaker is closed.\<close>

definition getRedisClient :: "mirror \<Rightarrow> bool" where
  "getRedisClient s \<longleftrightarrow> mr_ready s \<and> \<not> mr_breaker_open s"

definition isAccessRevocationMirrorTrusted :: "mirror \<Rightarrow> bool" where
  "isAccessRevocationMirrorTrusted s \<longleftrightarrow> mr_trusted_epoch s = Some (mr_epoch s) \<and> mr_bus_healthy s"

definition markRevocationMirrorStale :: "mirror \<Rightarrow> mirror" where
  "markRevocationMirrorStale s = s\<lparr>mr_trusted_epoch := None, mr_generation := mr_generation s + 1\<rparr>"

text \<open>The check of a token: the answer of Redis while the copy is trusted and the read succeeds, else the row.\<close>

definition isAccessTokenRevoked :: "mirror \<Rightarrow> bool \<Rightarrow> string \<Rightarrow> int option \<Rightarrow> bool" where
  "isAccessTokenRevoked s reads user iat = isRevokedForIssuedAt
     (if getRedisClient s \<and> isAccessRevocationMirrorTrusted s \<and> reads then map_of (mr_redis s) user else map_of (mr_db s) user) iat"

section \<open>One copy\<close>

definition serve :: "string \<Rightarrow> revocation_row \<Rightarrow> mirror \<Rightarrow> mirror" where
  "serve user row s = s\<lparr>mr_served := js_map_set user row (mr_served s)\<rparr>"

definition leave_copy :: "nat \<Rightarrow> mirror \<Rightarrow> mirror" where
  "leave_copy i s = s\<lparr>mr_copies := js_map_set i Copied (mr_copies s), mr_copies_in_flight := mr_copies_in_flight s - 1\<rparr>"

text \<open>Without a client the copy is skipped and the mirror is stale at once.\<close>

definition copy_start :: "nat \<Rightarrow> string \<Rightarrow> mirror \<Rightarrow> mirror" where
  "copy_start i user s =
     (if map_of (mr_copies s) i \<noteq> None then s
      else if \<not> getRedisClient s
      then (case map_of (mr_db s) user of None \<Rightarrow> id | Some row \<Rightarrow> serve user row)
        (markRevocationMirrorStale (s\<lparr>mr_copies := js_map_set i Copied (mr_copies s)\<rparr>))
      else s\<lparr>mr_copies := js_map_set i (Reading user) (mr_copies s), mr_copies_started := mr_copies_started s + 1,
             mr_copies_in_flight := mr_copies_in_flight s + 1\<rparr>)"

definition copy_read :: "nat \<Rightarrow> mirror \<Rightarrow> mirror" where
  "copy_read i s = (case map_of (mr_copies s) i of
     Some (Reading user) \<Rightarrow> (case map_of (mr_db s) user of
         None \<Rightarrow> leave_copy i s
       | Some row \<Rightarrow> s\<lparr>mr_copies := js_map_set i (Writing user row) (mr_copies s)\<rparr>)
   | _ \<Rightarrow> s)"

text \<open>A read of the database that throws leaves the function: the flight ends, the mirror stays trusted.\<close>

definition copy_read_fails :: "nat \<Rightarrow> mirror \<Rightarrow> mirror" where
  "copy_read_fails i s = (case map_of (mr_copies s) i of Some (Reading user) \<Rightarrow> leave_copy i s | _ \<Rightarrow> s)"

text \<open>The write; a write that fails or is too late may still have reached Redis.\<close>

definition copy_write :: "nat \<Rightarrow> bool \<Rightarrow> bool \<Rightarrow> mirror \<Rightarrow> mirror" where
  "copy_write i succeeds applied s = (case map_of (mr_copies s) i of
     Some (Writing user row) \<Rightarrow>
       (let written = (if succeeds \<or> applied then s\<lparr>mr_redis := js_map_set user row (mr_redis s)\<rparr> else s)
        in leave_copy i (serve user row (if succeeds then written else markRevocationMirrorStale written)))
   | _ \<Rightarrow> s)"

section \<open>The resync\<close>

definition resync_start :: "mirror \<Rightarrow> mirror" where
  "resync_start s =
     (if isAccessRevocationMirrorTrusted s \<or> mr_resync s \<noteq> None \<or> \<not> getRedisClient s \<or> mr_copies_in_flight s > 0 then s
      else s\<lparr>mr_resync := Some \<lparr>ry_epoch = mr_epoch s, ry_generation = mr_generation s,
               ry_copies_started = mr_copies_started s, ry_rows = None\<rparr>\<rparr>)"

text \<open>The rows younger than the window, which is longer than the life of an access token.\<close>

definition selectRecentRevocations :: "int \<Rightarrow> mirror \<Rightarrow> (string \<times> revocation_row) list" where
  "selectRecentRevocations window s = filter (\<lambda>(_, row). instant row > mr_now s - window) (mr_db s)"

definition resync_read :: "int \<Rightarrow> mirror \<Rightarrow> mirror" where
  "resync_read window s = (case mr_resync s of
     Some y \<Rightarrow> (if ry_rows y = None then s\<lparr>mr_resync := Some (y\<lparr>ry_rows := Some (selectRecentRevocations window s)\<rparr>)\<rparr> else s)
   | None \<Rightarrow> s)"

text \<open>The writes of a batch run at the same time: any of the remaining ones is next.\<close>

definition resync_write :: "string \<Rightarrow> mirror \<Rightarrow> mirror" where
  "resync_write user s = (case mr_resync s of
     Some y \<Rightarrow> (case ry_rows y of
         Some rows \<Rightarrow> (case map_of rows user of
             Some row \<Rightarrow> s\<lparr>mr_redis := js_map_set user row (mr_redis s),
                           mr_resync := Some (y\<lparr>ry_rows := Some (filter (\<lambda>(u, _). u \<noteq> user) rows)\<rparr>)\<rparr>
           | None \<Rightarrow> s)
       | None \<Rightarrow> s)
   | None \<Rightarrow> s)"

definition resync_end :: "mirror \<Rightarrow> mirror" where
  "resync_end s = (case mr_resync s of
     Some y \<Rightarrow> if ry_rows y \<noteq> Some [] then s
       else if ry_epoch y \<noteq> mr_epoch s \<or> ry_generation y \<noteq> mr_generation s
         \<or> ry_copies_started y \<noteq> mr_copies_started s \<or> mr_copies_in_flight s > 0 then s\<lparr>mr_resync := None\<rparr>
       else s\<lparr>mr_resync := None, mr_trusted_epoch := Some (ry_epoch y)\<rparr>
   | None \<Rightarrow> s)"

section \<open>The runs\<close>

datatype mirror_event =
    Revoke string bool
  | Other_copy string
  | Copy_start nat string
  | Copy_read nat
  | Copy_read_fails nat
  | Copy_write nat bool bool
  | Resync_start
  | Resync_read
  | Resync_write string
  | Resync_fails
  | Resync_end
  | Redis_restart
  | Redis_ready
  | Redis_breaker bool
  | Bus_lost
  | Bus_back
  | Tick int

fun mirror_step :: "int \<Rightarrow> mirror \<Rightarrow> mirror_event \<Rightarrow> mirror" where
  "mirror_step w s (Revoke user permanent) =
     s\<lparr>mr_db := js_map_set user (upsert_revocation (map_of (mr_db s) user) permanent (mr_now s)) (mr_db s)\<rparr>"
| "mirror_step w s (Other_copy user) = (case map_of (mr_db s) user of None \<Rightarrow> s
     | Some row \<Rightarrow> s\<lparr>mr_redis := js_map_set user row (mr_redis s)\<rparr>)"
| "mirror_step w s (Copy_start i user) = copy_start i user s"
| "mirror_step w s (Copy_read i) = copy_read i s"
| "mirror_step w s (Copy_read_fails i) = copy_read_fails i s"
| "mirror_step w s (Copy_write i succeeds applied) = copy_write i succeeds applied s"
| "mirror_step w s Resync_start = resync_start s"
| "mirror_step w s Resync_read = resync_read w s"
| "mirror_step w s (Resync_write user) = resync_write user s"
| "mirror_step w s Resync_fails = s\<lparr>mr_resync := None\<rparr>"
| "mirror_step w s Resync_end = resync_end s"
| "mirror_step w s Redis_restart = s\<lparr>mr_redis := [], mr_ready := False\<rparr>"
| "mirror_step w s Redis_ready = s\<lparr>mr_ready := True, mr_epoch := mr_epoch s + 1\<rparr>"
| "mirror_step w s (Redis_breaker opened) = s\<lparr>mr_breaker_open := opened\<rparr>"
| "mirror_step w s Bus_lost = markRevocationMirrorStale (s\<lparr>mr_bus_healthy := False\<rparr>)"
| "mirror_step w s Bus_back = markRevocationMirrorStale (s\<lparr>mr_bus_healthy := True\<rparr>)"
| "mirror_step w s (Tick d) = s\<lparr>mr_now := mr_now s + max 0 d\<rparr>"

section \<open>Rows only grow\<close>

definition newer :: "revocation_row \<Rightarrow> revocation_row \<Rightarrow> bool" where
  "newer r v \<longleftrightarrow> instant v \<le> instant r \<and> (case r of Full _ \<Rightarrow> True | Issued_before _ \<Rightarrow> (case v of Full _ \<Rightarrow> False | _ \<Rightarrow> True))"

lemma newer_refl [simp]: "newer r r"
  by (cases r) (simp_all add: newer_def)

lemma newer_trans: "newer a b \<Longrightarrow> newer b c \<Longrightarrow> newer a c"
  by (auto simp: newer_def split: revocation_row.splits)

lemma newer_upsert: "instant v \<le> now \<Longrightarrow> newer (upsert_revocation (Some v) p now) v"
  by (cases v; cases p) (auto simp: newer_def)

lemma instant_upsert: "(\<And>v. old = Some v \<Longrightarrow> instant v \<le> now) \<Longrightarrow> instant (upsert_revocation old p now) \<le> now"
  by (cases "(old, p, now)" rule: upsert_revocation.cases) auto

lemma newer_refuses: "newer r v \<Longrightarrow> isRevokedForIssuedAt (Some v) iat \<Longrightarrow> isRevokedForIssuedAt (Some r) iat"
  by (cases r; cases v) (auto simp: newer_def isRevokedForIssuedAt_def intro: less_le_trans zdiv_mono1)

definition active_copy :: "copy_phase \<Rightarrow> bool" where
  "active_copy c \<longleftrightarrow> c \<noteq> Copied"

text \<open>The copies in flight are counted; an entry is replaced once.\<close>

definition flights :: "(nat \<times> copy_phase) list \<Rightarrow> nat" where
  "flights cs = length (filter (\<lambda>(_, c). active_copy c) cs)"

lemma flights_set_new: "map_of cs i = None \<Longrightarrow> flights (js_map_set i c cs) = flights cs + (if active_copy c then 1 else 0)"
  by (simp add: js_map_set_new flights_def map_of_eq_None_iff)

lemma flights_set_old: "map_of cs i = Some d \<Longrightarrow>
    flights (js_map_set i c cs) + (if active_copy d then 1 else 0) = flights cs + (if active_copy c then 1 else 0)"
  by (induction cs) (auto simp: flights_def split: if_splits)

lemma flights_zero: "flights cs = 0 \<Longrightarrow> map_of cs i = Some c \<Longrightarrow> \<not> active_copy c"
  by (auto simp: flights_def filter_empty_conv dest: map_of_SomeD)

section \<open>The invariant\<close>

fun copies_user :: "string \<Rightarrow> copy_phase \<Rightarrow> bool" where
  "copies_user u (Reading v) \<longleftrightarrow> v = u"
| "copies_user u (Writing v _) \<longleftrightarrow> v = u"
| "copies_user u Copied \<longleftrightarrow> False"

definition holds_newer :: "(string \<times> revocation_row) list \<Rightarrow> string \<Rightarrow> revocation_row \<Rightarrow> bool" where
  "holds_newer rows u v \<longleftrightarrow> (\<exists>r. map_of rows u = Some r \<and> newer r v)"

definition rows_past :: "mirror \<Rightarrow> bool" where
  "rows_past s \<longleftrightarrow> distinct (map fst (mr_db s)) \<and> (\<forall>u r. map_of (mr_db s) u = Some r \<longrightarrow> instant r \<le> mr_now s)"

definition served_known :: "mirror \<Rightarrow> bool" where
  "served_known s \<longleftrightarrow> (\<forall>u v. map_of (mr_served s) u = Some v \<longrightarrow> holds_newer (mr_db s) u v)"

definition writes_known :: "mirror \<Rightarrow> bool" where
  "writes_known s \<longleftrightarrow> (\<forall>i u row. map_of (mr_copies s) i = Some (Writing u row) \<longrightarrow>
     holds_newer (mr_db s) u row \<and> (\<forall>v. map_of (mr_served s) u = Some v \<longrightarrow> newer row v))"

definition copies_single :: "mirror \<Rightarrow> bool" where
  "copies_single s \<longleftrightarrow> (\<forall>i j c d u. map_of (mr_copies s) i = Some c \<longrightarrow> map_of (mr_copies s) j = Some d \<longrightarrow>
     copies_user u c \<longrightarrow> copies_user u d \<longrightarrow> i = j)"

definition counters_ok :: "mirror \<Rightarrow> bool" where
  "counters_ok s \<longleftrightarrow> mr_copies_in_flight s = flights (mr_copies s)
     \<and> (\<forall>e. mr_trusted_epoch s = Some e \<longrightarrow> e \<le> mr_epoch s)
     \<and> (\<forall>y. mr_resync s = Some y \<longrightarrow> ry_epoch y \<le> mr_epoch s \<and> ry_generation y \<le> mr_generation s
          \<and> ry_copies_started y \<le> mr_copies_started s
          \<and> (ry_copies_started y = mr_copies_started s \<longrightarrow> flights (mr_copies s) = 0)
          \<and> \<not> isAccessRevocationMirrorTrusted s)"

text \<open>A row too old to refuse a token that has not expired by itself.\<close>

definition too_old :: "int \<Rightarrow> mirror \<Rightarrow> revocation_row \<Rightarrow> bool" where
  "too_old w s v \<longleftrightarrow> instant v \<le> mr_now s - w"

definition rest_covers :: "int \<Rightarrow> mirror \<Rightarrow> (string \<times> revocation_row) list \<Rightarrow> string \<Rightarrow> revocation_row \<Rightarrow> bool" where
  "rest_covers w s rest u v \<longleftrightarrow> (case map_of rest u of Some row \<Rightarrow> newer row v
     | None \<Rightarrow> too_old w s v \<or> holds_newer (mr_redis s) u v)"

definition resync_covers :: "int \<Rightarrow> mirror \<Rightarrow> bool" where
  "resync_covers w s \<longleftrightarrow> (\<forall>y rest u v. mr_resync s = Some y \<longrightarrow> ry_epoch y = mr_epoch s \<longrightarrow>
     ry_generation y = mr_generation s \<longrightarrow> ry_copies_started y = mr_copies_started s \<longrightarrow> mr_ready s \<longrightarrow>
     ry_rows y = Some rest \<longrightarrow> map_of (mr_served s) u = Some v \<longrightarrow>
     rest_covers w s rest u v)"

definition trusted_covers :: "int \<Rightarrow> mirror \<Rightarrow> bool" where
  "trusted_covers w s \<longleftrightarrow> (isAccessRevocationMirrorTrusted s \<longrightarrow> mr_ready s \<longrightarrow>
     (\<forall>u v. map_of (mr_served s) u = Some v \<longrightarrow> too_old w s v \<or> holds_newer (mr_redis s) u v))"

definition mirror_inv :: "int \<Rightarrow> mirror \<Rightarrow> bool" where
  "mirror_inv w s \<longleftrightarrow> rows_past s \<and> served_known s \<and> writes_known s \<and> copies_single s \<and> counters_ok s
     \<and> resync_covers w s \<and> trusted_covers w s"

lemmas mirror_inv_defs = rows_past_def served_known_def writes_known_def copies_single_def counters_ok_def
  resync_covers_def trusted_covers_def too_old_def isAccessRevocationMirrorTrusted_def markRevocationMirrorStale_def

lemma holds_newer_set: "holds_newer (js_map_set x r rows) u v \<longleftrightarrow> (if u = x then newer r v else holds_newer rows u v)"
  by (simp add: holds_newer_def)

lemma resync_covers_frame:
  assumes "resync_covers w s" "mr_resync t = mr_resync s" "mr_epoch t = mr_epoch s" "mr_generation t = mr_generation s"
    "mr_copies_started t = mr_copies_started s" "mr_ready t = mr_ready s" "mr_served t = mr_served s" "mr_now t = mr_now s"
    "mr_redis t = mr_redis s"
  shows "resync_covers w t"
proof -
  have "rest_covers w t = rest_covers w s" using assms by (intro ext) (simp add: rest_covers_def too_old_def split: option.split)
  then show ?thesis using assms by (simp add: resync_covers_def)
qed

lemma inv_revoke:
  assumes "mirror_inv w s"
  shows "mirror_inv w (mirror_step w s (Revoke u p))"
proof -
  let ?r = "upsert_revocation (map_of (mr_db s) u) p (mr_now s)"
  have past: "map_of (mr_db s) u = Some r \<Longrightarrow> instant r \<le> mr_now s" for r
    using assms by (simp add: mirror_inv_def rows_past_def)
  have up: "holds_newer (js_map_set u ?r (mr_db s)) x v" if "holds_newer (mr_db s) x v" for x v
  proof (cases "x = u")
    case True
    with that obtain r where "map_of (mr_db s) u = Some r" "newer r v" by (auto simp: holds_newer_def)
    then show ?thesis using newer_trans [OF newer_upsert] past True by (auto simp: holds_newer_set)
  qed (use that in \<open>simp add: holds_newer_set\<close>)
  have "instant ?r \<le> mr_now s" using past by (rule instant_upsert)
  then have "rows_past (mirror_step w s (Revoke u p))"
    using assms by (simp add: mirror_inv_def rows_past_def distinct_js_map_set)
  moreover have "served_known (mirror_step w s (Revoke u p))"
    using assms up by (auto simp: mirror_inv_def served_known_def)
  moreover have "writes_known (mirror_step w s (Revoke u p))"
    using assms up by (auto simp: mirror_inv_def writes_known_def)
  moreover have "resync_covers w (mirror_step w s (Revoke u p))"
    using assms by (auto simp: mirror_inv_def intro: resync_covers_frame)
  moreover have "trusted_covers w (mirror_step w s (Revoke u p))"
    using assms by (simp add: mirror_inv_def trusted_covers_def too_old_def isAccessRevocationMirrorTrusted_def)
  ultimately show ?thesis using assms
    by (simp add: mirror_inv_def copies_single_def counters_ok_def isAccessRevocationMirrorTrusted_def)
qed

lemma inv_redis_set:
  assumes inv: "mirror_inv w s" and new: "\<And>v. map_of (mr_served s) u = Some v \<Longrightarrow> newer row v"
  shows "mirror_inv w (s\<lparr>mr_redis := js_map_set u row (mr_redis s)\<rparr>)"
proof -
  let ?s = "s\<lparr>mr_redis := js_map_set u row (mr_redis s)\<rparr>"
  have "trusted_covers w ?s" using inv new
    by (auto simp: mirror_inv_def trusted_covers_def isAccessRevocationMirrorTrusted_def too_old_def holds_newer_set)
  moreover have "rest_covers w ?s rest x v" if "rest_covers w s rest x v" "map_of (mr_served s) x = Some v" for rest x v
    using that new by (auto simp: rest_covers_def too_old_def holds_newer_set split: option.splits)
  then have "resync_covers w ?s" using inv by (auto simp: mirror_inv_def resync_covers_def)
  ultimately show ?thesis using inv
    by (simp add: mirror_inv_def rows_past_def served_known_def writes_known_def copies_single_def counters_ok_def
        isAccessRevocationMirrorTrusted_def)
qed

text \<open>A stale mirror: neither trusted nor about to be.\<close>

definition distrusts :: "mirror \<Rightarrow> bool" where
  "distrusts s \<longleftrightarrow> \<not> isAccessRevocationMirrorTrusted s \<and> (\<forall>y. mr_resync s = Some y \<longrightarrow> ry_generation y < mr_generation s)"

lemma inv_stale:
  assumes "mirror_inv w s"
  shows "mirror_inv w (markRevocationMirrorStale s)" "distrusts (markRevocationMirrorStale s)"
  using assms
  by (auto simp: mirror_inv_def rows_past_def served_known_def writes_known_def copies_single_def counters_ok_def
      resync_covers_def trusted_covers_def isAccessRevocationMirrorTrusted_def markRevocationMirrorStale_def distrusts_def
      le_imp_less_Suc)

lemma inv_serve:
  assumes inv: "mirror_inv w s" and known: "holds_newer (mr_db s) u v"
    and writes: "\<And>i row. map_of (mr_copies s) i = Some (Writing u row) \<Longrightarrow> newer row v"
    and covered: "distrusts s \<or> mr_copies_in_flight s > 0 \<and> holds_newer (mr_redis s) u v"
  shows "mirror_inv w (serve u v s)"
proof -
  have "served_known (serve u v s)" using inv known by (auto simp: mirror_inv_def served_known_def serve_def)
  moreover have "writes_known (serve u v s)" using inv writes
    by (auto simp: mirror_inv_def writes_known_def serve_def)
  moreover have "trusted_covers w (serve u v s)" using inv covered
    by (auto simp: mirror_inv_def trusted_covers_def serve_def distrusts_def isAccessRevocationMirrorTrusted_def too_old_def)
  moreover have "resync_covers w (serve u v s)" using inv covered
    by (auto simp: mirror_inv_def resync_covers_def counters_ok_def serve_def distrusts_def)
  ultimately show ?thesis using inv
    by (simp add: mirror_inv_def rows_past_def copies_single_def counters_ok_def serve_def isAccessRevocationMirrorTrusted_def)
qed

lemma inv_leave:
  assumes inv: "mirror_inv w s" and c: "map_of (mr_copies s) i = Some c" "active_copy c"
  shows "mirror_inv w (leave_copy i s)"
proof -
  have "copies_single (leave_copy i s)" using inv
    by (auto simp: mirror_inv_def copies_single_def leave_copy_def split: if_splits)
  moreover have "counters_ok (leave_copy i s)" using inv flights_set_old [OF c(1), of Copied] c(2)
    by (auto simp: mirror_inv_def counters_ok_def leave_copy_def isAccessRevocationMirrorTrusted_def active_copy_def)
  moreover have "writes_known (leave_copy i s)" using inv
    by (auto simp: mirror_inv_def writes_known_def leave_copy_def split: if_splits)
  moreover have "resync_covers w (leave_copy i s)"
    using inv by (auto simp: mirror_inv_def leave_copy_def intro: resync_covers_frame)
  moreover have "trusted_covers w (leave_copy i s)" using inv
    by (simp add: mirror_inv_def trusted_covers_def leave_copy_def isAccessRevocationMirrorTrusted_def too_old_def)
  ultimately show ?thesis using inv
    by (simp add: mirror_inv_def rows_past_def served_known_def leave_copy_def)
qed

lemma inv_other_copy:
  assumes inv: "mirror_inv w s"
  shows "mirror_inv w (mirror_step w s (Other_copy u))"
proof (cases "map_of (mr_db s) u")
  case (Some row)
  have "newer row v" if "map_of (mr_served s) u = Some v" for v
    using inv that Some by (fastforce simp: mirror_inv_def served_known_def holds_newer_def)
  then show ?thesis using inv_redis_set [OF inv] Some by simp
qed (simp add: inv)

text \<open>A copy of a user starts while no other copy of that user runs in this process.\<close>

definition fresh_copy :: "mirror \<Rightarrow> string \<Rightarrow> bool" where
  "fresh_copy s user \<longleftrightarrow> list_all (\<lambda>(_, c). \<not> copies_user user c) (mr_copies s)"

lemma fresh_copyD: "fresh_copy s u \<Longrightarrow> map_of (mr_copies s) i = Some c \<Longrightarrow> \<not> copies_user u c"
  by (auto simp: fresh_copy_def list_all_iff dest: map_of_SomeD)

lemma inv_copy_flies:
  assumes inv: "mirror_inv w s" and fresh: "fresh_copy s user" and new: "map_of (mr_copies s) i = None"
  shows "mirror_inv w (s\<lparr>mr_copies := js_map_set i (Reading user) (mr_copies s),
    mr_copies_started := mr_copies_started s + 1, mr_copies_in_flight := mr_copies_in_flight s + 1\<rparr>)" (is "mirror_inv w ?s")
proof -
  have "copies_single ?s" using inv fresh_copyD [OF fresh]
    by (auto simp: mirror_inv_def copies_single_def split: if_splits)
  moreover have "counters_ok ?s" using inv new
    by (auto simp: mirror_inv_def counters_ok_def isAccessRevocationMirrorTrusted_def flights_set_new active_copy_def)
  moreover have "resync_covers w ?s" using inv by (auto simp: mirror_inv_def resync_covers_def counters_ok_def)
  ultimately show ?thesis using inv
    by (simp add: mirror_inv_def rows_past_def served_known_def writes_known_def trusted_covers_def
        isAccessRevocationMirrorTrusted_def too_old_def)
qed

lemma inv_copy_skipped:
  assumes inv: "mirror_inv w s" and new: "map_of (mr_copies s) i = None"
  shows "mirror_inv w (s\<lparr>mr_copies := js_map_set i Copied (mr_copies s)\<rparr>)" (is "mirror_inv w ?s")
proof -
  have "counters_ok ?s" using inv new
    by (auto simp: mirror_inv_def counters_ok_def isAccessRevocationMirrorTrusted_def flights_set_new active_copy_def)
  moreover have "copies_single ?s" using inv by (auto simp: mirror_inv_def copies_single_def split: if_splits)
  moreover have "resync_covers w ?s" using inv by (auto simp: mirror_inv_def intro: resync_covers_frame)
  ultimately show ?thesis using inv
    by (simp add: mirror_inv_def rows_past_def served_known_def writes_known_def trusted_covers_def
        isAccessRevocationMirrorTrusted_def too_old_def)
qed

lemma inv_copy_start:
  assumes inv: "mirror_inv w s" and fresh: "fresh_copy s user"
  shows "mirror_inv w (copy_start i user s)"
proof (cases "map_of (mr_copies s) i = None")
  case new: True
  show ?thesis
  proof (cases "getRedisClient s")
    case True
    then show ?thesis using inv_copy_flies [OF inv fresh new] new by (simp add: copy_start_def)
  next
    case off: False
    let ?t = "markRevocationMirrorStale (s\<lparr>mr_copies := js_map_set i Copied (mr_copies s)\<rparr>)"
    note stale = inv_stale [OF inv_copy_skipped [OF inv new]]
    have "map_of (mr_copies s) j \<noteq> Some (Writing user row)" for j row
      using fresh_copyD [OF fresh, of j "Writing user row"] by auto
    then have "mirror_inv w (serve user row ?t)" if "map_of (mr_db s) user = Some row" for row
      using that stale by (intro inv_serve) (auto simp: markRevocationMirrorStale_def holds_newer_def split: if_splits)
    then show ?thesis using new off stale(1) by (auto simp: copy_start_def split: option.split)
  qed
qed (auto simp: copy_start_def inv)

lemma inv_copy_read:
  assumes inv: "mirror_inv w s"
  shows "mirror_inv w (copy_read i s)" "mirror_inv w (copy_read_fails i s)"
proof -
  have leave: "mirror_inv w (leave_copy i s)" if "map_of (mr_copies s) i = Some (Reading user)" for user
    using inv_leave [OF inv that] by (simp add: active_copy_def)
  then show "mirror_inv w (copy_read_fails i s)" using inv
    by (simp add: copy_read_fails_def split: option.split copy_phase.split)
  have "mirror_inv w (s\<lparr>mr_copies := js_map_set i (Writing user row) (mr_copies s)\<rparr>)" (is "mirror_inv w ?s")
    if r: "map_of (mr_copies s) i = Some (Reading user)" and row: "map_of (mr_db s) user = Some row" for user row
  proof -
    have "copies_user u (Reading user)" if "copies_user u (Writing user row)" for u using that by simp
    then have "copies_single ?s" using inv r
      by (simp add: mirror_inv_def copies_single_def) (metis copies_user.simps(1,2))
    moreover have "counters_ok ?s" using inv flights_set_old [OF r, of "Writing user row"]
      by (auto simp: mirror_inv_def counters_ok_def isAccessRevocationMirrorTrusted_def active_copy_def)
    moreover have "writes_known ?s" using inv row
      by (fastforce simp: mirror_inv_def writes_known_def served_known_def holds_newer_def split: if_splits)
    moreover have "resync_covers w ?s" using inv by (auto simp: mirror_inv_def intro: resync_covers_frame)
    ultimately show ?thesis using inv
      by (simp add: mirror_inv_def rows_past_def served_known_def trusted_covers_def
          isAccessRevocationMirrorTrusted_def too_old_def)
  qed
  with leave show "mirror_inv w (copy_read i s)" using inv
    by (simp add: copy_read_def split: option.split copy_phase.split)
qed

lemma inv_copy_write:
  assumes inv: "mirror_inv w s"
  shows "mirror_inv w (copy_write i succeeds applied s)"
proof -
  have "mirror_inv w (copy_write i succeeds applied s)" if c: "map_of (mr_copies s) i = Some (Writing user row)" for user row
  proof -
    let ?w = "if succeeds \<or> applied then s\<lparr>mr_redis := js_map_set user row (mr_redis s)\<rparr> else s"
    let ?t = "if succeeds then ?w else markRevocationMirrorStale ?w"
    have known: "holds_newer (mr_db s) user row" "map_of (mr_served s) user = Some v \<Longrightarrow> newer row v" for v
      using inv c by (auto simp: mirror_inv_def writes_known_def)
    have w: "mirror_inv w ?w" using inv_redis_set [OF inv known(2)] inv by simp
    then have t: "mirror_inv w ?t" using inv_stale(1) [OF w] by (cases succeeds; cases applied) simp_all
    have same: "mr_copies ?t = mr_copies s" "mr_db ?t = mr_db s" "mr_copies_in_flight ?t = mr_copies_in_flight s"
      by (simp_all add: markRevocationMirrorStale_def)
    have "flights (mr_copies s) > 0" using flights_zero [OF _ c] by (auto simp: active_copy_def)
    then have "mr_copies_in_flight s > 0" using inv by (simp add: mirror_inv_def counters_ok_def)
    moreover have "j = i" if "map_of (mr_copies s) j = Some (Writing user r)" for j r
      using inv that c unfolding mirror_inv_def copies_single_def by (metis copies_user.simps(2))
    then have "newer r row" if "map_of (mr_copies s) j = Some (Writing user r)" for j r
      using that c by fastforce
    moreover have "distrusts ?t \<or> holds_newer (mr_redis ?t) user row"
      using inv_stale(2) [OF w] by (cases succeeds) (simp_all only: if_True if_False simp_thms, simp add: holds_newer_def)
    ultimately have "mirror_inv w (serve user row ?t)"
      using inv_serve [OF t] known(1) same by auto
    then have "mirror_inv w (leave_copy i (serve user row ?t))"
      using c same by (rule_tac inv_leave) (auto simp: serve_def active_copy_def)
    then show ?thesis using c by (simp add: copy_write_def Let_def)
  qed
  then show ?thesis using inv by (cases "map_of (mr_copies s) i" rule: option.exhaust) (auto simp: copy_write_def split: copy_phase.split)
qed

lemma inv_resync_start: "mirror_inv w s \<Longrightarrow> mirror_inv w (resync_start s)"
  by (auto simp: resync_start_def mirror_inv_def rows_past_def served_known_def writes_known_def copies_single_def
      counters_ok_def resync_covers_def trusted_covers_def isAccessRevocationMirrorTrusted_def too_old_def)

lemma recent_rows:
  assumes "rows_past s"
  shows "map_of (selectRecentRevocations w s) u
    = (case map_of (mr_db s) u of None \<Rightarrow> None | Some r \<Rightarrow> if instant r > mr_now s - w then Some r else None)"
proof -
  have "map_of (filter (\<lambda>(_, r). P r) xs) u = (case map_of xs u of None \<Rightarrow> None | Some r \<Rightarrow> if P r then Some r else None)"
    if "distinct (map fst xs)" for P :: "revocation_row \<Rightarrow> bool" and xs :: "(string \<times> revocation_row) list"
    using that by (induction xs) (auto simp: map_of_eq_None_iff split: option.splits)
  then show ?thesis using assms by (simp add: rows_past_def selectRecentRevocations_def)
qed

lemma inv_resync_read:
  assumes inv: "mirror_inv w s"
  shows "mirror_inv w (resync_read w s)"
proof -
  have past: "rows_past s" using inv by (simp add: mirror_inv_def)
  have covers: "rest_covers w t (selectRecentRevocations w s) u v"
    if "map_of (mr_served s) u = Some v" "mr_now t = mr_now s" for t u v
  proof -
    from that inv obtain r where "map_of (mr_db s) u = Some r" "newer r v"
      by (auto simp: mirror_inv_def served_known_def holds_newer_def)
    then show ?thesis using that(2) by (simp add: rest_covers_def recent_rows [OF past] too_old_def newer_def)
  qed
  have "mirror_inv w (s\<lparr>mr_resync := Some (y\<lparr>ry_rows := Some (selectRecentRevocations w s)\<rparr>)\<rparr>)" (is "mirror_inv w ?s")
    if y: "mr_resync s = Some y" for y
  proof -
    have "resync_covers w ?s" using covers by (simp add: resync_covers_def)
    then show ?thesis using inv y
      by (simp add: mirror_inv_def rows_past_def served_known_def writes_known_def copies_single_def
          counters_ok_def trusted_covers_def isAccessRevocationMirrorTrusted_def too_old_def)
  qed
  then show ?thesis using inv by (simp add: resync_read_def split: option.split)
qed

lemma rest_after_write:
  assumes "rest_covers w s rest u v" "map_of rest x = Some row"
  shows "rest_covers w (s\<lparr>mr_redis := js_map_set x row (mr_redis s), mr_resync := y\<rparr>) (filter (\<lambda>(k, _). k \<noteq> x) rest) u v"
proof -
  have "map_of (filter (\<lambda>(k, _). k \<noteq> x) rest) u = (if u = x then None else map_of rest u)"
    by (induction rest) auto
  then show ?thesis using assms by (auto simp: rest_covers_def too_old_def holds_newer_set split: option.splits)
qed

lemma inv_resync_write:
  assumes inv: "mirror_inv w s"
  shows "mirror_inv w (resync_write x s)"
proof -
  have "mirror_inv w (s\<lparr>mr_redis := js_map_set x row (mr_redis s),
      mr_resync := Some (y\<lparr>ry_rows := Some (filter (\<lambda>(u, _). u \<noteq> x) rows)\<rparr>)\<rparr>)" (is "mirror_inv w ?s")
    if y: "mr_resync s = Some y" "ry_rows y = Some rows" "map_of rows x = Some row" for y rows row
  proof -
    have off: "\<not> isAccessRevocationMirrorTrusted s" using inv y(1) by (simp add: mirror_inv_def counters_ok_def)
    have "resync_covers w s" using inv by (simp add: mirror_inv_def)
    then have "resync_covers w ?s" using y rest_after_write [OF _ y(3)] by (auto simp: resync_covers_def)
    moreover have "\<not> isAccessRevocationMirrorTrusted ?s" using off by (simp add: isAccessRevocationMirrorTrusted_def)
    then have "trusted_covers w ?s" by (simp add: trusted_covers_def)
    moreover have "counters_ok ?s" using inv y by (simp add: mirror_inv_def counters_ok_def isAccessRevocationMirrorTrusted_def)
    ultimately show ?thesis using inv
      by (simp add: mirror_inv_def rows_past_def served_known_def writes_known_def copies_single_def)
  qed
  then show ?thesis using inv by (simp add: resync_write_def split: option.split)
qed

lemma inv_resync_drop:
  assumes inv: "mirror_inv w s"
  shows "mirror_inv w (s\<lparr>mr_resync := None\<rparr>)"
  using inv by (simp add: mirror_inv_def rows_past_def served_known_def writes_known_def copies_single_def
      counters_ok_def resync_covers_def trusted_covers_def isAccessRevocationMirrorTrusted_def too_old_def)

lemma inv_resync_end:
  assumes inv: "mirror_inv w s"
  shows "mirror_inv w (resync_end s)"
proof -
  have "mirror_inv w (s\<lparr>mr_resync := None, mr_trusted_epoch := Some (ry_epoch y)\<rparr>)" (is "mirror_inv w ?s")
    if y: "mr_resync s = Some y" "ry_rows y = Some []" "ry_epoch y = mr_epoch s" "ry_generation y = mr_generation s"
      "ry_copies_started y = mr_copies_started s" for y
  proof -
    have "too_old w s v \<or> holds_newer (mr_redis s) u v" if "map_of (mr_served s) u = Some v" "mr_ready s" for u v
    proof -
      have "rest_covers w s [] u v" using inv y that by (simp add: mirror_inv_def resync_covers_def)
      then show ?thesis by (simp add: rest_covers_def)
    qed
    then have "trusted_covers w ?s" by (simp add: trusted_covers_def too_old_def)
    then show ?thesis using inv y(3)
      by (simp add: mirror_inv_def rows_past_def served_known_def writes_known_def copies_single_def
          counters_ok_def resync_covers_def)
  qed
  then show ?thesis using inv inv_resync_drop [OF inv] by (simp add: resync_end_def split: option.split)
qed

lemma inv_outside:
  assumes inv: "mirror_inv w s"
  shows "mirror_inv w (s\<lparr>mr_redis := [], mr_ready := False\<rparr>)"
    "mirror_inv w (s\<lparr>mr_ready := True, mr_epoch := Suc (mr_epoch s)\<rparr>)"
    "mirror_inv w (s\<lparr>mr_breaker_open := b\<rparr>)"
    "mirror_inv w (markRevocationMirrorStale (s\<lparr>mr_bus_healthy := b\<rparr>))"
proof -
  show "mirror_inv w (s\<lparr>mr_redis := [], mr_ready := False\<rparr>)" using inv
    by (simp add: mirror_inv_def rows_past_def served_known_def writes_known_def copies_single_def
      counters_ok_def resync_covers_def trusted_covers_def isAccessRevocationMirrorTrusted_def)
  show "mirror_inv w (s\<lparr>mr_ready := True, mr_epoch := Suc (mr_epoch s)\<rparr>)" using inv
    by (fastforce simp: mirror_inv_def rows_past_def served_known_def writes_known_def copies_single_def
      counters_ok_def resync_covers_def trusted_covers_def isAccessRevocationMirrorTrusted_def)
  have "resync_covers w (s\<lparr>mr_breaker_open := b\<rparr>)" using inv
    by (auto simp: mirror_inv_def intro: resync_covers_frame)
  then show "mirror_inv w (s\<lparr>mr_breaker_open := b\<rparr>)" using inv
    by (simp add: mirror_inv_def rows_past_def served_known_def writes_known_def copies_single_def
      counters_ok_def trusted_covers_def isAccessRevocationMirrorTrusted_def too_old_def)
  show "mirror_inv w (markRevocationMirrorStale (s\<lparr>mr_bus_healthy := b\<rparr>))" using inv
    by (fastforce simp: mirror_inv_def rows_past_def served_known_def writes_known_def copies_single_def
      counters_ok_def resync_covers_def trusted_covers_def isAccessRevocationMirrorTrusted_def markRevocationMirrorStale_def)
qed

lemma inv_tick:
  assumes inv: "mirror_inv w s"
  shows "mirror_inv w (s\<lparr>mr_now := mr_now s + max 0 d\<rparr>)" (is "mirror_inv w ?s")
proof -
  have old: "too_old w s v \<Longrightarrow> too_old w ?s v" for v by (simp add: too_old_def)
  have "rest_covers w s rest u v \<Longrightarrow> rest_covers w ?s rest u v" for rest u v
    using old by (auto simp: rest_covers_def split: option.splits)
  then have "resync_covers w ?s" using inv by (simp add: mirror_inv_def resync_covers_def)
  moreover have "trusted_covers w ?s" using inv old
    by (auto simp: mirror_inv_def trusted_covers_def isAccessRevocationMirrorTrusted_def)
  moreover have "rows_past ?s" using inv by (force simp: mirror_inv_def rows_past_def)
  ultimately show ?thesis using inv
    by (simp add: mirror_inv_def served_known_def writes_known_def copies_single_def counters_ok_def
        isAccessRevocationMirrorTrusted_def)
qed

text \<open>An event that does not start a second copy of a user beside a running one.\<close>

fun serial :: "mirror \<Rightarrow> mirror_event \<Rightarrow> bool" where
  "serial s (Copy_start i user) \<longleftrightarrow> fresh_copy s user"
| "serial s _ \<longleftrightarrow> True"

lemma inv_mirror_step: "mirror_inv w s \<Longrightarrow> serial s e \<Longrightarrow> mirror_inv w (mirror_step w s e)"
  using inv_revoke inv_other_copy
  by (cases e) (simp_all del: mirror_step.simps(1,2) add: inv_copy_start inv_copy_read inv_copy_write inv_resync_start
      inv_resync_read inv_resync_write inv_resync_drop inv_resync_end inv_outside inv_tick)

fun serial_run :: "int \<Rightarrow> mirror \<Rightarrow> mirror_event list \<Rightarrow> bool" where
  "serial_run w s [] \<longleftrightarrow> True"
| "serial_run w s (e # es) \<longleftrightarrow> serial s e \<and> serial_run w (mirror_step w s e) es"

lemma serial_run_append: "serial_run w s (es @ es') \<longleftrightarrow> serial_run w s es \<and> serial_run w (foldl (mirror_step w) s es) es'"
  by (induction es arbitrary: s) auto

lemma inv_mirror_run: "mirror_inv w s \<Longrightarrow> serial_run w s es \<Longrightarrow> mirror_inv w (foldl (mirror_step w) s es)"
  by (induction es arbitrary: s) (auto simp: inv_mirror_step)

text \<open>A process starts without trust; Redis may hold anything.\<close>

definition mirror_start :: "mirror \<Rightarrow> bool" where
  "mirror_start s \<longleftrightarrow> rows_past s \<and> mr_trusted_epoch s = None \<and> mr_resync s = None \<and> mr_copies s = []
     \<and> mr_copies_in_flight s = 0 \<and> mr_served s = []"

lemma mirror_start_inv: "mirror_start s \<Longrightarrow> mirror_inv w s"
  by (simp add: mirror_start_def mirror_inv_def served_known_def writes_known_def copies_single_def counters_ok_def
      resync_covers_def trusted_covers_def isAccessRevocationMirrorTrusted_def flights_def)

text \<open>What was served only moves forward.\<close>

lemma served_grows:
  assumes inv: "mirror_inv w s" and v: "map_of (mr_served s) u = Some v"
  shows "holds_newer (mr_served (mirror_step w s e)) u v"
proof -
  have same: "holds_newer (mr_served t) u v" if "mr_served t = mr_served s" for t
    using that v by (simp add: holds_newer_def)
  have start: "holds_newer (mr_served (copy_start i x s)) u v" for i x
    using inv v by (fastforce simp: copy_start_def serve_def markRevocationMirrorStale_def holds_newer_def
        mirror_inv_def served_known_def split: option.split)
  have "holds_newer (mr_served (copy_write i ok app s)) u v" for i ok app
    using inv v by (fastforce simp: copy_write_def serve_def leave_copy_def markRevocationMirrorStale_def holds_newer_def Let_def
        mirror_inv_def writes_known_def split: option.split copy_phase.split)
  then show ?thesis using start
    by (cases e) (auto intro!: same simp: copy_read_def copy_read_fails_def leave_copy_def resync_start_def resync_read_def
        resync_write_def resync_end_def markRevocationMirrorStale_def split: option.split copy_phase.split)
qed

lemma served_stays:
  assumes "mirror_inv w s" "serial_run w s es" "holds_newer (mr_served s) u v"
  shows "holds_newer (mr_served (foldl (mirror_step w) s es)) u v"
  using assms
proof (induction es arbitrary: s)
  case (Cons e es)
  then obtain r where r: "map_of (mr_served s) u = Some r" "newer r v" by (auto simp: holds_newer_def)
  have "holds_newer (mr_served (mirror_step w s e)) u v"
    using served_grows [OF Cons.prems(1) r(1), of e] newer_trans r(2) by (auto simp: holds_newer_def)
  then show ?case using Cons inv_mirror_step by simp
qed simp

lemma served_refuses:
  assumes inv: "mirror_inv w s" and v: "map_of (mr_served s) u = Some v" and iat: "isRevokedForIssuedAt (Some v) iat"
    and fits: "1000 * issued_at iat \<le> instant v" "mr_now s < 1000 * issued_at iat + w"
  shows "isAccessTokenRevoked s reads u iat"
proof -
  have db: "holds_newer (mr_db s) u v" using inv v by (simp add: mirror_inv_def served_known_def)
  have "holds_newer (mr_redis s) u v" if "mr_ready s" "isAccessRevocationMirrorTrusted s"
    using inv v that fits by (fastforce simp: mirror_inv_def trusted_covers_def too_old_def)
  then have "holds_newer (if getRedisClient s \<and> isAccessRevocationMirrorTrusted s \<and> reads then mr_redis s else mr_db s) u v"
    using db by (simp add: getRedisClient_def)
  then show ?thesis using newer_refuses iat
    by (auto simp: isAccessTokenRevoked_def holds_newer_def split: if_splits)
qed

text \<open>The process is done with a row: its write ended (well or not), or there was no client to write to.\<close>

fun hands_over :: "mirror \<Rightarrow> mirror_event \<Rightarrow> string \<Rightarrow> revocation_row \<Rightarrow> bool" where
  "hands_over s (Copy_write i _ _) u row \<longleftrightarrow> map_of (mr_copies s) i = Some (Writing u row)"
| "hands_over s (Copy_start i x) u row \<longleftrightarrow> x = u \<and> map_of (mr_copies s) i = None \<and> \<not> getRedisClient s \<and> map_of (mr_db s) u = Some row"
| "hands_over s _ u row \<longleftrightarrow> False"

lemma handed_over: "hands_over s e u row \<Longrightarrow> map_of (mr_served (mirror_step w s e)) u = Some row"
  by (cases "(s, e, u, row)" rule: hands_over.cases)
    (auto simp: copy_write_def copy_start_def serve_def leave_copy_def Let_def)


definition mirror_demo :: mirror where
  "mirror_demo = \<lparr>mr_db = [], mr_redis = [], mr_now = 5000000, mr_ready = True, mr_breaker_open = False, mr_epoch = 1,
     mr_bus_healthy = True, mr_trusted_epoch = None, mr_generation = 0, mr_copies_started = 0, mr_copies_in_flight = 0,
     mr_resync = None, mr_copies = [], mr_served = []\<rparr>"

definition trust_events :: "mirror_event list" where
  "trust_events = [Resync_start, Resync_read, Resync_end]"

lemma mirror_demo_start: "mirror_start mirror_demo"
  by (simp add: mirror_start_def mirror_demo_def rows_past_def)

text \<open>The write fails, Redis comes back empty, and after the resync the copy refuses the token.\<close>

definition mirror_recovery :: "mirror_event list" where
  "mirror_recovery = [Redis_restart, Redis_ready, Tick 3000, Resync_start, Resync_read, Resync_write ''u'', Resync_end]"


text \<open>
  Without the order of the copies the older row can win: a copy that read before the second revocation writes
  last, and a token issued between the two is accepted while the copy is trusted.
\<close>

lemma overlapping_copies:
  "let s = foldl (mirror_step 1020000) mirror_demo (trust_events @ [Revoke ''u'' False, Copy_start 0 ''u'', Copy_read 0,
       Tick 9000, Revoke ''u'' False, Copy_start 1 ''u'', Copy_read 1, Copy_write 1 True True, Copy_write 0 True True])
   in isRevokedForIssuedAt (map_of (mr_db s) ''u'') (Some 5004) \<and> \<not> isAccessTokenRevoked s True ''u'' (Some 5004)"
  by code_simp

text \<open>A failed read leaves the mirror trusted: the token is accepted though the committed row refuses it.\<close>

lemma failed_read_keeps_trust:
  "let s = foldl (mirror_step 1020000) mirror_demo (trust_events @ [Revoke ''u'' False, Copy_start 0 ''u'', Copy_read_fails 0])
   in isRevokedForIssuedAt (map_of (mr_db s) ''u'') (Some 4999) \<and> isAccessRevocationMirrorTrusted s \<and> \<not> isAccessTokenRevoked s True ''u'' (Some 4999)"
  by code_simp

end
