(* ===== verification/Spec2Isabelle.thy ===== *)
theory Spec2Isabelle
  imports Finalization Recovery Planning Dispatch Slots Job_Runner Rate_Limit User_Writes Chapter_Checkpoint
    Chat_Turn Permissions Publish_Governance Badges Cluster_Primary Inventory Course_Assembly Sso_Signin
    Session_Refresh Revocation_Mirror
begin

text \<open>
  Verification of the decision logic of the backend: the parts of the TypeScript server under src/src
  that decide without I/O (mostly the \<open>*.logic.ts\<close> files), and the protocols between them where their
  order matters. All paths below are relative to src/src.

  \<^bold>\<open>How the program works.\<close> A course author uploads sources; the lesson author
  (modules/ai-chatbot/ai-id) turns them into a course with one run of orchestration v2. A run is a
  finite graph of tasks in PostgreSQL: the source snapshot, the course skeleton, one blueprint task per
  chapter shard, the validation of the architecture, the publication of the inventory, one generation
  task per unit, one validation per chapter and the finalization. Workers receive task identities from
  RabbitMQ, call the AI provider and store JSON artifacts whose SHA-256 hashes bind each step to the one
  before. A stopped run can be recovered by its author. Around it stand the reports and chat gates, the
  durable-job runner, the user and permission checks, the publish governance, the badges, and the
  cluster of processes that serve HTTP.

  \<^bold>\<open>Theories and sources.\<close>

  \<^item> \<open>Landa_Prelude\<close>: results with errors (\<open>'e + 'a\<close>, \<open>bindE\<close>, \<open>mapE\<close>, \<open>ensure\<close> for an early throw), safe
    integers, the identifier patterns, decimal texts, JavaScript maps, \<open>trim\<close>; the collections
    \<open>result_simps\<close> and \<open>pattern_defs\<close>.
  \<^item> \<open>Canonical_Json\<close>: ai-id/shared/lesson-author-orchestration-v2-canonical-json.logic.ts. JavaScript
    values as a tree (\<open>jsval\<close>), the strict and the legacy encoder, the jsonb projection \<open>toPersistedJson\<close>.
    Main lemma: \<open>json_text_unique\<close>, texts are uniquely readable.
  \<^item> \<open>Event_System\<close>: no code, the locale of a component that changes only by events and keeps an invariant,
    interpreted by the gates, the single-flight guard, the chat stream, the bus, the cluster primary, the
    single sign-on and the refresh tokens; and \<open>once\<close>, what held at some moment of a run.
  \<^item> \<open>Task_Graph\<close>: no code, the locales \<open>dependency_order\<close> and \<open>task_graph\<close>, the contract between a task
    list and the scheduler, with progress and completion proved once.
  \<^item> \<open>Manifest\<close>, \<open>Manifest_Seal\<close>: ai-id/shared/lesson-author-orchestration-v2.logic.ts. Planning a task
    graph, sealing stored rows, the completion gate. Both interpret \<open>task_graph\<close> (\<open>planned\<close>, \<open>sealed\<close>).
  \<^item> \<open>Planning\<close>, \<open>Rag_Contract\<close>, \<open>Architecture\<close>, \<open>Course_Assembly\<close>, \<open>Inventory\<close>: the way from the model's
    answers to a published inventory. orchestration/...-planning.logic.ts packs the source scopes of a
    chapter into shards; contracts/...-rag-contract.logic.ts reads the skeleton and the shards (\<open>text_test\<close>
    and the other tests are its helpers); orchestration/...-architecture.logic.ts assembles the shards;
    orchestration/steps/...-inventory.logic.ts gives every node its identity, appends the remaining tasks
    and seals the graph. \<open>Course_Assembly\<close> joins the three contracts: what the readers accept, assembles.
  \<^item> \<open>Recovery\<close>: orchestration/recovery/...-recovery.logic.ts, the planner of a recovery request, its
    request hash, and the view of the options; interprets \<open>dependency_order\<close>.
  \<^item> \<open>Finalization\<close>: orchestration/finalize/...-finalization.logic.ts with the receipt type of
    ...-chapter.logic.ts.
  \<^item> \<open>Dispatch\<close>: orchestration/dispatch/...-dispatch.logic.ts and ...-worker.logic.ts: the message body, worker
    limits, retry and requeue delays.
  \<^item> \<open>Generation_Job\<close>, \<open>Chapter_Checkpoint\<close>: the older job contract and the chapter checkpoints
    (ai-id/shared/lesson-author-generation-job.logic.ts, ai-id/v1/lesson-author-chapter-checkpoint.logic.ts).
  \<^item> \<open>Slots\<close>: reports/report-admission.logic.ts and ai-platform/ai-chat-admission.logic.ts, as one counter
    structure under events; both interpret the locale \<open>concurrency_gate\<close>.
  \<^item> \<open>Job_Runner\<close>: platform/job-runner.
  \<^item> \<open>Rate_Limit\<close>: middleware/rate-limit-store.ts, over the Redis commands it uses.
  \<^item> \<open>Chat_Turn\<close>: usage, retries, metering and the event stream of a chat answer.
  \<^item> \<open>User_Authority\<close>, \<open>User_Writes\<close>: modules/users: the policy, and the transactions that use it with the
    advisory lock of the superadmin set.
  \<^item> \<open>Sso_Policy\<close>, \<open>Sso_Signin\<close>: modules/sso: the account policy, the configuration of a provider, and the
    exchange as requests that interleave statement by statement with each other and with administrators.
  \<^item> \<open>Session_Refresh\<close>: modules/auth: the rotation of refresh tokens under row locks, reuse detection,
    handoffs and the end of all sessions. \<open>Revocation_Mirror\<close>: the Redis copy of the access-token
    revocations, when it may answer and how it is rebuilt, under the events of Redis and of the cluster bus.
  \<^item> \<open>Permissions\<close>: middleware/authorize.ts.
  \<^item> \<open>Cluster_Bus\<close>: config/cluster-bus.ts, whose resets bound the staleness of that cache.
  \<^item> \<open>Inapp_Cluster\<close>, \<open>Cluster_Primary\<close>: config/process-role.ts, config/inapp-cluster.logic.ts and
    config/inapp-cluster-primary.ts: what a process runs, and the primary with its slots, crashes, rolling
    restarts and shutdown.
  \<^item> \<open>Publish_Governance\<close>: course-authoring/course-publish-governance.logic.ts.
  \<^item> \<open>Badges\<close>: modules/badges.

  \<^bold>\<open>How code is modelled.\<close> Interfaces are records with a prefix per type, unions are datatypes, thrown
  errors are the left side of a sum, and each early exit of a function is a branch in the order of the
  code. Object spreads are record updates. Reading a JSON value goes through \<open>jsval\<close>, so a wrong type is a
  value, not an assumption. Optional fields are options. Functions that depend on SHA-256 take it as
  \<open>sha\<close>; theorems about hashes name the collision they exclude. \<open>localeCompare\<close> is a linear order of
  collation keys given by \<open>rank\<close>. Clocks, random numbers, Redis replies and database answers are
  arguments. Concurrency is an inductive or functional step relation over events: a JavaScript function
  runs to its next \<open>await\<close>, a database statement sees the committed rows of its moment.

  \<^bold>\<open>What the lemmas show.\<close> Per component: what an operation accepts exactly (\<open>..._iff\<close>, \<open>..._Inr\<close>),
  the invariant and its preservation by every step (\<open>..._inv\<close>), and the facts one component promises the
  next. Across components: a planned graph seals (\<open>Manifest_Seal\<close>), reopened tasks finish (\<open>Recovery\<close>),
  accepted answers assemble (\<open>Course_Assembly\<close>), the published inventory runs to completion (\<open>Inventory\<close>), a
  finalized course has complete evidence (\<open>Finalization\<close>), the permission cache is invisible up to the
  staleness the bus allows (\<open>Permissions\<close>, \<open>Cluster_Bus\<close>).

  \<^bold>\<open>Bounds.\<close> The limits of the code are definitions (\<open>MAX_TASKS\<close> and others) and the theorems hold at them.
  No definition uses fuel: recursion is over lists, or over the slice budget of a sliced job. Integers are
  unbounded; where the code could leave the exact range of doubles, the safe-integer test of the code is
  modelled or the bound is proved. \<open>jitter_hash\<close> wraps at 32 bits as \<open>>>> 0\<close> does.

  \<^bold>\<open>Limits of the model.\<close> Characters are UTF-16 code units below 256, so Unicode normalization, the white
  space above 255 and surrogate pairs are outside. Numbers are integers or not finite. A value that
  \<open>String\<close> turns into an allowed text (a one-element array) is read as that text by \<open>Rag_Contract\<close>, while
  the code keeps the array; \<open>Dispatch.array_identifier_accepted\<close> shows the same coercion for identifiers.

  \<^bold>\<open>Not modelled.\<close> The repositories (SQL), the services around them (password login, chat, storage, mail),
  the AI provider clients and the HTTP routes are I/O. The first-generation blueprint validator, the report
  chat and its time expressions parse natural language with Unicode patterns. IDM runs (their extension
  of the assembly, author notes and dispositions), the reader of source pages with its fractional
  confidence, the re-reader of stored assemblies, the health breaker of the rate limiter, logging and
  metrics are left out of the components that are modelled.
\<close>

end
